(* ===== verification/Prelude.thy ===== *)
theory Prelude
  imports Main "HOL-Library.Char_ord" "HOL-Library.List_Lexorder"
begin

text \<open>
  Shared vocabulary of the development: Go strings and the parts of the \<open>strings\<close> package the
  program uses, Go errors as the left side of a sum, and generic lemmas on lists.

  A Go string is a sequence of bytes and a HOL \<^typ>\<open>string\<close> is a list of 8-bit characters, so a
  Go string is a \<^typ>\<open>string\<close>.  Three library functions consult the Unicode tables of the Go
  runtime as soon as a byte above 127 occurs: \<open>ToLower\<close>, \<open>TrimSpace\<close> and \<open>EqualFold\<close>.  On ASCII
  strings they are written out below; their behaviour on the other strings is a field of the record
  \<open>unicode\<close>, an argument of every definition that uses it.  No property restricts it.
\<close>

named_theorems go_simps "defining equations of the Go library functions"
named_theorems guard_simps "defining equations of guarded operations"

type_synonym go_time = int \<comment> \<open>an instant, in nanoseconds\<close>

text \<open>The conversion to a 32-bit integer keeps the low bits.\<close>

definition int32 :: "int \<Rightarrow> int" where
  "int32 x = signed_take_bit 31 x"

record unicode =
  u_lower :: "string \<Rightarrow> string"
  u_trim :: "string \<Rightarrow> string"
  u_fold :: "string \<Rightarrow> string \<Rightarrow> bool"

section \<open>Characters\<close>

abbreviation code :: "char \<Rightarrow> nat" where
  "code c \<equiv> of_char c"

definition ascii :: "char \<Rightarrow> bool" where
  "ascii c \<longleftrightarrow> code c < 128"

definition lower_char :: "char \<Rightarrow> char" where
  "lower_char c = (if 65 \<le> code c \<and> code c \<le> 90 then char_of (code c + 32) else c)"

definition space_char :: "char \<Rightarrow> bool" where
  "space_char c \<longleftrightarrow> code c \<in> {9, 10, 11, 12, 13, 32}"

lemma code_inject [simp]: "code c = code d \<longleftrightarrow> c = d"
  by (metis char_of_char)

lemma code_lower_char:
  "code (lower_char c) = (if 65 \<le> code c \<and> code c \<le> 90 then code c + 32 else code c)"
  by (simp add: lower_char_def)

lemma lower_char_id: "\<not> (65 \<le> code c \<and> code c \<le> 90) \<Longrightarrow> lower_char c = c"
  by (auto simp: lower_char_def)

lemma lower_char_idem [simp]: "lower_char (lower_char c) = lower_char c"
  by (rule lower_char_id) (simp add: code_lower_char)

section \<open>The strings package\<close>

definition all_ascii :: "string \<Rightarrow> bool" where
  "all_ascii s \<longleftrightarrow> list_all ascii s"

definition to_lower :: "unicode \<Rightarrow> string \<Rightarrow> string" where
  "to_lower U s = (if all_ascii s then map lower_char s else u_lower U s)"

definition ascii_trim :: "string \<Rightarrow> string" where
  "ascii_trim s = rev (dropWhile space_char (rev (dropWhile space_char s)))"

definition trim_space :: "unicode \<Rightarrow> string \<Rightarrow> string" where
  "trim_space U s = (if all_ascii s then ascii_trim s else u_trim U s)"

definition equal_fold :: "unicode \<Rightarrow> string \<Rightarrow> string \<Rightarrow> bool" where
  "equal_fold U s t =
     (if all_ascii s \<and> all_ascii t then map lower_char s = map lower_char t else u_fold U s t)"

definition has_prefix :: "string \<Rightarrow> string \<Rightarrow> bool" where
  "has_prefix p s \<longleftrightarrow> take (length p) s = p"

definition has_suffix :: "string \<Rightarrow> string \<Rightarrow> bool" where
  "has_suffix p s \<longleftrightarrow> length p \<le> length s \<and> drop (length s - length p) s = p"

fun contains :: "string \<Rightarrow> string \<Rightarrow> bool" where
  "contains sub [] \<longleftrightarrow> sub = []"
| "contains sub (c # cs) \<longleftrightarrow> has_prefix sub (c # cs) \<or> contains sub cs"

text \<open>\<open>strings.Cut\<close> with a one-byte separator: before, after, found.\<close>

definition cut_char :: "char \<Rightarrow> string \<Rightarrow> string \<times> string \<times> bool" where
  "cut_char c s =
     (if c \<in> set s then (takeWhile (\<lambda>x. x \<noteq> c) s, tl (dropWhile (\<lambda>x. x \<noteq> c) s), True)
      else (s, [], False))"

fun join :: "string \<Rightarrow> string list \<Rightarrow> string" where
  "join sep [] = []"
| "join sep [x] = x"
| "join sep (x # y # zs) = x @ sep @ join sep (y # zs)"

fun split_char :: "char \<Rightarrow> string \<Rightarrow> string list" where
  "split_char c [] = [[]]"
| "split_char c (x # xs) =
     (if x = c then [] # split_char c xs
      else (case split_char c xs of [] \<Rightarrow> [[x]] | y # ys \<Rightarrow> (x # y) # ys))"

definition trim_suffix :: "string \<Rightarrow> string \<Rightarrow> string" where
  "trim_suffix p s = (if has_suffix p s then take (length s - length p) s else s)"

lemma all_ascii_simps [simp]:
  "all_ascii []" "all_ascii (c # s) \<longleftrightarrow> ascii c \<and> all_ascii s"
  "all_ascii (s @ t) \<longleftrightarrow> all_ascii s \<and> all_ascii t"
  by (simp_all add: all_ascii_def)

lemma equal_fold_refl: "all_ascii s \<Longrightarrow> equal_fold U s s"
  by (simp add: equal_fold_def)

lemma has_prefix_append [simp]: "has_prefix p (p @ s)"
  by (simp add: has_prefix_def)

lemma has_prefix_iff: "has_prefix p s \<longleftrightarrow> (\<exists>t. s = p @ t)"
  unfolding has_prefix_def by (metis append_eq_conv_conj append_take_drop_id)

lemma has_suffix_append [simp]: "has_suffix p (s @ p)"
  by (simp add: has_suffix_def)

lemma has_suffix_iff: "has_suffix p s \<longleftrightarrow> (\<exists>t. s = t @ p)"
proof
  assume "has_suffix p s"
  then have "s = take (length s - length p) s @ p"
    unfolding has_suffix_def by (metis append_take_drop_id)
  then show "\<exists>t. s = t @ p" ..
qed auto

lemma contains_append: "contains sub (xs @ sub @ ys)"
proof (induction xs)
  case Nil
  then show ?case by (cases "sub @ ys") (auto, metis has_prefix_append)
next
  case (Cons x xs)
  then show ?case by simp
qed

lemma contains_iff: "contains sub s \<longleftrightarrow> (\<exists>xs ys. s = xs @ sub @ ys)"
proof
  show "contains sub s \<Longrightarrow> \<exists>xs ys. s = xs @ sub @ ys"
  proof (induction s)
    case Nil
    then show ?case by simp
  next
    case (Cons c cs)
    then consider "has_prefix sub (c # cs)" | "contains sub cs" by auto
    then show ?case
    proof cases
      case 1
      then show ?thesis by (metis append_Nil has_prefix_iff)
    next
      case 2
      with Cons.IH show ?thesis by (metis append_Cons)
    qed
  qed
qed (auto simp: contains_append)

lemma contains_singleton [simp]: "contains [c] s \<longleftrightarrow> c \<in> set s"
  by (auto simp: contains_iff in_set_conv_decomp)

lemma cut_char_append:
  "c \<notin> set xs \<Longrightarrow> cut_char c (xs @ c # ys) = (xs, ys, True)"
proof -
  assume "c \<notin> set xs"
  then have "\<And>x. x \<in> set xs \<Longrightarrow> x \<noteq> c" by auto
  then show ?thesis
    by (simp add: cut_char_def takeWhile_append2 dropWhile_append2)
qed

lemma split_char_not_Nil [simp]: "split_char c xs \<noteq> []"
  by (cases xs) (auto split: list.splits)

lemma split_char_no_sep: "c \<notin> set xs \<Longrightarrow> split_char c xs = [xs]"
  by (induction xs) auto

lemma split_char_append:
  "c \<notin> set xs \<Longrightarrow> split_char c (xs @ c # ys) = xs # split_char c ys"
  by (induction xs) auto

lemma join_split_char: "join [c] (split_char c xs) = xs"
proof (induction xs)
  case Nil
  then show ?case by simp
next
  case (Cons x xs)
  obtain y ys where "split_char c xs = y # ys"
    using split_char_not_Nil by (metis list.exhaust)
  with Cons show ?case
    by (cases ys) auto
qed

lemma dropWhile_id: "(xs \<noteq> [] \<Longrightarrow> \<not> P (hd xs)) \<Longrightarrow> dropWhile P xs = xs"
  by (cases xs) auto

lemma ascii_trim_id:
  assumes "\<And>c. c \<in> set s \<Longrightarrow> \<not> space_char c"
  shows "ascii_trim s = s"
proof -
  have "dropWhile space_char s = s"
    by (rule dropWhile_id) (simp add: assms)
  moreover have "dropWhile space_char (rev s) = rev s"
    by (rule dropWhile_id) (metis assms hd_in_set set_rev)
  ultimately show ?thesis by (simp add: ascii_trim_def)
qed

section \<open>Searching a table\<close>

lemma find_unique:
  assumes "\<And>x y. x \<in> set t \<Longrightarrow> y \<in> set t \<Longrightarrow> P x \<Longrightarrow> P y \<Longrightarrow> x = y"
  shows "List.find P t = Some r \<longleftrightarrow> r \<in> set t \<and> P r"
proof
  show "List.find P t = Some r \<Longrightarrow> r \<in> set t \<and> P r" by (auto simp: find_Some_iff)
next
  assume r: "r \<in> set t \<and> P r"
  then obtain x where x: "List.find P t = Some x" by (cases "List.find P t") (auto simp: find_None_iff)
  then have "x \<in> set t \<and> P x" by (auto simp: find_Some_iff)
  then show "List.find P t = Some r" using x r assms by blast
qed

lemma find_map_same:
  "(\<And>r. P (f r) = P r) \<Longrightarrow> List.find P (map f xs) = map_option f (List.find P xs)"
  by (induction xs) auto

lemma find_snoc: "List.find P (xs @ [x]) = (case List.find P xs of None \<Rightarrow> if P x then Some x else None | Some y \<Rightarrow> Some y)"
  by (induction xs) auto

section \<open>Errors and results\<close>

text \<open>
  A function that returns \<open>(T, error)\<close> is modelled by a value of type \<open>'e + 'a\<close>: \<open>Inl\<close> is the error
  branch, \<open>Inr\<close> the result with a nil error.
\<close>

definition bindR :: "'e + 'a \<Rightarrow> ('a \<Rightarrow> 'e + 'b) \<Rightarrow> 'e + 'b" where
  "bindR r f = (case r of Inl e \<Rightarrow> Inl e | Inr x \<Rightarrow> f x)"

definition is_ok :: "'e + 'a \<Rightarrow> bool" where
  "is_ok r = (case r of Inl _ \<Rightarrow> False | Inr _ \<Rightarrow> True)"

lemma bindR_simps [simp]:
  "bindR (Inl e) f = Inl e"
  "bindR (Inr x) f = f x"
  by (simp_all add: bindR_def)

lemma is_ok_simps [simp]: "\<not> is_ok (Inl e)" "is_ok (Inr x)"
  by (simp_all add: is_ok_def)

lemma bindR_eq_Inr: "bindR r f = Inr y \<longleftrightarrow> (\<exists>x. r = Inr x \<and> f x = Inr y)"
  by (cases r) auto

lemma is_ok_iff: "is_ok r \<longleftrightarrow> (\<exists>x. r = Inr x)"
  by (cases r) auto

lemma code_lt: "code c < 256"
  by (metis (no_types) nat_of_char_less_256)

end
