(* ===== verification/Values.thy ===== *)
theory Values
  imports Prelude
begin

text \<open>
  \<open>internal/values/domain_name.go\<close>: the canonical domain name every other component compares
  byte by byte.  \<open>DomainName\<close> is the Go struct with its one unexported field; the zero value is
  \<open>DomainName []\<close>, and only \<open>parse\<close> builds another one.
\<close>

datatype DomainName = DomainName (dn_string: string)

datatype parse_error =
    NameRequired
  | NameTooLong
  | EdgeDot
  | EmptyLabel
  | NoDot
  | DisallowedChar

definition maxLength :: nat where
  "maxLength = 254"

definition isAllowed :: "char \<Rightarrow> bool" where
  "isAllowed r =
     (if CHR ''a'' \<le> r \<and> r \<le> CHR ''z'' then True
      else if CHR ''0'' \<le> r \<and> r \<le> CHR ''9'' then True
      else if r = CHR ''-'' \<or> r = CHR ''.'' \<or> r = CHR ''_'' then True
      else False)"

definition parse :: "unicode \<Rightarrow> string \<Rightarrow> parse_error + DomainName" where
  "parse U s0 =
     (let s = to_lower U (trim_space U s0) in
      if s = [] then Inl NameRequired
      else if maxLength < length s then Inl NameTooLong
      else if has_prefix ''.'' s \<or> has_suffix ''.'' s then Inl EdgeDot
      else if contains ''..'' s then Inl EmptyLabel
      else if \<not> contains ''.'' s then Inl NoDot
      else if \<not> list_all isAllowed s then Inl DisallowedChar
      else Inr (DomainName s))"

definition isZero :: "DomainName \<Rightarrow> bool" where
  "isZero n \<longleftrightarrow> dn_string n = []"

instantiation DomainName :: linorder
begin

definition less_eq_DomainName :: "DomainName \<Rightarrow> DomainName \<Rightarrow> bool" where
  "less_eq_DomainName a b \<longleftrightarrow> dn_string a \<le> dn_string b"

definition less_DomainName :: "DomainName \<Rightarrow> DomainName \<Rightarrow> bool" where
  "less_DomainName a b \<longleftrightarrow> dn_string a < dn_string b"

instance
  by standard (auto simp: less_eq_DomainName_def less_DomainName_def intro: DomainName.expand)

end

section \<open>What a parsed name satisfies\<close>

text \<open>The invariant of a non-zero \<open>DomainName\<close>, on its text.\<close>

definition canonical :: "string \<Rightarrow> bool" where
  "canonical s \<longleftrightarrow>
     s \<noteq> [] \<and> length s \<le> 254 \<and> hd s \<noteq> CHR ''.'' \<and> last s \<noteq> CHR ''.'' \<and>
     \<not> contains ''..'' s \<and> CHR ''.'' \<in> set s \<and> list_all isAllowed s"

definition canonical_name :: "DomainName \<Rightarrow> bool" where
  "canonical_name d \<longleftrightarrow> canonical (dn_string d)"

lemma isAllowed_code:
  "isAllowed c \<longleftrightarrow>
     (97 \<le> code c \<and> code c \<le> 122) \<or> (48 \<le> code c \<and> code c \<le> 57) \<or> code c \<in> {45, 46, 95}"
proof -
  have "c = CHR ''-'' \<longleftrightarrow> code c = 45" "c = CHR ''.'' \<longleftrightarrow> code c = 46" "c = CHR ''_'' \<longleftrightarrow> code c = 95"
    by (subst code_inject [symmetric], simp)+
  then show ?thesis
    by (auto simp: isAllowed_def less_eq_char_def)
qed

lemma isAllowed_ascii: "isAllowed c \<Longrightarrow> ascii c"
  by (auto simp: isAllowed_code ascii_def)

lemma isAllowed_lower: "isAllowed c \<Longrightarrow> lower_char c = c"
  by (rule lower_char_id) (auto simp: isAllowed_code)

lemma isAllowed_not_space: "isAllowed c \<Longrightarrow> \<not> space_char c"
  by (auto simp: isAllowed_code space_char_def)

lemma not_isAllowed:
  "\<not> isAllowed CHR ''/''" "\<not> isAllowed CHR ''@''" "\<not> isAllowed CHR ''*''" "\<not> isAllowed CHR '':''"
  by (simp_all add: isAllowed_code)

lemma all_allowed_fixed:
  assumes "list_all isAllowed s"
  shows "to_lower U (trim_space U s) = s"
proof -
  from assms have al: "\<And>c. c \<in> set s \<Longrightarrow> isAllowed c"
    by (auto simp: list_all_iff)
  then have "all_ascii s"
    by (auto simp: all_ascii_def list_all_iff isAllowed_ascii)
  moreover have "ascii_trim s = s"
    by (rule ascii_trim_id) (simp add: al isAllowed_not_space)
  moreover have "map lower_char s = s"
    by (rule map_idI) (simp add: al isAllowed_lower)
  ultimately show ?thesis
    by (simp add: to_lower_def trim_space_def)
qed

lemma has_prefix_dot: "s \<noteq> [] \<Longrightarrow> has_prefix ''.'' s \<longleftrightarrow> hd s = CHR ''.''"
  by (cases s) (auto simp: has_prefix_def)

lemma has_suffix_dot: "s \<noteq> [] \<Longrightarrow> has_suffix ''.'' s \<longleftrightarrow> last s = CHR ''.''"
  by (cases s rule: rev_cases) (auto simp: has_suffix_def)

lemma parse_Inr_iff:
  "parse U s0 = Inr d \<longleftrightarrow>
     canonical (to_lower U (trim_space U s0)) \<and> d = DomainName (to_lower U (trim_space U s0))"
  by (auto simp: parse_def Let_def canonical_def maxLength_def has_prefix_dot has_suffix_dot
      simp del: contains.simps)

lemma parse_canonical: "canonical s \<Longrightarrow> parse U s = Inr (DomainName s)"
  by (simp add: parse_Inr_iff canonical_def all_allowed_fixed)

lemma parse_canonical_name: "parse U s = Inr d \<Longrightarrow> canonical_name d"
  by (simp add: parse_Inr_iff canonical_name_def)

lemma canonical_no_char:
  assumes "canonical s" and "\<not> isAllowed c"
  shows "c \<notin> set s"
  using assms by (auto simp: canonical_def list_all_iff)

lemma canonical_name_nonzero: "canonical_name d \<Longrightarrow> dn_string d \<noteq> []"
  by (simp add: canonical_name_def canonical_def)

text \<open>
  C39. Parsing is a canonicalisation: whatever the input and whatever the Unicode tables do to it,
  a name that is accepted is canonical (1 to 254 bytes, lower-case letters, digits, hyphen,
  underscore and dot, at least one dot, no empty label) and is a fixed point of parsing under any
  tables; so two parsed names denote one Domain exactly when they are equal byte for byte.
\<close>

theorem parse_canonicalises:
  assumes "parse U s = Inr d"
  shows "canonical (dn_string d) \<and> parse U' (dn_string d) = Inr d"
proof -
  from assms have "canonical_name d" by (rule parse_canonical_name)
  then show ?thesis
    by (cases d) (simp add: canonical_name_def parse_canonical)
qed

definition no_unicode :: unicode where
  "no_unicode = \<lparr>u_lower = (\<lambda>s. s), u_trim = (\<lambda>s. s), u_fold = (=)\<rparr>"

lemma parse_canonicalises_witness:
  "parse no_unicode '' Mail.Example.COM '' = Inr (DomainName ''mail.example.com'') \<and>
   canonical ''mail.example.com'' \<and>
   parse no_unicode ''mail.example.com'' = Inr (DomainName ''mail.example.com'')"
proof -
  have p: "parse no_unicode '' Mail.Example.COM '' = Inr (DomainName ''mail.example.com'')"
    by code_simp
  show ?thesis
    using p parse_canonicalises [OF p, of no_unicode] by simp
qed

end
