(* ===== verification/Tracking.thy ===== *)
theory Tracking
  imports Values
begin

text \<open>
  \<open>internal/tracking\<close>: the scale of Tracking Modes, the cascade that collapses the Policies stated by
  Domain, Batch and Recipient into the one that governs a Delivery, the ceiling comparison, and the
  sentinel identities of the Modes that name nobody.  A \<open>Mode\<close> is a string in the code and here: a
  value this build does not know is a stated Mode without a rank.
\<close>

type_synonym mode = string

definition ModeUnspecified :: mode where "ModeUnspecified = ''''"
definition ModeOff :: mode where "ModeOff = ''off''"
definition ModeAnonymous :: mode where "ModeAnonymous = ''anonymous''"
definition ModePseudonymous :: mode where "ModePseudonymous = ''pseudonymous''"
definition ModeIdentified :: mode where "ModeIdentified = ''identified''"
definition ModeFull :: mode where "ModeFull = ''full''"

lemmas mode_defs =
  ModeUnspecified_def ModeOff_def ModeAnonymous_def ModePseudonymous_def ModeIdentified_def
  ModeFull_def

definition modeRanks :: "mode \<rightharpoonup> nat" where
  "modeRanks =
     [ModeOff \<mapsto> 0, ModeAnonymous \<mapsto> 1, ModePseudonymous \<mapsto> 2, ModeIdentified \<mapsto> 3, ModeFull \<mapsto> 4]"

definition mode_rank :: "mode \<Rightarrow> nat option" where
  "mode_rank m = modeRanks m"

definition states :: "mode \<Rightarrow> bool" where
  "states m \<longleftrightarrow> m \<noteq> ModeUnspecified"

text \<open>A Go map read of a missing key gives the zero value; \<open>modeRanks[rung]\<close> is such a read.\<close>

definition rank_or_zero :: "mode \<Rightarrow> nat" where
  "rank_or_zero m = (case modeRanks m of Some r \<Rightarrow> r | None \<Rightarrow> 0)"

definition collection :: "mode \<Rightarrow> mode \<times> nat" where
  "collection m =
     (case mode_rank m of Some r \<Rightarrow> (m, r) | None \<Rightarrow> (ModeOff, rank_or_zero ModeOff))"

definition reaches :: "mode \<Rightarrow> mode \<Rightarrow> bool" where
  "reaches m rung =
     (if \<not> states m then True else rank_or_zero rung \<le> snd (collection m))"

definition IdentifiesRecipient :: "mode \<Rightarrow> bool" where
  "IdentifiesRecipient m = reaches m ModeIdentified"

definition IsolatesRecipient :: "mode \<Rightarrow> bool" where
  "IsolatesRecipient m = reaches m ModePseudonymous"

record policy =
  opens :: mode
  links :: mode

text \<open>
  The loop of \<open>mostRestrictive\<close>; the state is \<open>out\<close>, \<open>outRank\<close>, \<open>found\<close>.
\<close>

fun restrict_loop :: "mode list \<Rightarrow> mode \<times> nat \<times> bool \<Rightarrow> mode" where
  "restrict_loop [] (out, outRank, found) = out"
| "restrict_loop (m # ms) (out, outRank, found) =
     (if \<not> states m then restrict_loop ms (out, outRank, found)
      else (let (mode, rank) = collection m in
        if \<not> found \<or> rank < outRank then restrict_loop ms (mode, rank, True)
        else restrict_loop ms (out, outRank, found)))"

definition mostRestrictive :: "mode list \<Rightarrow> mode" where
  "mostRestrictive modes = restrict_loop modes (ModeOff, 0, False)"

definition Resolve :: "policy \<Rightarrow> policy \<Rightarrow> policy \<Rightarrow> policy" where
  "Resolve domain batch recipient =
     \<lparr>opens = mostRestrictive [opens domain, opens batch, opens recipient],
      links = mostRestrictive [links domain, links batch, links recipient]\<rparr>"

definition zero_policy :: policy where
  "zero_policy = \<lparr>opens = ModeUnspecified, links = ModeUnspecified\<rparr>"

definition Normalized :: "policy \<Rightarrow> policy" where
  "Normalized p = Resolve p zero_policy zero_policy"

section \<open>Ceilings\<close>

datatype axis = AxisOpens | AxisLinks

record CeilingViolation =
  cv_axis :: axis
  cv_ceiling :: mode
  cv_stated :: mode

definition axisViolation :: "axis \<Rightarrow> mode \<Rightarrow> mode \<Rightarrow> CeilingViolation option" where
  "axisViolation axis ceiling stated =
     (if \<not> states stated \<or> \<not> states ceiling then None
      else if snd (collection stated) \<le> snd (collection ceiling) then None
      else Some \<lparr>cv_axis = axis, cv_ceiling = ceiling, cv_stated = stated\<rparr>)"

definition CeilingViolations :: "policy \<Rightarrow> policy \<Rightarrow> CeilingViolation list" where
  "CeilingViolations ceiling stated =
     (case axisViolation AxisOpens (opens ceiling) (opens stated) of Some v \<Rightarrow> [v] | None \<Rightarrow> []) @
     (case axisViolation AxisLinks (links ceiling) (links stated) of Some v \<Rightarrow> [v] | None \<Rightarrow> [])"

section \<open>Identities\<close>

definition reservedLabel :: string where "reservedLabel = ''track''"
definition anonymousLocalPart :: string where "anonymousLocalPart = ''anonymous''"
definition pseudonymBytes :: nat where "pseudonymBytes = 16"

definition ReservedNamespace :: "string \<Rightarrow> string" where
  "ReservedNamespace domain = reservedLabel @ ''.'' @ domain"

definition AnonymousIdentity :: "string \<Rightarrow> string" where
  "AnonymousIdentity domain = anonymousLocalPart @ ''@'' @ ReservedNamespace domain"

definition hex_digit :: "nat \<Rightarrow> char" where
  "hex_digit n = ''0123456789abcdef'' ! n"

text \<open>\<open>hex.EncodeToString\<close>.\<close>

definition hex_encode :: "nat list \<Rightarrow> string" where
  "hex_encode bs = concat (map (\<lambda>b. [hex_digit (b div 16 mod 16), hex_digit (b mod 16)]) bs)"

text \<open>
  \<open>NewPseudonym\<close>: the argument \<open>raw\<close> is what \<open>crypto/rand\<close> filled the buffer with, or \<open>None\<close> for its
  error.
\<close>

definition NewPseudonym :: "nat list option \<Rightarrow> string \<Rightarrow> string option" where
  "NewPseudonym raw domain =
     (case raw of None \<Rightarrow> None
      | Some bs \<Rightarrow> Some (hex_encode bs @ ''@'' @ ReservedNamespace domain))"

definition InReservedNamespace :: "unicode \<Rightarrow> string \<Rightarrow> string \<Rightarrow> bool" where
  "InReservedNamespace U identity domain =
     (case cut_char CHR ''@'' identity of
        (local, host, ok) \<Rightarrow> ok \<and> local \<noteq> [] \<and> equal_fold U host (ReservedNamespace domain))"

definition NamesNobody :: "unicode \<Rightarrow> string \<Rightarrow> string \<Rightarrow> bool" where
  "NamesNobody U identity domain \<longleftrightarrow>
     identity = [] \<or> equal_fold U identity (AnonymousIdentity domain)"

definition IsPseudonym :: "unicode \<Rightarrow> string \<Rightarrow> string \<Rightarrow> bool" where
  "IsPseudonym U identity domain \<longleftrightarrow>
     InReservedNamespace U identity domain \<and> \<not> NamesNobody U identity domain"

section \<open>The scale\<close>

text \<open>What a Mode amounts to: a rank, where silence has none.\<close>

definition effect :: "mode \<Rightarrow> nat" where
  "effect m = snd (collection m)"

lemma modeRanks_simps [simp]:
  "modeRanks ModeOff = Some 0" "modeRanks ModeAnonymous = Some 1"
  "modeRanks ModePseudonymous = Some 2" "modeRanks ModeIdentified = Some 3"
  "modeRanks ModeFull = Some 4" "modeRanks ModeUnspecified = None"
  by (simp_all add: modeRanks_def mode_defs)

lemma states_simps [simp]:
  "states ModeOff" "states ModeAnonymous" "states ModePseudonymous" "states ModeIdentified"
  "states ModeFull" "\<not> states ModeUnspecified"
  by (simp_all add: states_def mode_defs)

lemma collection_simps [simp]:
  "collection ModeOff = (ModeOff, 0)" "collection ModeAnonymous = (ModeAnonymous, 1)"
  "collection ModePseudonymous = (ModePseudonymous, 2)"
  "collection ModeIdentified = (ModeIdentified, 3)" "collection ModeFull = (ModeFull, 4)"
  by (simp_all add: collection_def mode_rank_def)

lemma rank_or_zero_simps [simp]:
  "rank_or_zero ModeOff = 0" "rank_or_zero ModePseudonymous = 2" "rank_or_zero ModeIdentified = 3"
  "rank_or_zero ModeAnonymous = 1" "rank_or_zero ModeFull = 4"
  by (simp_all add: rank_or_zero_def)

lemma effect_simps [simp]:
  "effect ModeOff = 0" "effect ModeAnonymous = 1" "effect ModePseudonymous = 2"
  "effect ModeIdentified = 3" "effect ModeFull = 4"
  by (simp_all add: effect_def)

lemma collection_idem [simp]: "collection (fst (collection m)) = collection m"
  by (auto simp: collection_def mode_rank_def split: option.splits)

lemma states_collection [simp]: "states (fst (collection m))"
  by (auto simp: collection_def mode_rank_def states_def modeRanks_def mode_defs
      split: option.splits if_splits)

lemma effect_collection [simp]: "effect (fst (collection m)) = effect m"
  by (simp add: effect_def)

text \<open>A Mode that reaches the act-on level is one of the five of the scale, fixed by its rank.\<close>

lemma collection_cases:
  "fst (collection m) \<in> {ModeOff, ModeAnonymous, ModePseudonymous, ModeIdentified, ModeFull}"
  by (auto simp: collection_def mode_rank_def modeRanks_def split: option.splits if_splits)

lemma collection_determined:
  assumes "effect m = effect n"
  shows "fst (collection m) = fst (collection n)"
proof -
  have "effect (fst (collection m)) = effect (fst (collection n))"
    using assms by simp
  then show ?thesis
    using collection_cases [of m] collection_cases [of n] by (elim insertE emptyE) simp_all
qed

lemma IdentifiesRecipient_iff: "IdentifiesRecipient m \<longleftrightarrow> \<not> states m \<or> 3 \<le> effect m"
  by (simp add: IdentifiesRecipient_def reaches_def effect_def)

lemma IsolatesRecipient_iff: "IsolatesRecipient m \<longleftrightarrow> \<not> states m \<or> 2 \<le> effect m"
  by (simp add: IsolatesRecipient_def reaches_def effect_def)

lemma identifies_isolates: "IdentifiesRecipient m \<Longrightarrow> IsolatesRecipient m"
  by (auto simp: IdentifiesRecipient_iff IsolatesRecipient_iff)

lemma axisViolation_eq_None:
  "axisViolation ax c s = None \<longleftrightarrow> \<not> states s \<or> \<not> states c \<or> effect s \<le> effect c"
  by (auto simp: axisViolation_def effect_def)

lemma CeilingViolations_Nil:
  "CeilingViolations c s = [] \<longleftrightarrow>
     axisViolation AxisOpens (opens c) (opens s) = None \<and>
     axisViolation AxisLinks (links c) (links s) = None"
  by (auto simp: CeilingViolations_def split: option.splits)

section \<open>The cascade\<close>

definition mode_of :: "axis \<Rightarrow> policy \<Rightarrow> mode" where
  "mode_of ax p = (case ax of AxisOpens \<Rightarrow> opens p | AxisLinks \<Rightarrow> links p)"

definition on_scale :: "mode \<Rightarrow> bool" where
  "on_scale m \<longleftrightarrow> m \<in> {ModeOff, ModeAnonymous, ModePseudonymous, ModeIdentified, ModeFull}"

lemma mode_of_simps [simp]:
  "mode_of AxisOpens p = opens p" "mode_of AxisLinks p = links p"
  by (simp_all add: mode_of_def)

lemma on_scale_collection [simp]: "on_scale (fst (collection m))"
  unfolding on_scale_def by (rule collection_cases)

lemma on_scale_simps [simp]:
  "on_scale ModeOff" "on_scale ModeAnonymous" "on_scale ModePseudonymous" "on_scale ModeIdentified"
  "on_scale ModeFull"
  by (simp_all add: on_scale_def)

lemma on_scale_states: "on_scale m \<Longrightarrow> states m"
  by (auto simp: on_scale_def)

lemma on_scale_fixed: "on_scale m \<Longrightarrow> collection m = (m, effect m)"
  by (auto simp: on_scale_def)

lemma on_scale_inj: "on_scale m \<Longrightarrow> on_scale n \<Longrightarrow> effect m = effect n \<Longrightarrow> m = n"
  using collection_determined [of m n] by (simp add: on_scale_fixed)

text \<open>What the loop holds after some Modes: nothing found yet, or the lowest so far.\<close>

text \<open>\<open>lowest r ms\<close>: \<open>r\<close> is the lowest effect among the stated Modes of \<open>ms\<close>.\<close>

definition lowest :: "nat \<Rightarrow> mode list \<Rightarrow> bool" where
  "lowest r ms \<longleftrightarrow>
     (\<forall>m\<in>set ms. states m \<longrightarrow> r \<le> effect m) \<and> (\<exists>m\<in>set ms. states m \<and> r = effect m)"

lemma lowest_Min: "lowest r ms \<Longrightarrow> r = Min (effect ` {m \<in> set ms. states m})"
  unfolding lowest_def by (intro Min_eqI [symmetric]) auto

lemma restrict_loop_found:
  "on_scale out \<Longrightarrow>
     on_scale (restrict_loop ms (out, effect out, True)) \<and>
     lowest (effect (restrict_loop ms (out, effect out, True))) (out # ms)"
proof (induction ms arbitrary: out)
  case Nil
  then show ?case by (simp add: lowest_def on_scale_states)
next
  case (Cons m ms)
  have c: "collection m = (fst (collection m), effect m)" by (simp add: effect_def)
  let ?md = "fst (collection m)"
  consider "\<not> states m" | "states m" "effect m < effect out" | "states m" "effect out \<le> effect m"
    by linarith
  then show ?case
  proof cases
    case 1
    then show ?thesis using Cons.IH [OF Cons.prems] by (auto simp: lowest_def)
  next
    case 2
    have "restrict_loop (m # ms) (out, effect out, True) = restrict_loop ms (?md, effect ?md, True)"
      using 2 by (subst restrict_loop.simps, subst c) simp
    moreover note Cons.IH [of ?md]
    ultimately show ?thesis
      using 2 by (auto simp: lowest_def dest: order_trans)
  next
    case 3
    have "restrict_loop (m # ms) (out, effect out, True) = restrict_loop ms (out, effect out, True)"
      using 3 by (subst restrict_loop.simps, subst c) simp
    then show ?thesis
      using Cons.IH [OF Cons.prems] 3 on_scale_states [OF Cons.prems]
      by (auto simp: lowest_def dest: order_trans)
  qed
qed

lemma restrict_loop_start:
  "on_scale (restrict_loop ms (ModeOff, 0, False)) \<and>
   (if filter states ms = [] then restrict_loop ms (ModeOff, 0, False) = ModeOff
    else lowest (effect (restrict_loop ms (ModeOff, 0, False))) ms)"
proof (induction ms)
  case Nil
  then show ?case by simp
next
  case (Cons m ms)
  have c: "collection m = (fst (collection m), effect m)" by (simp add: effect_def)
  show ?case
  proof (cases "states m")
    case True
    have "restrict_loop (m # ms) (ModeOff, 0, False) =
        restrict_loop ms (fst (collection m), effect (fst (collection m)), True)"
      using True by (subst restrict_loop.simps, subst c) simp
    then show ?thesis
      using restrict_loop_found [of "fst (collection m)" ms] True by (auto simp: lowest_def)
  next
    case False
    then show ?thesis using Cons.IH by (auto simp: lowest_def)
  qed
qed

lemma mostRestrictive_on_scale [simp]: "on_scale (mostRestrictive ms)"
  by (simp add: mostRestrictive_def restrict_loop_start)

lemma mostRestrictive_unstated: "filter states ms = [] \<Longrightarrow> mostRestrictive ms = ModeOff"
  using restrict_loop_start [of ms] by (simp add: mostRestrictive_def)

lemma mostRestrictive_lowest: "filter states ms \<noteq> [] \<Longrightarrow> lowest (effect (mostRestrictive ms)) ms"
  using restrict_loop_start [of ms] by (simp add: mostRestrictive_def)

lemma mostRestrictive_effect:
  "effect (mostRestrictive ms) =
     (if filter states ms = [] then 0 else Min (effect ` {m \<in> set ms. states m}))"
proof (cases "filter states ms = []")
  case True
  then show ?thesis by (simp add: mostRestrictive_unstated)
next
  case False
  from lowest_Min [OF mostRestrictive_lowest [OF False]] False show ?thesis by argo
qed

lemma mostRestrictive_cong:
  assumes "{m \<in> set ms. states m} = {m \<in> set ns. states m}"
  shows "mostRestrictive ms = mostRestrictive ns"
proof (cases "filter states ms = []")
  case True
  moreover then have "filter states ns = []"
    using assms by (auto simp: filter_empty_conv)
  ultimately show ?thesis by (simp add: mostRestrictive_unstated)
next
  case False
  moreover then have "filter states ns \<noteq> []"
    using assms by (auto simp: filter_empty_conv)
  ultimately have "lowest (effect (mostRestrictive ms)) ms" "lowest (effect (mostRestrictive ns)) ns"
    by (simp_all add: mostRestrictive_lowest)
  then have "effect (mostRestrictive ms) = effect (mostRestrictive ns)"
    using assms lowest_Min by metis
  then show ?thesis by (simp add: on_scale_inj)
qed

lemma mostRestrictive_le: "m \<in> set ms \<Longrightarrow> states m \<Longrightarrow> effect (mostRestrictive ms) \<le> effect m"
  using mostRestrictive_lowest [of ms] by (auto simp: lowest_def filter_empty_conv)

lemma mostRestrictive_single:
  assumes "on_scale m" and "{x \<in> set ms. states x} = {m}"
  shows "mostRestrictive ms = m"
proof -
  have "filter states ms \<noteq> []" using assms(2) by (auto simp: filter_empty_conv)
  then have "effect (mostRestrictive ms) = effect m"
    using mostRestrictive_lowest [of ms] assms(2) by (auto simp: lowest_def)
  then show ?thesis using assms(1) by (simp add: on_scale_inj)
qed

lemma mostRestrictive_again:
  "mostRestrictive [a, b, mostRestrictive [a, b, c]] = mostRestrictive [a, b, c]"
proof -
  let ?m = "mostRestrictive [a, b, c]"
  have st: "states ?m" by (rule on_scale_states) simp
  have "lowest (effect ?m) [a, b, ?m]"
    unfolding lowest_def using st mostRestrictive_le [of _ "[a, b, c]"] by simp
  moreover have "lowest (effect (mostRestrictive [a, b, ?m])) [a, b, ?m]"
    using st by (intro mostRestrictive_lowest) simp
  ultimately have "effect (mostRestrictive [a, b, ?m]) = effect ?m"
    using lowest_Min by metis
  then show ?thesis by (simp add: on_scale_inj)
qed

lemma mode_of_Resolve:
  "mode_of ax (Resolve d b r) = mostRestrictive [mode_of ax d, mode_of ax b, mode_of ax r]"
  by (cases ax) (simp_all add: Resolve_def)

lemma policy_eqI: "(\<And>ax. mode_of ax p = mode_of ax q) \<Longrightarrow> p = (q :: policy)"
  by (metis (full_types) mode_of_simps policy.equality unit.exhaust)

lemma mode_of_zero [simp]: "mode_of ax zero_policy = ModeUnspecified"
  by (cases ax) (simp_all add: zero_policy_def)

section \<open>Properties\<close>


lemma Resolve_below:
  assumes "p \<in> {d, b, r}"
  shows "CeilingViolations p (Resolve d b r) = []"
proof -
  have "axisViolation ax (mode_of ax p) (mode_of ax (Resolve d b r)) = None" for ax
    using assms by (auto simp: axisViolation_eq_None mode_of_Resolve intro!: mostRestrictive_le)
  from this [of AxisOpens] this [of AxisLinks] show ?thesis
    by (simp add: CeilingViolations_Nil)
qed

lemma Normalized_Resolve: "Normalized (Resolve d b r) = Resolve d b r"
  unfolding Normalized_def
  by (rule policy_eqI, subst mode_of_Resolve, rule mostRestrictive_single)
     (auto simp: mode_of_Resolve on_scale_states)

lemma Normalized_idem: "Normalized (Normalized p) = Normalized p"
  by (metis Normalized_Resolve Normalized_def)

text \<open>
  No level can widen another: the effective Policy violates the ceiling of none of the three
  levels, is already normalised, does not depend on which level stated what, and resolving it again
  below any of them changes nothing.
\<close>

theorem Resolve_never_widens:
  "CeilingViolations d (Resolve d b r) = [] \<and> CeilingViolations b (Resolve d b r) = [] \<and>
   CeilingViolations r (Resolve d b r) = [] \<and> Normalized (Resolve d b r) = Resolve d b r \<and>
   Resolve b d r = Resolve d b r \<and> Resolve d r b = Resolve d b r \<and>
   Resolve d b (Resolve d b r) = Resolve d b r"
proof -
  let ?P = "Resolve d b r"
  have perm: "Resolve b d r = ?P" "Resolve d r b = ?P"
    by (rule policy_eqI, simp add: mode_of_Resolve, rule mostRestrictive_cong, auto)+
  have again: "Resolve d b ?P = ?P"
    by (rule policy_eqI) (simp only: mode_of_Resolve mostRestrictive_again)
  show ?thesis using perm again by (simp add: Resolve_below Normalized_Resolve)
qed

section \<open>Identities under the reserved namespace\<close>

lemma cut_char_at:
  "CHR ''@'' \<notin> set l \<Longrightarrow> cut_char CHR ''@'' (l @ ''@'' @ h) = (l, h, True)"
  using cut_char_append [of "CHR ''@''" l h] by simp

definition hex_chars :: "char set" where
  "hex_chars = set ''0123456789abcdef''"

lemma hex_digit_in [simp]: "hex_digit (n mod 16) \<in> hex_chars"
  unfolding hex_digit_def hex_chars_def by (rule nth_mem) simp

lemma hex_encode_simps [simp]:
  "hex_encode [] = []"
  "hex_encode (b # bs) = hex_digit (b div 16 mod 16) # hex_digit (b mod 16) # hex_encode bs"
  by (simp_all add: hex_encode_def)

lemma hex_encode_set: "set (hex_encode bs) \<subseteq> hex_chars"
  by (induction bs) auto

lemma hex_encode_ascii: "all_ascii (hex_encode bs)"
  using hex_encode_set [of bs] by (auto simp: all_ascii_def list_all_iff ascii_def hex_chars_def)

lemma hex_encode_no_at: "CHR ''@'' \<notin> set (hex_encode bs)"
  using hex_encode_set [of bs] by (auto simp: hex_chars_def)

lemma hex_encode_length [simp]: "length (hex_encode bs) = 2 * length bs"
  by (induction bs) auto

lemma reserved_ascii [simp]: "all_ascii (ReservedNamespace dm) \<longleftrightarrow> all_ascii dm"
  by (simp add: ReservedNamespace_def reservedLabel_def ascii_def)

lemma anonymous_ascii [simp]: "all_ascii (AnonymousIdentity dm) \<longleftrightarrow> all_ascii dm"
  by (simp add: AnonymousIdentity_def anonymousLocalPart_def ascii_def)

lemma NamesNobody_anonymous: "all_ascii dm \<Longrightarrow> NamesNobody U (AnonymousIdentity dm) dm"
  by (simp add: NamesNobody_def equal_fold_refl)

text \<open>
  The three kinds of identity do not overlap.  For a canonical Domain, a minted pseudonym is a
  local part of two characters per random byte under the reserved label, it is recognised as a
  pseudonym, never as the identity that names nobody, and it determines the random bytes' encoding;
  the anonymous identity names nobody and is no pseudonym; and a failed random read mints nothing.
\<close>

theorem identities_partition:
  assumes "canonical dm" and "NewPseudonym raw dm = Some i" and "raw \<noteq> Some []"
  shows "IsPseudonym U i dm \<and> \<not> NamesNobody U i dm \<and>
     NamesNobody U (AnonymousIdentity dm) dm \<and> \<not> IsPseudonym U (AnonymousIdentity dm) dm \<and>
     (\<exists>bs. raw = Some bs \<and> length i = 2 * length bs + 7 + length dm) \<and>
     NewPseudonym None dm = None"
proof -
  obtain bs where raw: "raw = Some bs" and i: "i = hex_encode bs @ ''@'' @ ReservedNamespace dm"
    using assms(2) by (cases raw) (auto simp: NewPseudonym_def)
  have bs: "bs \<noteq> []" using raw assms(3) by simp
  have da: "all_ascii dm"
    using assms(1) by (auto simp: canonical_def all_ascii_def list_all_iff isAllowed_ascii)
  have ia: "all_ascii i"
    using da by (simp add: i hex_encode_ascii ascii_def)
  have ns: "InReservedNamespace U i dm"
    using bs da by (cases bs)
      (simp_all only: InReservedNamespace_def i cut_char_at [OF hex_encode_no_at],
       simp_all add: equal_fold_refl)
  have "map lower_char i \<noteq> map lower_char (AnonymousIdentity dm)"
  proof
    assume "map lower_char i = map lower_char (AnonymousIdentity dm)"
    then have "length i = length (AnonymousIdentity dm)" by (metis length_map)
    then have "2 * length bs = 9"
      by (simp add: i AnonymousIdentity_def anonymousLocalPart_def)
    then show False by presburger
  qed
  then have nn: "\<not> NamesNobody U i dm"
    using ia da unfolding NamesNobody_def equal_fold_def by (auto simp: i)
  show ?thesis
    using ns nn NamesNobody_anonymous [OF da, of U] raw
    by (simp add: IsPseudonym_def i ReservedNamespace_def reservedLabel_def NewPseudonym_def)
qed

lemma identities_partition_witness:
  "IsPseudonym no_unicode ''0aff@track.k.dev'' ''k.dev'' \<and>
   NewPseudonym (Some [10, 255]) ''k.dev'' = Some ''0aff@track.k.dev''"
proof -
  have n: "NewPseudonym (Some [10, 255]) ''k.dev'' = Some ''0aff@track.k.dev''" by code_simp
  have "canonical ''k.dev''" by code_simp
  from identities_partition [OF this n, of no_unicode] n show ?thesis by simp
qed

end
