(* ===== verification/TrackingWire.thy ===== *)
theory TrackingWire
  imports Tracking
begin

text \<open>
  \<open>internal/trackingpb\<close>: the translation of Modes and Policies to and from the protobuf enum.  A wire
  Mode is the enum's number, an \<open>int\<close>: protobuf3 enums are open, so any number can arrive.  A nil
  \<open>TrackingPolicy\<close> message is \<open>None\<close>.
\<close>

type_synonym wire_mode = int

record wire_policy =
  w_opens :: wire_mode
  w_links :: wire_mode

datatype wire_error = UnknownMode axis wire_mode

definition wireModes :: "wire_mode \<rightharpoonup> mode" where
  "wireModes =
     [0 \<mapsto> ModeUnspecified, 1 \<mapsto> ModeOff, 2 \<mapsto> ModeAnonymous, 3 \<mapsto> ModePseudonymous,
      4 \<mapsto> ModeIdentified, 5 \<mapsto> ModeFull]"

definition toStatedMode :: "axis \<Rightarrow> wire_mode \<Rightarrow> wire_error + mode" where
  "toStatedMode ax m =
     (case wireModes m of None \<Rightarrow> Inl (UnknownMode ax m) | Some mode \<Rightarrow> Inr mode)"

definition ToPolicy :: "wire_policy option \<Rightarrow> wire_error + policy" where
  "ToPolicy p =
     (case p of None \<Rightarrow> Inr zero_policy
      | Some w \<Rightarrow>
          bindR (toStatedMode AxisOpens (w_opens w)) (\<lambda>om.
          bindR (toStatedMode AxisLinks (w_links w)) (\<lambda>lm.
          Inr \<lparr>opens = om, links = lm\<rparr>)))"

text \<open>The inverse map, built by the loop over \<open>wireModes\<close>; a missing key reads as 0.\<close>

definition domainModes :: "mode \<rightharpoonup> wire_mode" where
  "domainModes =
     fold (\<lambda>w out. case wireModes w of None \<Rightarrow> out | Some m \<Rightarrow> out(m \<mapsto> w)) [0, 1, 2, 3, 4, 5] Map.empty"

definition FromMode :: "mode \<Rightarrow> wire_mode" where
  "FromMode m = (case domainModes m of None \<Rightarrow> 0 | Some w \<Rightarrow> w)"

definition ToMode :: "wire_mode \<Rightarrow> mode" where
  "ToMode w = (case wireModes w of None \<Rightarrow> ModeUnspecified | Some m \<Rightarrow> m)"

definition FromPolicy :: "policy \<Rightarrow> wire_policy" where
  "FromPolicy p = \<lparr>w_opens = FromMode (opens p), w_links = FromMode (links p)\<rparr>"

definition known_mode :: "mode \<Rightarrow> bool" where
  "known_mode m \<longleftrightarrow> m = ModeUnspecified \<or> on_scale m"

lemma wireModes_dom: "wireModes w = None \<longleftrightarrow> w \<notin> {0, 1, 2, 3, 4, 5}"
  by (auto simp: wireModes_def)

lemma FromMode_simps [simp]:
  "FromMode ModeUnspecified = 0" "FromMode ModeOff = 1" "FromMode ModeAnonymous = 2"
  "FromMode ModePseudonymous = 3" "FromMode ModeIdentified = 4" "FromMode ModeFull = 5"
  by (simp_all add: FromMode_def domainModes_def wireModes_def mode_defs)

lemma wireModes_simps [simp]:
  "wireModes 0 = Some ModeUnspecified" "wireModes 1 = Some ModeOff" "wireModes 2 = Some ModeAnonymous"
  "wireModes 3 = Some ModePseudonymous" "wireModes 4 = Some ModeIdentified"
  "wireModes 5 = Some ModeFull"
  by (simp_all add: wireModes_def)

lemma wireModes_FromMode: "known_mode m \<Longrightarrow> wireModes (FromMode m) = Some m"
  by (auto simp: known_mode_def on_scale_def)

lemma wireModes_range: "wireModes w = Some m \<Longrightarrow> known_mode m \<and> FromMode m = w"
  by (auto simp: known_mode_def wireModes_def split: if_splits)

lemma FromMode_unknown: "\<not> known_mode m \<Longrightarrow> FromMode m = 0"
  by (auto simp: known_mode_def on_scale_def FromMode_def domainModes_def wireModes_def)

lemma toStatedMode_Inr: "toStatedMode ax w = Inr m \<longleftrightarrow> wireModes w = Some m"
  by (auto simp: toStatedMode_def split: option.splits)

lemma ToPolicy_Inr:
  "ToPolicy (Some w) = Inr p \<longleftrightarrow> wireModes (w_opens w) = Some (opens p) \<and> wireModes (w_links w) = Some (links p)"
  by (auto simp: ToPolicy_def bindR_eq_Inr toStatedMode_Inr intro: policy.equality)

text \<open>
  The wire translation is an exact correspondence: a message is accepted exactly when both of
  its enum numbers are known, an accepted message is what its Policy translates back to, and a
  Policy of known Modes (the scale and silence) survives the trip out and in; a number outside the
  enum is refused naming its axis, never read as silence.
\<close>

theorem wire_policy_roundtrip:
  "(ToPolicy (Some w) = Inr p) =
     (w = FromPolicy p \<and> known_mode (opens p) \<and> known_mode (links p))"
  by (cases w) (auto simp: ToPolicy_Inr FromPolicy_def wireModes_FromMode dest: wireModes_range)

end
