(* ===== verification/Stats.thy ===== *)
theory Stats
  imports TrackingWire "HOL-Library.Word"
begin

text \<open>
  \<open>internal/stats\<close> (outcomes, events, stats), their wire form in \<open>internal/statspb\<close> and their stored form
  in \<open>internal/db/statsdata.go\<close>.  The one Go struct \<open>Outcome\<close> has a type tag and the fields of every
  type; the empty tag is \<open>None\<close>.  A \<open>oneof\<close> of the protobuf message is a datatype, and an absent one
  \<open>None\<close>; the byte encoding of a message belongs to the protobuf library and is a pair of arguments.
\<close>

datatype StatType =
    TypeAccepted | TypeRejected | TypeDelivered | TypeOpened | TypeClicked | TypeBounce
  | TypeError | TypeFailed | TypeUnknown

fun type_string :: "StatType \<Rightarrow> string" where
  "type_string TypeAccepted = ''accepted''"
| "type_string TypeRejected = ''rejected''"
| "type_string TypeDelivered = ''delivered''"
| "type_string TypeOpened = ''opened''"
| "type_string TypeClicked = ''clicked''"
| "type_string TypeBounce = ''bounced''"
| "type_string TypeError = ''error''"
| "type_string TypeFailed = ''failed''"
| "type_string TypeUnknown = ''unknown''"

lemma type_string_inject [simp]: "type_string a = type_string b \<longleftrightarrow> a = b"
  by (cases a; cases b) simp_all

fun DisplayName :: "StatType \<Rightarrow> string" where
  "DisplayName TypeAccepted = ''Accepted''"
| "DisplayName TypeRejected = ''Rejected''"
| "DisplayName TypeBounce = ''Bounced''"
| "DisplayName TypeClicked = ''Clicked''"
| "DisplayName TypeDelivered = ''Delivered''"
| "DisplayName TypeError = ''Send Error''"
| "DisplayName TypeFailed = ''Failed''"
| "DisplayName TypeOpened = ''Opened''"
| "DisplayName TypeUnknown = ''Unknown''"

type_synonym smtp_code = "32 word"

record StatOutcome =
  o_typ :: "StatType option"
  o_reason :: string
  o_msg :: string
  o_permanent :: bool
  o_code :: smtp_code
  o_user_agent :: string
  o_ip :: string
  o_url :: string

definition zero_outcome :: StatOutcome where
  "zero_outcome =
     \<lparr>o_typ = None, o_reason = [], o_msg = [], o_permanent = False, o_code = 0, o_user_agent = [],
      o_ip = [], o_url = []\<rparr>"

definition Accepted :: StatOutcome where
  "Accepted = zero_outcome\<lparr>o_typ := Some TypeAccepted\<rparr>"

definition Delivered :: StatOutcome where
  "Delivered = zero_outcome\<lparr>o_typ := Some TypeDelivered\<rparr>"

definition Rejected :: "string \<Rightarrow> StatOutcome" where
  "Rejected reason = zero_outcome\<lparr>o_typ := Some TypeRejected, o_reason := reason\<rparr>"

definition Failed :: "string \<Rightarrow> StatOutcome" where
  "Failed reason = zero_outcome\<lparr>o_typ := Some TypeFailed, o_reason := reason\<rparr>"

definition Bounced :: "bool \<Rightarrow> smtp_code \<Rightarrow> string \<Rightarrow> StatOutcome" where
  "Bounced permanent cd msg =
     zero_outcome\<lparr>o_typ := Some TypeBounce, o_permanent := permanent, o_code := cd, o_msg := msg\<rparr>"

definition Errored :: "smtp_code \<Rightarrow> string \<Rightarrow> StatOutcome" where
  "Errored cd msg = zero_outcome\<lparr>o_typ := Some TypeError, o_code := cd, o_msg := msg\<rparr>"

definition Opened :: "string \<Rightarrow> string \<Rightarrow> StatOutcome" where
  "Opened userAgent ip = zero_outcome\<lparr>o_typ := Some TypeOpened, o_user_agent := userAgent, o_ip := ip\<rparr>"

definition Clicked :: "string \<Rightarrow> string \<Rightarrow> string \<Rightarrow> StatOutcome" where
  "Clicked userAgent ip url =
     zero_outcome\<lparr>o_typ := Some TypeClicked, o_user_agent := userAgent, o_ip := ip, o_url := url\<rparr>"

lemmas outcome_defs =
  zero_outcome_def Accepted_def Delivered_def Rejected_def Failed_def Bounced_def Errored_def
  Opened_def Clicked_def

definition outcome_type :: "StatOutcome \<Rightarrow> StatType" where
  "outcome_type oc = (case o_typ oc of None \<Rightarrow> TypeUnknown | Some t \<Rightarrow> t)"

record Event =
  ev_message :: string
  ev_domain :: string
  ev_email :: string
  ev_time :: go_time
  ev_outcome :: StatOutcome
  ev_mode :: mode

record Stat =
  st_id :: int
  st_type :: StatType
  st_email :: string
  st_message :: string
  st_domain :: DomainName
  st_time :: go_time
  st_outcome :: StatOutcome

definition NewStat :: "string \<Rightarrow> string \<Rightarrow> DomainName \<Rightarrow> go_time \<Rightarrow> StatOutcome \<Rightarrow> Stat" where
  "NewStat email mid dn ts oc =
     \<lparr>st_id = 0, st_type = outcome_type oc, st_email = email, st_message = mid, st_domain = dn,
      st_time = ts, st_outcome = oc\<rparr>"

definition LoadStat ::
  "int \<Rightarrow> StatType \<Rightarrow> string \<Rightarrow> string \<Rightarrow> DomainName \<Rightarrow> go_time \<Rightarrow> StatOutcome \<Rightarrow> Stat" where
  "LoadStat i ty email mid dn ts oc =
     \<lparr>st_id = i, st_type = ty, st_email = email, st_message = mid, st_domain = dn, st_time = ts,
      st_outcome = oc\<rparr>"

section \<open>The wire form\<close>

datatype wire_data =
    WAccepted
  | WDelivered
  | WRejected string
  | WFailed string
  | WBounced bool smtp_code string
  | WError smtp_code string
  | WOpened string string
  | WClicked string string string

record wire_stats =
  ws_message :: string
  ws_domain :: string
  ws_email :: string
  ws_time :: "(int \<times> int) option"
  ws_type :: string
  ws_data :: "wire_data option"
  ws_mode :: wire_mode

definition FromOutcome :: "StatOutcome \<Rightarrow> wire_data option" where
  "FromOutcome oc =
     (case outcome_type oc of
        TypeAccepted \<Rightarrow> Some WAccepted
      | TypeDelivered \<Rightarrow> Some WDelivered
      | TypeRejected \<Rightarrow> Some (WRejected (o_reason oc))
      | TypeFailed \<Rightarrow> Some (WFailed (o_reason oc))
      | TypeBounce \<Rightarrow> Some (WBounced (o_permanent oc) (o_code oc) (o_msg oc))
      | TypeError \<Rightarrow> Some (WError (o_code oc) (o_msg oc))
      | TypeOpened \<Rightarrow> Some (WOpened (o_user_agent oc) (o_ip oc))
      | TypeClicked \<Rightarrow> Some (WClicked (o_user_agent oc) (o_ip oc) (o_url oc))
      | TypeUnknown \<Rightarrow> None)"

definition ToOutcome :: "wire_data option \<Rightarrow> StatOutcome" where
  "ToOutcome d =
     (case d of
        None \<Rightarrow> zero_outcome
      | Some WAccepted \<Rightarrow> Accepted
      | Some WDelivered \<Rightarrow> Delivered
      | Some (WRejected r) \<Rightarrow> Rejected r
      | Some (WFailed r) \<Rightarrow> Failed r
      | Some (WBounced p c m) \<Rightarrow> Bounced p c m
      | Some (WError c m) \<Rightarrow> Errored c m
      | Some (WOpened ua ip) \<Rightarrow> Opened ua ip
      | Some (WClicked ua ip u) \<Rightarrow> Clicked ua ip u)"

definition legacyTypeField :: "StatType \<Rightarrow> string" where
  "legacyTypeField t = (if t = TypeOpened \<or> t = TypeClicked then type_string t else [])"

text \<open>\<open>timestamppb.New\<close> and \<open>AsTime\<close>; a nil timestamp reads as the epoch.\<close>

definition pb_time :: "go_time \<Rightarrow> (int \<times> int) option" where
  "pb_time t = Some (t div 1000000000, t mod 1000000000)"

definition as_time :: "(int \<times> int) option \<Rightarrow> go_time" where
  "as_time p = (case p of None \<Rightarrow> 0 | Some (s, n) \<Rightarrow> s * 1000000000 + n)"

definition FromEvent :: "Event \<Rightarrow> wire_stats" where
  "FromEvent e =
     \<lparr>ws_message = ev_message e, ws_domain = ev_domain e, ws_email = ev_email e,
      ws_time = pb_time (ev_time e), ws_type = legacyTypeField (outcome_type (ev_outcome e)),
      ws_data = FromOutcome (ev_outcome e), ws_mode = FromMode (ev_mode e)\<rparr>"

definition ToEvent :: "wire_stats \<Rightarrow> Event" where
  "ToEvent s =
     \<lparr>ev_message = ws_message s, ev_domain = ws_domain s, ev_email = ws_email s,
      ev_time = as_time (ws_time s), ev_outcome = ToOutcome (ws_data s), ev_mode = ToMode (ws_mode s)\<rparr>"

definition MarshalEvent :: "(wire_stats \<Rightarrow> 'b option) \<Rightarrow> Event \<Rightarrow> 'b option" where
  "MarshalEvent pb_marshal e = pb_marshal (FromEvent e)"

definition UnmarshalEvent :: "('b \<Rightarrow> wire_stats option) \<Rightarrow> 'b \<Rightarrow> Event option" where
  "UnmarshalEvent pb_unmarshal b = map_option ToEvent (pb_unmarshal b)"

section \<open>The stored form\<close>

record StatsData =
  sd_accepted :: "unit option"
  sd_delivered :: "unit option"
  sd_failed :: "string option"
  sd_bounced :: "(bool \<times> smtp_code \<times> string) option"
  sd_opened :: "(string \<times> string) option"
  sd_clicked :: "(string \<times> string \<times> string) option"
  sd_rejected :: "string option"
  sd_error :: "(smtp_code \<times> string) option"

definition empty_data :: StatsData where
  "empty_data =
     \<lparr>sd_accepted = None, sd_delivered = None, sd_failed = None, sd_bounced = None, sd_opened = None,
      sd_clicked = None, sd_rejected = None, sd_error = None\<rparr>"

definition StatsDataFromOutcome :: "StatOutcome \<Rightarrow> StatsData" where
  "StatsDataFromOutcome oc =
     (case outcome_type oc of
        TypeAccepted \<Rightarrow> empty_data\<lparr>sd_accepted := Some ()\<rparr>
      | TypeDelivered \<Rightarrow> empty_data\<lparr>sd_delivered := Some ()\<rparr>
      | TypeRejected \<Rightarrow> empty_data\<lparr>sd_rejected := Some (o_reason oc)\<rparr>
      | TypeFailed \<Rightarrow> empty_data\<lparr>sd_failed := Some (o_reason oc)\<rparr>
      | TypeBounce \<Rightarrow> empty_data\<lparr>sd_bounced := Some (o_permanent oc, o_code oc, o_msg oc)\<rparr>
      | TypeError \<Rightarrow> empty_data\<lparr>sd_error := Some (o_code oc, o_msg oc)\<rparr>
      | TypeOpened \<Rightarrow> empty_data\<lparr>sd_opened := Some (o_user_agent oc, o_ip oc)\<rparr>
      | TypeClicked \<Rightarrow> empty_data\<lparr>sd_clicked := Some (o_user_agent oc, o_ip oc, o_url oc)\<rparr>
      | TypeUnknown \<Rightarrow> empty_data)"

definition StatsData_Outcome :: "StatsData \<Rightarrow> StatOutcome" where
  "StatsData_Outcome d =
     (if sd_accepted d \<noteq> None then Accepted
      else if sd_delivered d \<noteq> None then Delivered
      else case sd_failed d of Some r \<Rightarrow> Failed r | None \<Rightarrow>
        case sd_bounced d of Some (p, c, m) \<Rightarrow> Bounced p c m | None \<Rightarrow>
        case sd_opened d of Some (ua, ip) \<Rightarrow> Opened ua ip | None \<Rightarrow>
        case sd_clicked d of Some (ua, ip, u) \<Rightarrow> Clicked ua ip u | None \<Rightarrow>
        case sd_rejected d of Some r \<Rightarrow> Rejected r | None \<Rightarrow>
        case sd_error d of Some (c, m) \<Rightarrow> Errored c m | None \<Rightarrow> zero_outcome)"

section \<open>Round trips\<close>

text \<open>The outcomes the package can build: its fields are private, so these are all there are outside it.\<close>

definition built :: "StatOutcome \<Rightarrow> bool" where
  "built oc \<longleftrightarrow>
     oc = zero_outcome \<or> oc = Accepted \<or> oc = Delivered \<or> (\<exists>r. oc = Rejected r) \<or> (\<exists>r. oc = Failed r) \<or>
     (\<exists>p c m. oc = Bounced p c m) \<or> (\<exists>c m. oc = Errored c m) \<or> (\<exists>u i. oc = Opened u i) \<or>
     (\<exists>u i l. oc = Clicked u i l)"

lemma outcome_type_simps [simp]:
  "outcome_type zero_outcome = TypeUnknown" "outcome_type Accepted = TypeAccepted"
  "outcome_type Delivered = TypeDelivered" "outcome_type (Rejected r) = TypeRejected"
  "outcome_type (Failed r) = TypeFailed" "outcome_type (Bounced p c m) = TypeBounce"
  "outcome_type (Errored c m) = TypeError" "outcome_type (Opened u i) = TypeOpened"
  "outcome_type (Clicked u i l) = TypeClicked"
  by (simp_all add: outcome_type_def outcome_defs)

lemma outcome_fields [simp]:
  "o_reason (Rejected r) = r" "o_reason (Failed r) = r" "o_permanent (Bounced p c m) = p"
  "o_code (Bounced p c m) = c" "o_msg (Bounced p c m) = m" "o_code (Errored c m) = c"
  "o_msg (Errored c m) = m" "o_user_agent (Opened u i) = u" "o_ip (Opened u i) = i"
  "o_user_agent (Clicked u i l) = u" "o_ip (Clicked u i l) = i" "o_url (Clicked u i l) = l"
  by (simp_all add: outcome_defs)

lemma built_simps [simp]:
  "built zero_outcome" "built Accepted" "built Delivered" "built (Rejected r)" "built (Failed r)"
  "built (Bounced p c m)" "built (Errored c m)" "built (Opened u i)" "built (Clicked u i l)"
  unfolding built_def by blast+

lemma ToOutcome_built: "built (ToOutcome d)"
  by (simp add: ToOutcome_def split: option.split wire_data.split)

lemma ToOutcome_FromOutcome: "built oc \<Longrightarrow> ToOutcome (FromOutcome oc) = oc"
  by (auto simp: built_def ToOutcome_def FromOutcome_def)

lemma FromOutcome_ToOutcome: "FromOutcome (ToOutcome d) = d"
  by (auto simp: ToOutcome_def FromOutcome_def split: option.split wire_data.split)

lemma StatsData_roundtrip: "built oc \<Longrightarrow> StatsData_Outcome (StatsDataFromOutcome oc) = oc"
  by (auto simp: built_def StatsData_Outcome_def StatsDataFromOutcome_def empty_data_def)

lemma as_time_pb_time [simp]: "as_time (pb_time t) = t"
  by (simp add: as_time_def pb_time_def)

lemma ToMode_FromMode: "ToMode (FromMode m) = (if known_mode m then m else ModeUnspecified)"
  by (auto simp: ToMode_def wireModes_FromMode FromMode_unknown)

text \<open>
  An event survives the stream and the database.  When the protobuf library gives back what it
  encoded, an event whose outcome was built by the package arrives with every field it was published
  with, to the nanosecond, except that a Mode this build does not know arrives unstated; a stored
  outcome reads back as itself with the type it was recorded under; and two events are encoded alike
  only if their identities, times and outcomes are the same.
\<close>

theorem event_roundtrip:
  assumes "\<forall>m b. pb_marshal m = Some b \<longrightarrow> pb_unmarshal b = Some m"
    and "MarshalEvent pb_marshal e = Some b" and "built (ev_outcome e)"
  shows "UnmarshalEvent pb_unmarshal b =
       Some (e\<lparr>ev_mode := if known_mode (ev_mode e) then ev_mode e else ModeUnspecified\<rparr>) \<and>
     StatsData_Outcome (StatsDataFromOutcome (ev_outcome e)) = ev_outcome e \<and>
     (MarshalEvent pb_marshal e' = Some b \<and> built (ev_outcome e') \<longrightarrow>
        e'\<lparr>ev_mode := ModeUnspecified\<rparr> = e\<lparr>ev_mode := ModeUnspecified\<rparr>)"
proof -
  have arrives: "UnmarshalEvent pb_unmarshal b =
      Some (x\<lparr>ev_mode := if known_mode (ev_mode x) then ev_mode x else ModeUnspecified\<rparr>)"
    if "MarshalEvent pb_marshal x = Some b" "built (ev_outcome x)" for x
    using assms(1) that
    by (cases x) (simp add: MarshalEvent_def UnmarshalEvent_def ToEvent_def FromEvent_def
        ToOutcome_FromOutcome ToMode_FromMode)
  have "e'\<lparr>ev_mode := ModeUnspecified\<rparr> = e\<lparr>ev_mode := ModeUnspecified\<rparr>"
    if "MarshalEvent pb_marshal e' = Some b" "built (ev_outcome e')"
    using arrives [OF that] arrives [OF assms(2,3)] by (cases e; cases e') simp
  then show ?thesis using arrives [OF assms(2,3)] StatsData_roundtrip [OF assms(3)] by blast
qed

definition example_event :: Event where
  "example_event =
     \<lparr>ev_message = ''msg_c@k.dev'', ev_domain = ''k.dev'', ev_email = ''r@x.org'', ev_time = -5,
      ev_outcome = Bounced True 550 ''no such user'', ev_mode = ''shadow''\<rparr>"

lemma event_roundtrip_witness:
  "UnmarshalEvent Some (FromEvent example_event) = Some (example_event\<lparr>ev_mode := ModeUnspecified\<rparr>)"
proof -
  have m: "MarshalEvent Some example_event = Some (FromEvent example_event)"
    by (simp add: MarshalEvent_def)
  have b: "built (ev_outcome example_event)" by (simp add: example_event_def)
  have nk: "\<not> known_mode (ev_mode example_event)"
    by (simp add: example_event_def known_mode_def on_scale_def mode_defs)
  have lib: "\<forall>x y. Some x = Some y \<longrightarrow> Some y = Some x" by simp
  show ?thesis
    using event_roundtrip [OF lib m b] unfolding if_not_P [OF nk] by (rule conjunct1)
qed

end
