(* ===== verification/Resources.thy ===== *)
theory Resources
  imports Values
begin

text \<open>
  \<open>internal/authz/resource.go\<close> and \<open>anchor.go\<close>: the tree of things an operation acts on, the Anchors a
  Grant is placed at, and the prefix test by which a pattern covers a Resource.  A Resource is its
  list of segments; the zero values are the records of empty lists.
\<close>

definition segDomains :: string where "segDomains = ''domains''"
definition segBatches :: string where "segBatches = ''batches''"
definition segTemplates :: string where "segTemplates = ''templates''"
definition segAPIKeys :: string where "segAPIKeys = ''apikeys''"
definition segStats :: string where "segStats = ''stats''"
definition segAggregated :: string where "segAggregated = ''aggregated''"
definition separator :: string where "separator = ''/''"
definition wildcardToken :: string where "wildcardToken = ''*''"

lemmas seg_defs =
  segDomains_def segBatches_def segTemplates_def segAPIKeys_def segStats_def segAggregated_def

datatype Resource = Resource (r_segments: "string list")

definition under :: "DomainName \<Rightarrow> string list \<Rightarrow> Resource" where
  "under f tail = Resource (segDomains # dn_string f # tail)"

definition Domains :: Resource where
  "Domains = Resource [segDomains]"

definition DomainR :: "DomainName \<Rightarrow> Resource" where
  "DomainR f = Resource [segDomains, dn_string f]"

definition Batches :: "DomainName \<Rightarrow> Resource" where
  "Batches f = under f [segBatches]"

definition Templates :: "DomainName \<Rightarrow> Resource" where
  "Templates f = under f [segTemplates]"

definition TemplateR :: "DomainName \<Rightarrow> string \<Rightarrow> Resource" where
  "TemplateR f i = under f [segTemplates, i]"

definition APIKeys :: "DomainName \<Rightarrow> Resource" where
  "APIKeys f = under f [segAPIKeys]"

definition APIKeyR :: "DomainName \<Rightarrow> string \<Rightarrow> Resource" where
  "APIKeyR f i = under f [segAPIKeys, i]"

definition StatsR :: "DomainName \<Rightarrow> Resource" where
  "StatsR f = under f [segStats]"

definition AggregatedStatsR :: "DomainName \<Rightarrow> Resource" where
  "AggregatedStatsR f = under f [segStats, segAggregated]"

lemmas resource_defs =
  under_def Domains_def DomainR_def Batches_def Templates_def TemplateR_def APIKeys_def APIKeyR_def
  StatsR_def AggregatedStatsR_def

definition resource_string :: "Resource \<Rightarrow> string" where
  "resource_string r = join separator (r_segments r)"

definition resource_equal :: "Resource \<Rightarrow> Resource \<Rightarrow> bool" where
  "resource_equal r other \<longleftrightarrow> r_segments r = r_segments other"

definition resource_wf :: "Resource \<Rightarrow> bool" where
  "resource_wf r = (if r_segments r = [] then False else [] \<notin> set (r_segments r))"

section \<open>Patterns\<close>

record patternSegment =
  seg_literal :: string
  seg_wildcard :: bool

definition literalSegment :: "string \<Rightarrow> patternSegment" where
  "literalSegment s = \<lparr>seg_literal = s, seg_wildcard = False\<rparr>"

definition wildcardSegment :: patternSegment where
  "wildcardSegment = \<lparr>seg_literal = wildcardToken, seg_wildcard = True\<rparr>"

definition isLiteral :: "patternSegment \<Rightarrow> string \<Rightarrow> bool" where
  "isLiteral s txt \<longleftrightarrow> \<not> seg_wildcard s \<and> seg_literal s = txt"

record pattern =
  p_everything :: bool
  p_segments :: "patternSegment list"

text \<open>The loop of \<open>covers\<close>; its caller has checked that the pattern is not the longer of the two.\<close>

fun covers_loop :: "patternSegment list \<Rightarrow> string list \<Rightarrow> bool" where
  "covers_loop [] ss = True"
| "covers_loop (p # ps) [] = False"
| "covers_loop (p # ps) (s # ss) =
     (if seg_wildcard p then covers_loop ps ss
      else if seg_literal p \<noteq> s then False
      else covers_loop ps ss)"

definition pattern_covers :: "pattern \<Rightarrow> Resource \<Rightarrow> bool" where
  "pattern_covers p r =
     (if \<not> resource_wf r then False
      else if p_everything p then True
      else if p_segments p = [] \<or> length (r_segments r) < length (p_segments p) then False
      else covers_loop (p_segments p) (r_segments r))"

section \<open>Anchors\<close>

record Anchor =
  a_root :: bool
  a_segments :: "patternSegment list"

datatype anchorKind = kindOther | kindRoot | kindDomain

definition RootAnchor :: Anchor where
  "RootAnchor = \<lparr>a_root = True, a_segments = []\<rparr>"

definition DomainAnchor :: "DomainName \<Rightarrow> Anchor" where
  "DomainAnchor f =
     \<lparr>a_root = False, a_segments = [literalSegment segDomains, literalSegment (dn_string f)]\<rparr>"

definition AllDomainsAnchor :: Anchor where
  "AllDomainsAnchor = \<lparr>a_root = False, a_segments = [literalSegment segDomains, wildcardSegment]\<rparr>"

definition AnchorOf :: "Resource \<Rightarrow> Anchor" where
  "AnchorOf r = \<lparr>a_root = False, a_segments = map literalSegment (r_segments r)\<rparr>"

definition anchor_string :: "Anchor \<Rightarrow> string" where
  "anchor_string a =
     (if a_root a then wildcardToken else join separator (map seg_literal (a_segments a)))"

definition anchor_wf :: "Anchor \<Rightarrow> bool" where
  "anchor_wf a =
     (if a_segments a = [] then False else list_all (\<lambda>s. seg_literal s \<noteq> []) (a_segments a))"

definition anchor_kind :: "Anchor \<Rightarrow> anchorKind" where
  "anchor_kind a =
     (if a_root a then kindRoot
      else if \<not> anchor_wf a then kindOther
      else if length (a_segments a) = 2 \<and> isLiteral (a_segments a ! 0) segDomains then kindDomain
      else kindOther)"

definition isGrantable :: "anchorKind \<Rightarrow> bool" where
  "isGrantable k \<longleftrightarrow> k = kindRoot \<or> k = kindDomain"

definition namesDomainsCollection :: "Anchor \<Rightarrow> bool" where
  "namesDomainsCollection a \<longleftrightarrow>
     \<not> a_root a \<and> length (a_segments a) = 1 \<and> isLiteral (a_segments a ! 0) segDomains"

type_synonym childKind = "string list"

definition anchor_extend :: "Anchor \<Rightarrow> childKind \<Rightarrow> pattern" where
  "anchor_extend a suffix =
     (if \<not> a_root a \<and> \<not> anchor_wf a then \<lparr>p_everything = False, p_segments = []\<rparr>
      else if a_root a \<and> suffix = [] then \<lparr>p_everything = True, p_segments = []\<rparr>
      else \<lparr>p_everything = False, p_segments = a_segments a @ map literalSegment suffix\<rparr>)"

definition anchor_covers :: "Anchor \<Rightarrow> Resource \<Rightarrow> bool" where
  "anchor_covers a r = pattern_covers (anchor_extend a []) r"

section \<open>Domination\<close>

lemma literalSegment_simps [simp]:
  "seg_literal (literalSegment x) = x" "\<not> seg_wildcard (literalSegment x)"
  "seg_wildcard wildcardSegment" "seg_literal wildcardSegment = wildcardToken"
  by (simp_all add: literalSegment_def wildcardSegment_def)

lemma isLiteral_literalSegment [simp]: "isLiteral (literalSegment x) t \<longleftrightarrow> x = t"
  by (simp add: isLiteral_def)

definition seg_match :: "patternSegment \<Rightarrow> string \<Rightarrow> bool" where
  "seg_match p s \<longleftrightarrow> seg_wildcard p \<or> seg_literal p = s"

lemma covers_loop_length: "covers_loop ps ss \<Longrightarrow> length ps \<le> length ss"
  by (induction ps ss rule: covers_loop.induct) (auto split: if_splits)

lemma covers_loop_append_left:
  "covers_loop (ps @ qs) ss \<longleftrightarrow> covers_loop ps ss \<and> covers_loop qs (drop (length ps) ss)"
  by (induction ps ss rule: covers_loop.induct) auto

lemma covers_loop_append_right: "covers_loop ps ss \<Longrightarrow> covers_loop ps (ss @ ts)"
  by (induction ps ss rule: covers_loop.induct) (auto split: if_splits)

lemma covers_loop_literals:
  "covers_loop (map literalSegment xs) ss \<longleftrightarrow> length xs \<le> length ss \<and> take (length xs) ss = xs"
proof (induction xs arbitrary: ss)
  case (Cons x xs)
  then show ?case by (cases ss) auto
qed simp

lemma covers_loop_prefix: "covers_loop (map literalSegment xs) ss \<longleftrightarrow> (\<exists>ts. ss = xs @ ts)"
  by (auto simp: covers_loop_literals) (metis append_take_drop_id)

text \<open>A pattern that is not the everything pattern covers exactly the well-formed Resources it is a prefix of.\<close>

lemma pattern_covers_iff:
  "pattern_covers p r \<longleftrightarrow>
     resource_wf r \<and> (p_everything p \<or> (p_segments p \<noteq> [] \<and> covers_loop (p_segments p) (r_segments r)))"
  by (auto simp: pattern_covers_def dest: covers_loop_length)

lemma pattern_covers_wf: "pattern_covers p r \<Longrightarrow> resource_wf r"
  by (simp add: pattern_covers_iff)

lemma pattern_covers_below:
  assumes "pattern_covers p (Resource ss)" and "resource_wf (Resource (ss @ ts))"
  shows "pattern_covers p (Resource (ss @ ts))"
  using assms by (auto simp: pattern_covers_iff covers_loop_append_right)

lemma AnchorOf_simps [simp]:
  "\<not> a_root (AnchorOf r)" "a_segments (AnchorOf r) = map literalSegment (r_segments r)"
  by (simp_all add: AnchorOf_def)

lemma anchor_wf_AnchorOf [simp]: "anchor_wf (AnchorOf r) \<longleftrightarrow> resource_wf r"
  by (auto simp: anchor_wf_def resource_wf_def list_all_iff)

lemma extend_AnchorOf:
  "pattern_covers (anchor_extend (AnchorOf q) sfx) r \<longleftrightarrow>
     resource_wf q \<and> resource_wf r \<and> (\<exists>ts. r_segments r = r_segments q @ sfx @ ts)"
  by (auto simp: anchor_extend_def pattern_covers_iff map_append [symmetric] covers_loop_prefix
      resource_wf_def simp del: map_append)

text \<open>\<open>beneath q r\<close>: \<open>r\<close> is \<open>q\<close> or a descendant of it.\<close>

definition beneath :: "Resource \<Rightarrow> Resource \<Rightarrow> bool" where
  "beneath q r \<longleftrightarrow> take (length (r_segments q)) (r_segments r) = r_segments q"

lemma beneath_iff: "beneath q r \<longleftrightarrow> (\<exists>ts. r_segments r = r_segments q @ ts)"
  unfolding beneath_def by (metis append_eq_conv_conj append_take_drop_id)

lemma anchor_covers_AnchorOf:
  "anchor_covers (AnchorOf q) r \<longleftrightarrow> resource_wf q \<and> resource_wf r \<and> beneath q r"
  by (simp add: anchor_covers_def extend_AnchorOf beneath_iff)

lemma anchor_kind_Domain:
  "anchor_kind (AnchorOf r) = kindDomain \<longleftrightarrow>
     (\<exists>d. d \<noteq> [] \<and> r_segments r = [segDomains, d])"
  by (auto simp: anchor_kind_def isLiteral_def resource_wf_def numeral_2_eq_2 length_Suc_conv seg_defs
      split: if_splits)

lemma anchor_kind_root: "anchor_kind a = kindRoot \<longleftrightarrow> a_root a"
  by (simp add: anchor_kind_def)

lemma anchor_kind_issued [simp]:
  "anchor_kind RootAnchor = kindRoot"
  "dn_string f \<noteq> [] \<Longrightarrow> anchor_kind (DomainAnchor f) = kindDomain"
  "anchor_kind AllDomainsAnchor = kindDomain"
  by (simp_all add: anchor_kind_def RootAnchor_def DomainAnchor_def AllDomainsAnchor_def anchor_wf_def
      seg_defs wildcardToken_def)

text \<open>The zero Anchor, which is what a default-constructed Grant carries, covers nothing.\<close>

lemma zero_anchor_covers_nothing:
  "\<not> pattern_covers (anchor_extend \<lparr>a_root = False, a_segments = []\<rparr> sfx) r"
  by (simp add: anchor_extend_def anchor_wf_def pattern_covers_iff)

text \<open>A segment list is recovered from its rendering when no segment contains the separator.\<close>

lemma split_join:
  "xs \<noteq> [] \<Longrightarrow> (\<forall>x\<in>set xs. CHR ''/'' \<notin> set x) \<Longrightarrow> split_char CHR ''/'' (join separator xs) = xs"
proof (induction xs rule: induct_list012)
  case (2 x)
  then show ?case by (simp add: split_char_no_sep)
next
  case (3 x y zs)
  then show ?case
    using split_char_append [of "CHR ''/''" x "join separator (y # zs)"] by (simp add: separator_def)
qed simp

end
