(* ===== verification/Roles.thy ===== *)
theory Roles
  imports Resources
begin

text \<open>
  \<open>internal/authz/action.go\<close>, \<open>role.go\<close> and \<open>grant.go\<close>: the six Actions, the catalogue of Roles and
  the construction of Grants.  A \<open>RoleName\<close> is a string, so a name outside the catalogue can occur; the
  Go set of Actions of a rule is the list of its keys.
\<close>

datatype Action = Create | Read | List | Update | Delete | Attribute

fun action_string :: "Action \<Rightarrow> string" where
  "action_string Create = ''create''"
| "action_string Read = ''read''"
| "action_string List = ''list''"
| "action_string Update = ''update''"
| "action_string Delete = ''delete''"
| "action_string Attribute = ''attribute''"

definition allActions :: "Action list" where
  "allActions = [Create, Read, List, Update, Delete, Attribute]"

definition ParseAction :: "string \<Rightarrow> Action option" where
  "ParseAction s = List.find (\<lambda>a. s = action_string a) allActions"

type_synonym RoleName = string

definition RoleAdmin :: RoleName where "RoleAdmin = ''admin''"
definition RoleSender :: RoleName where "RoleSender = ''sender''"

datatype anchorScope = scopeUndeclared | scopeRoot | scopeDomain | scopeAny

definition scope_accepts :: "anchorScope \<Rightarrow> anchorKind \<Rightarrow> bool" where
  "scope_accepts s k =
     (if s = scopeUndeclared then False
      else case s of
        scopeAny \<Rightarrow> isGrantable k
      | scopeRoot \<Rightarrow> k = kindRoot
      | scopeDomain \<Rightarrow> k = kindDomain
      | _ \<Rightarrow> False)"

definition admitsNarrowingTo :: "anchorScope \<Rightarrow> anchorKind \<Rightarrow> bool" where
  "admitsNarrowingTo s k =
     (case s of
        scopeAny \<Rightarrow> True
      | scopeRoot \<Rightarrow> k = kindRoot
      | scopeDomain \<Rightarrow> k = kindDomain
      | _ \<Rightarrow> False)"

record rule =
  rule_actions :: "Action list"
  rule_suffix :: childKind

definition actionSet :: "Action list \<Rightarrow> Action list" where
  "actionSet actions = remdups actions"

definition at_rule :: "Action list \<Rightarrow> rule" where
  "at_rule actions = \<lparr>rule_actions = actionSet actions, rule_suffix = []\<rparr>"

definition on_rule :: "childKind \<Rightarrow> Action list \<Rightarrow> rule" where
  "on_rule k actions = \<lparr>rule_actions = actionSet actions, rule_suffix = k\<rparr>"

definition rule_holds :: "rule \<Rightarrow> Action \<Rightarrow> bool" where
  "rule_holds r a \<longleftrightarrow> a \<in> set (rule_actions r)"

record role =
  role_name :: RoleName
  role_scope :: anchorScope
  role_rules :: "rule list"

definition buildCatalogue :: "role list \<Rightarrow> RoleName \<rightharpoonup> role" where
  "buildCatalogue roles = fold (\<lambda>r m. m(role_name r \<mapsto> r)) roles Map.empty"

definition admin_role :: role where
  "admin_role =
     \<lparr>role_name = RoleAdmin, role_scope = scopeAny, role_rules = [at_rule allActions]\<rparr>"

definition sender_role :: role where
  "sender_role =
     \<lparr>role_name = RoleSender, role_scope = scopeDomain, role_rules = [on_rule [segBatches] [Create]]\<rparr>"

definition catalogue :: "RoleName \<rightharpoonup> role" where
  "catalogue = buildCatalogue [admin_role, sender_role]"

definition lookupRole :: "RoleName \<Rightarrow> role option" where
  "lookupRole name = catalogue name"

definition ParseRoleName :: "string \<Rightarrow> RoleName option" where
  "ParseRoleName s = (if catalogue s = None then None else Some s)"

definition RoleNames :: "RoleName list" where
  "RoleNames = sort (map role_name [admin_role, sender_role])"

section \<open>Grants\<close>

record Grant =
  g_role :: RoleName
  g_anchor :: Anchor

datatype grant_error =
    UnknownRole RoleName
  | NotGrantableDidYouMean string string
  | NotGrantable string
  | ScopeMismatch RoleName anchorScope anchorKind

definition NewGrant :: "RoleName \<Rightarrow> Anchor \<Rightarrow> grant_error + Grant" where
  "NewGrant role anchor =
     (case lookupRole role of
        None \<Rightarrow> Inl (UnknownRole role)
      | Some def \<Rightarrow>
          (let kind = anchor_kind anchor in
           if \<not> isGrantable kind
           then (if namesDomainsCollection anchor
                 then Inl (NotGrantableDidYouMean (anchor_string anchor) (anchor_string AllDomainsAnchor))
                 else Inl (NotGrantable (anchor_string anchor)))
           else if \<not> scope_accepts (role_scope def) kind
           then Inl (ScopeMismatch role (role_scope def) kind)
           else Inr \<lparr>g_role = role, g_anchor = anchor\<rparr>))"

text \<open>\<open>Grant.String\<close>, which is also what a log line shows of a Grant.\<close>

definition grant_string :: "Grant \<Rightarrow> string" where
  "grant_string g = g_role g @ '' on '' @ anchor_string (g_anchor g)"

lemma lookupRole_simps [simp]:
  "lookupRole RoleAdmin = Some admin_role" "lookupRole RoleSender = Some sender_role"
  by (simp_all add: lookupRole_def catalogue_def buildCatalogue_def admin_role_def sender_role_def
      RoleAdmin_def RoleSender_def)

lemma lookupRole_Some:
  "lookupRole n = Some def \<longleftrightarrow>
     (n = RoleAdmin \<and> def = admin_role) \<or> (n = RoleSender \<and> def = sender_role)"
  by (auto simp: lookupRole_def catalogue_def buildCatalogue_def admin_role_def sender_role_def
      RoleAdmin_def RoleSender_def)

lemma role_simps [simp]:
  "role_scope admin_role = scopeAny" "role_rules admin_role = [at_rule allActions]"
  "role_scope sender_role = scopeDomain" "role_rules sender_role = [on_rule [segBatches] [Create]]"
  by (simp_all add: admin_role_def sender_role_def)

lemma rule_simps [simp]:
  "rule_suffix (at_rule as) = []" "rule_suffix (on_rule k as) = k"
  "rule_holds (at_rule as) a \<longleftrightarrow> a \<in> set as" "rule_holds (on_rule k as) a \<longleftrightarrow> a \<in> set as"
  by (simp_all add: at_rule_def on_rule_def rule_holds_def actionSet_def)

lemma allActions_all [simp]: "a \<in> set allActions"
  by (cases a) (simp_all add: allActions_def)

lemma roles_distinct [simp]: "RoleAdmin \<noteq> RoleSender" "RoleSender \<noteq> RoleAdmin"
  by (simp_all add: RoleAdmin_def RoleSender_def)

text \<open>What \<open>NewGrant\<close> issues, and what \<open>Attenuate\<close> preserves.\<close>

definition grant_issued :: "Grant \<Rightarrow> bool" where
  "grant_issued g \<longleftrightarrow>
     (case lookupRole (g_role g) of
        None \<Rightarrow> False
      | Some def \<Rightarrow> isGrantable (anchor_kind (g_anchor g)) \<and> scope_accepts (role_scope def) (anchor_kind (g_anchor g)))"

definition grant_ok :: "Grant \<Rightarrow> bool" where
  "grant_ok g \<longleftrightarrow>
     (case lookupRole (g_role g) of
        None \<Rightarrow> True
      | Some def \<Rightarrow> admitsNarrowingTo (role_scope def) (anchor_kind (g_anchor g)))"

lemma NewGrant_Inr_iff: "NewGrant r a = Inr g \<longleftrightarrow> g = \<lparr>g_role = r, g_anchor = a\<rparr> \<and> grant_issued g"
  by (auto simp: NewGrant_def grant_issued_def Let_def split: option.splits if_splits)

lemma grant_issued_ok: "grant_issued g \<Longrightarrow> grant_ok g"
  by (auto simp: grant_issued_def grant_ok_def admitsNarrowingTo_def scope_accepts_def
      split: option.splits anchorScope.splits)

lemma ParseAction_roundtrip: "ParseAction s = Some a \<longleftrightarrow> s = action_string a"
  by (cases a) (auto simp: ParseAction_def allActions_def)

end
