(* ===== verification/Utf8.thy ===== *)
theory Utf8
  imports Prelude
begin

text \<open>
  The reading of a Go string as runes (\<open>unicode/utf8\<close>): \<open>range\<close> over a string, \<open>utf8.ValidString\<close>, and
  the classification \<open>unicode.IsControl\<close>.  A byte that starts no well-formed sequence is read as the
  replacement rune with width one, as the Go runtime does.
\<close>

definition cont :: "nat \<Rightarrow> bool" where
  "cont b \<longleftrightarrow> 128 \<le> b \<and> b \<le> 191"

text \<open>The range allowed for the second byte, by the first (overlong forms, surrogates, the top).\<close>

definition second_ok :: "nat \<Rightarrow> nat \<Rightarrow> bool" where
  "second_ok b0 b1 \<longleftrightarrow>
     (if b0 = 224 then 160 \<le> b1 \<and> b1 \<le> 191
      else if b0 = 237 then 128 \<le> b1 \<and> b1 \<le> 159
      else if b0 = 240 then 144 \<le> b1 \<and> b1 \<le> 191
      else if b0 = 244 then 128 \<le> b1 \<and> b1 \<le> 143
      else cont b1)"

definition byte_at :: "string \<Rightarrow> nat \<Rightarrow> nat" where
  "byte_at s i = (if i < length s then code (s ! i) else 0)"

text \<open>The first rune of a non-empty string: its value, its width, and whether it is well formed.\<close>

definition decode_rune :: "string \<Rightarrow> nat \<times> nat \<times> bool" where
  "decode_rune s =
     (let b0 = byte_at s 0; b1 = byte_at s 1; b2 = byte_at s 2; b3 = byte_at s 3 in
      if b0 < 128 then (b0, 1, True)
      else if 194 \<le> b0 \<and> b0 \<le> 223 \<and> cont b1 then ((b0 - 192) * 64 + (b1 - 128), 2, True)
      else if 224 \<le> b0 \<and> b0 \<le> 239 \<and> second_ok b0 b1 \<and> cont b2
      then ((b0 - 224) * 4096 + (b1 - 128) * 64 + (b2 - 128), 3, True)
      else if 240 \<le> b0 \<and> b0 \<le> 244 \<and> second_ok b0 b1 \<and> cont b2 \<and> cont b3
      then ((b0 - 240) * 262144 + (b1 - 128) * 4096 + (b2 - 128) * 64 + (b3 - 128), 4, True)
      else (65533, 1, False))"

function runes :: "string \<Rightarrow> (nat \<times> bool) list" where
  "runes s =
     (if s = [] then []
      else (case decode_rune s of (r, w, ok) \<Rightarrow> (r, ok) # runes (drop w s)))"
  by auto
termination
  by (relation "measure length") (auto simp: decode_rune_def Let_def split: if_splits)

declare runes.simps [simp del]

definition valid_string :: "string \<Rightarrow> bool" where
  "valid_string s \<longleftrightarrow> list_all snd (runes s)"

definition is_control :: "nat \<Rightarrow> bool" where
  "is_control r \<longleftrightarrow> r \<le> 31 \<or> (127 \<le> r \<and> r \<le> 159)"

lemma runes_Nil [simp]: "runes [] = []"
  by (simp add: runes.simps)

lemma runes_ascii_Cons: "ascii c \<Longrightarrow> runes (c # s) = (code c, True) # runes s"
  by (subst runes.simps) (simp add: decode_rune_def byte_at_def ascii_def)

lemma runes_ascii: "all_ascii s \<Longrightarrow> runes s = map (\<lambda>c. (code c, True)) s"
  by (induction s) (auto simp: runes_ascii_Cons)

lemma valid_string_ascii: "all_ascii s \<Longrightarrow> valid_string s"
  by (simp add: valid_string_def runes_ascii list_all_iff)

end
