(* ===== verification/Authz.thy ===== *)
theory Authz
  imports Roles Utf8
begin

text \<open>
  \<open>internal/authz\<close>: Principals, the decision function \<open>Can\<close>, narrowing (\<open>Attenuate\<close>), the claimed
  Attribution and the guarded operation.  A guarded operation is a state transformer that returns a
  Go result; the recorder is modelled by the list of Decisions it was told of, in order.
\<close>

type_synonym Attribution = string

definition maxAttributionLength :: nat where "maxAttributionLength = 256"

datatype attribution_error = NamesNobodyA | OverLimit nat | NotUtf8 | ControlChar nat

definition ParseAttribution :: "unicode \<Rightarrow> string \<Rightarrow> attribution_error + Attribution" where
  "ParseAttribution U s =
     (let claim = trim_space U s in
      if claim = [] then Inl NamesNobodyA
      else if maxAttributionLength < length claim then Inl (OverLimit (length claim))
      else if \<not> valid_string claim then Inl NotUtf8
      else case List.find (\<lambda>r. is_control (fst r)) (runes claim) of
             Some r \<Rightarrow> Inl (ControlChar (fst r))
           | None \<Rightarrow> Inr claim)"

record Principal =
  p_id :: string
  p_grants :: "Grant list"
  p_attribution :: Attribution

definition zero_principal :: Principal where
  "zero_principal = \<lparr>p_id = [], p_grants = [], p_attribution = []\<rparr>"

definition NewPrincipal :: "unicode \<Rightarrow> string \<Rightarrow> Grant list \<Rightarrow> Principal option" where
  "NewPrincipal U i gs =
     (if trim_space U i = [] then None
      else Some \<lparr>p_id = i, p_grants = gs, p_attribution = []\<rparr>)"

definition WithAttribution :: "Principal \<Rightarrow> Attribution \<Rightarrow> Principal" where
  "WithAttribution p a = p\<lparr>p_attribution := a\<rparr>"

definition principal_string :: "Principal \<Rightarrow> string" where
  "principal_string p =
     p_id p @ '' ['' @ join '', '' (map grant_string (p_grants p)) @ '']'' @
     (if p_attribution p \<noteq> [] then '' claiming '' @ p_attribution p else [])"

section \<open>The decision\<close>

datatype authz_error = ErrForbidden | ErrNoPrincipal

definition Can :: "Principal \<Rightarrow> Action \<Rightarrow> Resource \<Rightarrow> bool" where
  "Can p a r =
     list_ex (\<lambda>g.
       case lookupRole (g_role g) of
         None \<Rightarrow> False
       | Some def \<Rightarrow>
           list_ex (\<lambda>rl. rule_holds rl a \<and> pattern_covers (anchor_extend (g_anchor g) (rule_suffix rl)) r)
             (role_rules def))
       (p_grants p)"

definition Require :: "Principal \<Rightarrow> Action \<Rightarrow> Resource \<Rightarrow> authz_error + unit" where
  "Require p a r = (if \<not> Can p a r then Inl ErrForbidden else Inr ())"

section \<open>Attenuation\<close>

text \<open>The inner loop, over the Grants, for one asked Resource; the state is \<open>taken\<close> and \<open>narrowed\<close>.\<close>

fun attenuate_grants ::
  "Resource \<Rightarrow> Grant list \<Rightarrow> RoleName list \<times> Grant list \<Rightarrow> RoleName list \<times> Grant list" where
  "attenuate_grants r [] (taken, narrowed) = (taken, narrowed)"
| "attenuate_grants r (g # gs) (taken, narrowed) =
     (if g_role g \<in> set taken then attenuate_grants r gs (taken, narrowed)
      else case lookupRole (g_role g) of
        None \<Rightarrow> attenuate_grants r gs (taken, narrowed)
      | Some def \<Rightarrow>
          if \<not> anchor_covers (g_anchor g) r then attenuate_grants r gs (taken, narrowed)
          else if \<not> admitsNarrowingTo (role_scope def) (anchor_kind (AnchorOf r))
          then attenuate_grants r gs (taken, narrowed)
          else attenuate_grants r gs
                 (taken @ [g_role g], narrowed @ [\<lparr>g_role = g_role g, g_anchor = AnchorOf r\<rparr>]))"

text \<open>The outer loop, over the asked Resources; the state is \<open>asked\<close>, \<open>narrowed\<close>, \<open>dropped\<close>.\<close>

fun attenuate_loop ::
  "Grant list \<Rightarrow> Resource list \<Rightarrow> Resource list \<times> Grant list \<times> Resource list \<Rightarrow> Grant list \<times> Resource list" where
  "attenuate_loop gs [] (asked, narrowed, dropped) = (narrowed, dropped)"
| "attenuate_loop gs (r # rs) (asked, narrowed, dropped) =
     (if list_ex (resource_equal r) asked then attenuate_loop gs rs (asked, narrowed, dropped)
      else (case attenuate_grants r gs ([], narrowed) of (taken, narrowed') \<Rightarrow>
        attenuate_loop gs rs
          (asked @ [r], narrowed', if taken = [] then dropped @ [r] else dropped)))"

definition Attenuate :: "Principal \<Rightarrow> Resource list \<Rightarrow> Principal \<times> Resource list" where
  "Attenuate p resources =
     (case attenuate_loop (p_grants p) resources ([], [], []) of (narrowed, dropped) \<Rightarrow>
        (\<lparr>p_id = p_id p, p_grants = narrowed, p_attribution = p_attribution p\<rparr>, dropped))"

section \<open>Guarded operations\<close>

datatype Outcome = Allowed | Denied | NoPrincipal

definition ParseOutcome :: "string \<Rightarrow> Outcome option" where
  "ParseOutcome s =
     (if s = ''allowed'' then Some Allowed
      else if s = ''denied'' then Some Denied
      else if s = ''no-principal'' then Some NoPrincipal
      else None)"

record Decision =
  d_principal :: Principal
  d_action :: Action
  d_resource :: Resource
  d_outcome :: Outcome
  d_reason :: string
  d_at :: go_time

definition decision :: "go_time \<Rightarrow> Principal \<Rightarrow> Action \<Rightarrow> Resource \<Rightarrow> Outcome \<Rightarrow> string \<Rightarrow> Decision" where
  "decision now p a r oc reason =
     \<lparr>d_principal = p, d_action = a, d_resource = r, d_outcome = oc, d_reason = reason, d_at = now\<rparr>"

text \<open>
  What the default recorder logs: nothing for an unauthenticated request, a debug line for every
  check, and an info line more for an attributed operation that was allowed.
\<close>

datatype log_line = RbacCheck string Action string | AttributedOperation string string Action string

definition logRecord :: "Decision \<Rightarrow> log_line list" where
  "logRecord d =
     (if d_outcome d = NoPrincipal then []
      else RbacCheck (principal_string (d_principal d)) (d_action d) (resource_string (d_resource d)) #
        (if d_outcome d = Allowed \<and> p_attribution (d_principal d) \<noteq> []
         then [AttributedOperation (p_id (d_principal d)) (p_attribution (d_principal d))
                 (d_action d) (resource_string (d_resource d))]
         else []))"

text \<open>The context of a call: the Principal it carries, and the time at which it is decided.\<close>

record ctx =
  c_principal :: "Principal option"
  c_now :: go_time

datatype 'e guarded_error = AuthzError authz_error | OpError 'e

text \<open>The codes of the RPC library that the transports answer with.\<close>

datatype connect_code =
  CodeUnknown | CodeInvalidArgument | CodePermissionDenied | CodeNotFound | CodeInternal | CodeUnauthenticated

definition reasonNoPrincipal :: string where
  "reasonNoPrincipal = ''nothing authenticated this request''"
definition reasonAction :: string where
  "reasonAction = ''the Action is not permitted on this Resource''"
definition reasonAttribution :: string where
  "reasonAttribution = ''the Attribution is not permitted on this Resource''"

definition Guard ::
  "ctx \<Rightarrow> Action \<Rightarrow> Resource \<Rightarrow> ('s \<Rightarrow> ('e + 'a) \<times> 's) \<Rightarrow> Decision list \<Rightarrow> 's \<Rightarrow>
     ('e guarded_error + 'a) \<times> Decision list \<times> 's" where
  "Guard c a r f recs st =
     (case c_principal c of
        None \<Rightarrow>
          (Inl (AuthzError ErrNoPrincipal),
           recs @ [decision (c_now c) zero_principal a r NoPrincipal reasonNoPrincipal], st)
      | Some p \<Rightarrow>
          (case Require p a r of
             Inl e \<Rightarrow> (Inl (AuthzError e), recs @ [decision (c_now c) p a r Denied reasonAction], st)
           | Inr _ \<Rightarrow>
               (case (if p_attribution p \<noteq> [] then Require p Attribute r else Inr ()) of
                  Inl e \<Rightarrow>
                    (Inl (AuthzError e), recs @ [decision (c_now c) p a r Denied reasonAttribution], st)
                | Inr _ \<Rightarrow>
                    (let (res, st') = f st in
                     (case res of Inl e \<Rightarrow> Inl (OpError e) | Inr x \<Rightarrow> Inr x,
                      recs @ [decision (c_now c) p a r Allowed []], st')))))"

text \<open>What the three checks of \<open>Guard\<close> amount to.\<close>

definition permitted :: "ctx \<Rightarrow> Action \<Rightarrow> Resource \<Rightarrow> bool" where
  "permitted c a r =
     (case c_principal c of None \<Rightarrow> False
      | Some p \<Rightarrow> Can p a r \<and> (p_attribution p = [] \<or> Can p Attribute r))"

section \<open>Lemmas\<close>

text \<open>With the catalogue written out.\<close>

definition grants_on :: "Grant \<Rightarrow> Action \<Rightarrow> Resource \<Rightarrow> bool" where
  "grants_on g a r \<longleftrightarrow>
     (g_role g = RoleAdmin \<and> anchor_covers (g_anchor g) r) \<or>
     (g_role g = RoleSender \<and> a = Create \<and> pattern_covers (anchor_extend (g_anchor g) [segBatches]) r)"

lemma grants_on_lookup:
  "(case lookupRole (g_role g) of
      None \<Rightarrow> False
    | Some def \<Rightarrow>
        list_ex (\<lambda>rl. rule_holds rl a \<and> pattern_covers (anchor_extend (g_anchor g) (rule_suffix rl)) r)
          (role_rules def)) \<longleftrightarrow> grants_on g a r"
proof (cases "lookupRole (g_role g)")
  case None
  then show ?thesis by (auto simp: grants_on_def)
next
  case (Some def)
  then consider "g_role g = RoleAdmin" "def = admin_role" | "g_role g = RoleSender" "def = sender_role"
    by (auto simp: lookupRole_Some)
  then show ?thesis
    by cases (auto simp: grants_on_def anchor_covers_def)
qed

lemma Can_grants_on: "Can p a r \<longleftrightarrow> (\<exists>g\<in>set (p_grants p). grants_on g a r)"
  by (simp only: Can_def grants_on_lookup) (simp add: list_ex_iff)

lemma Require_simps [simp]:
  "Require p a r = Inl e \<longleftrightarrow> \<not> Can p a r \<and> e = ErrForbidden"
  "Require p a r = Inr u \<longleftrightarrow> Can p a r"
  by (auto simp: Require_def)

lemma Guard_cases:
  "Guard c a r f recs st =
     (if permitted c a r
      then (case fst (f st) of Inl e \<Rightarrow> Inl (OpError e) | Inr x \<Rightarrow> Inr x,
            recs @ [decision (c_now c) (the (c_principal c)) a r Allowed []], snd (f st))
      else (Inl (AuthzError (if c_principal c = None then ErrNoPrincipal else ErrForbidden)),
            recs @ [case c_principal c of
               None \<Rightarrow> decision (c_now c) zero_principal a r NoPrincipal reasonNoPrincipal
             | Some p \<Rightarrow> decision (c_now c) p a r Denied
                 (if Can p a r then reasonAttribution else reasonAction)], st))"
  by (auto simp: Guard_def permitted_def Require_def Let_def split: option.splits prod.splits)

lemma Guard_permitted:
  "permitted c a r \<Longrightarrow> Guard c a r f recs st =
     (case fst (f st) of Inl e \<Rightarrow> Inl (OpError e) | Inr x \<Rightarrow> Inr x,
      recs @ [decision (c_now c) (the (c_principal c)) a r Allowed []], snd (f st))"
  by (simp add: Guard_cases)

lemma Guard_refused_state: "\<not> permitted c a r \<Longrightarrow> snd (snd (Guard c a r f recs st)) = st"
  by (simp add: Guard_cases)

subsection \<open>Attenuation\<close>

text \<open>What the inner loop adds: a Grant at the asked Resource for each Role that covers it.\<close>

definition narrowable :: "Grant \<Rightarrow> Resource \<Rightarrow> bool" where
  "narrowable g r \<longleftrightarrow>
     (\<exists>def. lookupRole (g_role g) = Some def \<and> anchor_covers (g_anchor g) r \<and>
        admitsNarrowingTo (role_scope def) (anchor_kind (AnchorOf r)))"

lemma attenuate_grants_result:
  "attenuate_grants r gs (taken, narrowed) = (taken', narrowed') \<Longrightarrow>
     set taken' = set taken \<union> g_role ` {g \<in> set gs. narrowable g r} \<and>
     set narrowed' = set narrowed \<union>
       (\<lambda>rn. \<lparr>g_role = rn, g_anchor = AnchorOf r\<rparr>) ` (g_role ` {g \<in> set gs. narrowable g r} - set taken)"
proof (induction gs arbitrary: taken narrowed)
  case (Cons g gs)
  consider "g_role g \<in> set taken" | "g_role g \<notin> set taken" "\<not> narrowable g r"
    | "g_role g \<notin> set taken" "narrowable g r" by blast
  then show ?case
  proof cases
    case 1
    then show ?thesis using Cons.IH [of taken narrowed] Cons.prems by auto
  next
    case 2
    then have "attenuate_grants r (g # gs) (taken, narrowed) = attenuate_grants r gs (taken, narrowed)"
      by (auto simp: narrowable_def split: option.splits)
    then show ?thesis using Cons.IH [of taken narrowed] Cons.prems 2 by auto
  next
    case 3
    let ?n = "\<lparr>g_role = g_role g, g_anchor = AnchorOf r\<rparr>"
    have "attenuate_grants r (g # gs) (taken, narrowed) =
        attenuate_grants r gs (taken @ [g_role g], narrowed @ [?n])"
      using 3 by (auto simp: narrowable_def)
    then show ?thesis
      using Cons.IH [of "taken @ [g_role g]" "narrowed @ [?n]"] Cons.prems 3 by auto
  qed
qed auto

lemma resource_equal_eq [simp]: "resource_equal r q \<longleftrightarrow> r = q"
  by (cases r; cases q) (simp add: resource_equal_def)

definition narrowed_grant :: "Grant list \<Rightarrow> Resource \<Rightarrow> Grant \<Rightarrow> bool" where
  "narrowed_grant gs r n \<longleftrightarrow>
     g_anchor n = AnchorOf r \<and> (\<exists>g\<in>set gs. narrowable g r \<and> g_role n = g_role g)"

lemma attenuate_loop_result:
  "attenuate_loop gs rs (asked, narrowed, dropped) = (narrowed', dropped') \<Longrightarrow>
     set narrowed' = set narrowed \<union> {n. \<exists>r\<in>set rs - set asked. narrowed_grant gs r n} \<and>
     set dropped' = set dropped \<union> {r \<in> set rs - set asked. \<forall>g\<in>set gs. \<not> narrowable g r}"
proof (induction rs arbitrary: asked narrowed dropped)
  case (Cons r rs)
  show ?case
  proof (cases "r \<in> set asked")
    case True
    then show ?thesis using Cons.IH [of asked narrowed dropped] Cons.prems by (auto simp: list_ex_iff)
  next
    case False
    obtain taken narrowed1 where ag: "attenuate_grants r gs ([], narrowed) = (taken, narrowed1)"
      by fastforce
    note res = attenuate_grants_result [OF ag]
    have n1: "set narrowed1 = set narrowed \<union> {n. narrowed_grant gs r n}"
      using res by (auto simp: narrowed_grant_def intro!: Grant.equality)
    have tk: "taken = [] \<longleftrightarrow> (\<forall>g\<in>set gs. \<not> narrowable g r)"
      using res by (auto simp: set_empty [symmetric] simp del: set_empty)
    have "attenuate_loop gs rs (asked @ [r], narrowed1, if taken = [] then dropped @ [r] else dropped)
        = (narrowed', dropped')"
      using Cons.prems False ag by (simp add: list_ex_iff)
    from Cons.IH [OF this] show ?thesis
      using n1 tk False by auto
  qed
qed auto

lemma Attenuate_grants:
  "set (p_grants (fst (Attenuate p rs))) = {n. \<exists>r\<in>set rs. narrowed_grant (p_grants p) r n}"
  "set (snd (Attenuate p rs)) = {r \<in> set rs. \<forall>g\<in>set (p_grants p). \<not> narrowable g r}"
  using attenuate_loop_result [of "p_grants p" rs "[]" "[]" "[]"]
  by (auto simp: Attenuate_def split: prod.splits)

subsection \<open>What a Grant reaches\<close>

lemma grants_on_wf: "grants_on g a r \<Longrightarrow> resource_wf r"
  by (auto simp: grants_on_def anchor_covers_def dest: pattern_covers_wf)

lemma grants_on_below:
  assumes "grants_on g a q" and "beneath q r" and "resource_wf r"
  shows "grants_on g a r"
proof -
  obtain ts where r: "r = Resource (r_segments q @ ts)"
    using assms(2) by (cases r) (auto simp: beneath_iff)
  have "pattern_covers pt q \<Longrightarrow> pattern_covers pt r" for pt
    using pattern_covers_below [of pt "r_segments q" ts] assms(3) r by simp
  then show ?thesis using assms(1) by (auto simp: grants_on_def anchor_covers_def)
qed

lemma Can_below: "Can p a q \<Longrightarrow> beneath q r \<Longrightarrow> resource_wf r \<Longrightarrow> Can p a r"
  by (auto simp: Can_grants_on intro: grants_on_below)

lemma DomainAnchor_AnchorOf: "DomainAnchor f = AnchorOf (DomainR f)"
  by (simp add: DomainAnchor_def AnchorOf_def DomainR_def)

lemma grants_on_AnchorOf:
  "grants_on \<lparr>g_role = rn, g_anchor = AnchorOf q\<rparr> a r \<longleftrightarrow>
     resource_wf q \<and> resource_wf r \<and>
     (rn = RoleAdmin \<and> beneath q r \<or>
      rn = RoleSender \<and> a = Create \<and> beneath (Resource (r_segments q @ [segBatches])) r)"
  by (auto simp: grants_on_def anchor_covers_AnchorOf extend_AnchorOf beneath_iff)

lemma beneath_Domain: "beneath (DomainR f) (under f' t) \<longleftrightarrow> f = f'"
  by (cases f; cases f') (auto simp: beneath_def resource_defs)

lemma beneath_parent: "beneath (Resource (xs @ ys)) r \<Longrightarrow> beneath (Resource xs) r"
  by (auto simp: beneath_iff)

lemma anchor_covers_root: "a_root (g_anchor g) \<Longrightarrow> a_segments (g_anchor g) = [] \<Longrightarrow>
    anchor_covers (g_anchor g) r \<longleftrightarrow> resource_wf r"
  by (simp add: anchor_covers_def anchor_extend_def pattern_covers_iff)

lemma narrowed_sound:
  assumes "narrowed_grant gs q n" and "grants_on n a r" and "list_all grant_ok gs"
  shows "beneath q r \<and> (\<exists>g\<in>set gs. grants_on g a r)"
proof -
  obtain g where g: "g \<in> set gs" "narrowable g q" "g_role n = g_role g" "g_anchor n = AnchorOf q"
    using assms(1) by (auto simp: narrowed_grant_def)
  have ok: "grant_ok g" using g(1) assms(3) by (auto simp: list_all_iff)
  have n: "n = \<lparr>g_role = g_role g, g_anchor = AnchorOf q\<rparr>"
    using g(3,4) by (intro Grant.equality) auto
  have wf: "resource_wf q" "resource_wf r"
    using assms(2) unfolding n grants_on_AnchorOf by auto
  consider "g_role g = RoleAdmin" "beneath q r"
    | "g_role g = RoleSender" "a = Create" "beneath (Resource (r_segments q @ [segBatches])) r"
    using assms(2) unfolding n grants_on_AnchorOf by auto
  then show ?thesis
  proof cases
    case 1
    have "anchor_covers (g_anchor g) q" using g(2) by (auto simp: narrowable_def)
    then have "grants_on g a q" using 1(1) by (simp add: grants_on_def)
    then have "grants_on g a r" using 1(2) wf(2) by (rule grants_on_below)
    then show ?thesis using 1(2) g(1) by auto
  next
    case 2
    have dom: "anchor_kind (AnchorOf q) = kindDomain" "anchor_covers (g_anchor g) q"
      using g(2) 2(1) by (auto simp: narrowable_def admitsNarrowingTo_def)
    then obtain d where q: "r_segments q = [segDomains, d]" "d \<noteq> []"
      by (auto simp: anchor_kind_Domain)
    have gk: "anchor_kind (g_anchor g) = kindDomain"
      using ok 2(1) by (simp add: grant_ok_def admitsNarrowingTo_def)
    then have ga: "\<not> a_root (g_anchor g)" "anchor_wf (g_anchor g)" "length (a_segments (g_anchor g)) = 2"
      by (auto simp: anchor_kind_def split: if_splits)
    have cov: "covers_loop (a_segments (g_anchor g)) (r_segments q)"
      using dom(2) ga by (auto simp: anchor_covers_def anchor_extend_def pattern_covers_iff)
    obtain ts where r: "r_segments r = r_segments q @ segBatches # ts"
      using 2(3) by (auto simp: beneath_iff)
    have "covers_loop (a_segments (g_anchor g)) (r_segments r)"
      unfolding r using cov by (rule covers_loop_append_right)
    then have "pattern_covers (anchor_extend (g_anchor g) [segBatches]) r"
      using ga wf r q by (auto simp: anchor_extend_def pattern_covers_iff covers_loop_append_left)
    then have "grants_on g a r" using 2(1,2) by (simp add: grants_on_def)
    then show ?thesis using g(1) r by (auto simp: beneath_iff)
  qed
qed

text \<open>An issued Grant that reaches something beneath a Domain covers that Domain.\<close>

lemma issued_covers_domain:
  assumes gi: "grant_issued g" "a_root (g_anchor g) \<longrightarrow> a_segments (g_anchor g) = []"
    and g: "grants_on g a r" and wf: "resource_wf (DomainR f)" "resource_wf r"
    and r: "r_segments r = segDomains # dn_string f # ts"
  shows "anchor_covers (g_anchor g) (DomainR f) \<and> (g_role g = RoleSender \<longrightarrow> beneath (Batches f) r)"
proof (cases "a_root (g_anchor g)")
  case True
  then have "anchor_covers (g_anchor g) (DomainR f)"
    using gi(2) wf(1) by (simp add: anchor_covers_root)
  moreover have "g_role g \<noteq> RoleSender"
    using gi(1) True by (auto simp: grant_issued_def anchor_kind_root scope_accepts_def anchor_kind_def)
  ultimately show ?thesis by simp
next
  case False
  have "anchor_kind (g_anchor g) = kindDomain"
    using gi(1) False by (auto simp: grant_issued_def isGrantable_def anchor_kind_root split: option.splits)
  then have ga: "anchor_wf (g_anchor g)" "length (a_segments (g_anchor g)) = 2"
    by (auto simp: anchor_kind_def split: if_splits)
  then obtain s1 s2 where s: "a_segments (g_anchor g) = [s1, s2]"
    by (auto simp: numeral_2_eq_2 length_Suc_conv)
  have "anchor_covers (g_anchor g) (DomainR f)"
    using g ga False wf by (auto simp: grants_on_def anchor_covers_def anchor_extend_def
        pattern_covers_iff r s DomainR_def split: if_splits)
  moreover have "g_role g = RoleSender \<Longrightarrow> beneath (Batches f) r"
    using g ga False by (cases ts) (auto simp: grants_on_def anchor_extend_def pattern_covers_iff r s
        beneath_def resource_defs split: if_splits)
  ultimately show ?thesis by simp
qed

lemma narrowed_ok: "narrowed_grant gs q n \<Longrightarrow> grant_ok n"
  by (auto simp: narrowed_grant_def narrowable_def grant_ok_def split: option.splits)

section \<open>Properties\<close>

text \<open>
  What an issued Grant means.  For a parsed Domain name, a Principal whose one Grant is a Role
  anchored on that Domain may: as admin, every Action on exactly the Domain and what is beneath it;
  as sender, exactly Create on the Domain's Batches; nothing at all under another Domain, and
  nothing on an ill-formed Resource.  A sender Grant cannot be issued on the root.
\<close>

theorem issued_authority:
  assumes "canonical_name f" and "NewGrant role (DomainAnchor f) = Inr g" and "p_grants p = [g]"
  shows "Can p a r =
       (resource_wf r \<and>
        (if role = RoleAdmin then beneath (DomainR f) r else a = Create \<and> beneath (Batches f) r)) \<and>
     (f' \<noteq> f \<longrightarrow> \<not> Can p a (under f' t)) \<and>
     \<not> is_ok (NewGrant RoleSender RootAnchor)"
proof -
  have g: "g = \<lparr>g_role = role, g_anchor = AnchorOf (DomainR f)\<rparr>" "grant_issued g"
    using assms(2) unfolding NewGrant_Inr_iff DomainAnchor_AnchorOf by blast+
  then have role: "role = RoleAdmin \<or> role = RoleSender"
    by (auto simp: grant_issued_def lookupRole_Some split: option.splits)
  have wf: "resource_wf (DomainR f)"
    using canonical_name_nonzero [OF assms(1)] by (auto simp: resource_wf_def DomainR_def seg_defs)
  have batches: "Resource (r_segments (DomainR f) @ [segBatches]) = Batches f"
    by (simp add: resource_defs)
  have can: "Can p a r \<longleftrightarrow> resource_wf r \<and>
      (if role = RoleAdmin then beneath (DomainR f) r else a = Create \<and> beneath (Batches f) r)" for a r
    using role wf by (auto simp: Can_grants_on assms(3) g grants_on_AnchorOf batches)
  have "beneath (Batches f) r \<Longrightarrow> beneath (DomainR f) r" for r
    by (auto simp: beneath_iff resource_defs)
  then have "f' \<noteq> f \<longrightarrow> \<not> Can p a (under f' t)"
    unfolding can using beneath_Domain by (metis (full_types))
  moreover have "\<not> is_ok (NewGrant RoleSender RootAnchor)"
    by (simp add: NewGrant_def scope_accepts_def isGrantable_def Let_def)
  ultimately show ?thesis by (simp add: can)
qed

lemma issued_authority_witness:
  "NewGrant RoleSender (DomainAnchor (DomainName ''k.dev'')) =
     Inr \<lparr>g_role = RoleSender, g_anchor = DomainAnchor (DomainName ''k.dev'')\<rparr> \<and>
   Can \<lparr>p_id = ''k'', p_grants = [\<lparr>g_role = RoleSender, g_anchor = DomainAnchor (DomainName ''k.dev'')\<rparr>],
        p_attribution = []\<rparr> Create (Batches (DomainName ''k.dev''))"
proof -
  have c: "canonical_name (DomainName ''k.dev'')" by code_simp
  have n: "NewGrant RoleSender (DomainAnchor (DomainName ''k.dev'')) =
      Inr \<lparr>g_role = RoleSender, g_anchor = DomainAnchor (DomainName ''k.dev'')\<rparr>"
    by (simp add: NewGrant_Inr_iff grant_issued_def isGrantable_def scope_accepts_def)
  show ?thesis
    using issued_authority [OF c n, of "\<lparr>p_id = ''k'', p_grants = [_], p_attribution = []\<rparr>" Create
        "Batches (DomainName ''k.dev'')"] n
    by (simp add: beneath_def resource_wf_def resource_defs seg_defs)
qed

text \<open>
  Authority is inherited downwards and only downwards from well-formed things: whoever may act on
  a Resource may act on every well-formed Resource beneath it, more Grants never take an Action
  away, and nobody may act on a Resource with an empty segment (the trace of a zero Domain name).
\<close>

theorem authority_monotone:
  "(Can p a q \<and> beneath q r \<and> resource_wf r \<and> set (p_grants p) \<subseteq> set (p_grants p') \<longrightarrow> Can p' a r) \<and>
   (\<not> resource_wf r \<longrightarrow> \<not> Can p a r)"
proof (intro conjI impI)
  assume "Can p a q \<and> beneath q r \<and> resource_wf r \<and> set (p_grants p) \<subseteq> set (p_grants p')"
  then show "Can p' a r"
    using Can_below [of p a q r] by (auto simp: Can_grants_on)
next
  assume "\<not> resource_wf r"
  then show "\<not> Can p a r" using grants_on_wf by (auto simp: Can_grants_on)
qed

definition root_admin :: Principal where
  "root_admin =
     \<lparr>p_id = ''admin'', p_grants = [\<lparr>g_role = RoleAdmin, g_anchor = RootAnchor\<rparr>], p_attribution = []\<rparr>"

lemma authority_monotone_witness:
  "Can root_admin Delete (APIKeys (DomainName ''k.dev'')) \<and>
   Can root_admin Delete (APIKeyR (DomainName ''k.dev'') ''key_1'')"
proof -
  have q: "Can root_admin Delete (APIKeys (DomainName ''k.dev''))" by code_simp
  have b: "beneath (APIKeys (DomainName ''k.dev'')) (APIKeyR (DomainName ''k.dev'') ''key_1'')" by code_simp
  have w: "resource_wf (APIKeyR (DomainName ''k.dev'') ''key_1'')" by code_simp
  show ?thesis
    using q b w authority_monotone [of root_admin Delete "APIKeys (DomainName ''k.dev'')"
        "APIKeyR (DomainName ''k.dev'') ''key_1''" root_admin]
    by blast
qed


definition sender_of :: "string \<Rightarrow> Principal" where
  "sender_of d =
     \<lparr>p_id = ''key'', p_grants = [\<lparr>g_role = RoleSender, g_anchor = DomainAnchor (DomainName d)\<rparr>],
      p_attribution = []\<rparr>"


text \<open>
  Narrowing to a Domain keeps everything held there: when every Grant is one that \<open>NewGrant\<close>
  issues on the root or on Domains, a Principal narrowed to a list of Resources holding a Domain may
  do beneath that Domain exactly what the original may.
\<close>

theorem Attenuate_exact_on_domains:
  assumes "list_all grant_issued (p_grants p)"
    and "list_all (\<lambda>g. a_root (g_anchor g) \<longrightarrow> a_segments (g_anchor g) = []) (p_grants p)"
    and "canonical_name f" and "DomainR f \<in> set rs" and "beneath (DomainR f) r"
  shows "Can (fst (Attenuate p rs)) a r = Can p a r"
proof
  have ok: "list_all grant_ok (p_grants p)"
    using assms(1) by (auto simp: list_all_iff grant_issued_ok)
  show "Can p a r" if "Can (fst (Attenuate p rs)) a r"
    using that narrowed_sound [OF _ _ ok] Attenuate_grants(1) [of p rs] by (auto simp: Can_grants_on)
  show "Can (fst (Attenuate p rs)) a r" if "Can p a r"
  proof -
    obtain g where g: "g \<in> set (p_grants p)" "grants_on g a r"
      using \<open>Can p a r\<close> by (auto simp: Can_grants_on)
    have gi: "grant_issued g" "a_root (g_anchor g) \<longrightarrow> a_segments (g_anchor g) = []"
      using g(1) assms(1,2) by (auto simp: list_all_iff)
    have wf: "resource_wf (DomainR f)" "resource_wf r"
      using canonical_name_nonzero [OF assms(3)] grants_on_wf [OF g(2)]
      by (auto simp: resource_wf_def DomainR_def seg_defs)
    obtain ts where r: "r_segments r = segDomains # dn_string f # ts"
      using assms(5) by (auto simp: beneath_iff DomainR_def)
    have covers: "anchor_covers (g_anchor g) (DomainR f) \<and>
        (g_role g = RoleSender \<longrightarrow> beneath (Batches f) r)"
      by (rule issued_covers_domain [OF gi g(2) wf r])
    have "anchor_kind (AnchorOf (DomainR f)) = kindDomain"
      using canonical_name_nonzero [OF assms(3)] by (simp add: anchor_kind_Domain DomainR_def)
    then have "narrowable g (DomainR f)"
      using gi(1) covers by (auto simp: narrowable_def grant_issued_def admitsNarrowingTo_def
          lookupRole_Some split: option.splits)
    then have "narrowed_grant (p_grants p) (DomainR f) \<lparr>g_role = g_role g, g_anchor = AnchorOf (DomainR f)\<rparr>"
      using g(1) by (auto simp: narrowed_grant_def)
    moreover have "grants_on \<lparr>g_role = g_role g, g_anchor = AnchorOf (DomainR f)\<rparr> a r"
    proof -
      have "Resource (r_segments (DomainR f) @ [segBatches]) = Batches f"
        by (simp add: resource_defs)
      then show ?thesis
        unfolding grants_on_AnchorOf using g(2) covers wf assms(5) by (auto simp: grants_on_def)
    qed
    ultimately show ?thesis
      using Attenuate_grants(1) [of p rs] assms(4) by (auto simp: Can_grants_on)
  qed
qed

lemma Attenuate_exact_on_domains_witness:
  "Can (fst (Attenuate root_admin [DomainR (DomainName ''k.dev'')])) Delete (StatsR (DomainName ''k.dev'')) =
   Can root_admin Delete (StatsR (DomainName ''k.dev''))"
  by (rule Attenuate_exact_on_domains [where f = "DomainName ''k.dev''"]; code_simp)

text \<open>
  C15. A guarded operation runs only when it may, and every call leaves exactly one record.  The
  operation's effect and result are those of its body when the context carries a Principal that may
  take the Action and, when it claims an Attribution, may attribute on that Resource; otherwise the
  state is untouched and the error says whether nobody was authenticated.  In each case one Decision
  is appended, and its outcome is what happened.
\<close>

theorem Guard_sound:
  "\<exists>d. Guard c a r f recs st =
        (if permitted c a r then (map_sum OpError id (fst (f st)), recs @ [d], snd (f st))
         else (Inl (AuthzError (if c_principal c = None then ErrNoPrincipal else ErrForbidden)), recs @ [d], st))
      \<and> d_action d = a \<and> d_resource d = r \<and> d_at d = c_now c \<and>
      (d_outcome d = Allowed) = permitted c a r \<and>
      (d_outcome d = NoPrincipal) = (c_principal c = None) \<and>
      (case c_principal c of Some p \<Rightarrow> d_principal d = p | None \<Rightarrow> d_principal d = zero_principal)"
proof -
  have m: "(case x of Inl e \<Rightarrow> Inl (OpError e) | Inr y \<Rightarrow> Inr y) = map_sum OpError id x" for x
    by (cases x) simp_all
  show ?thesis
    by (cases "c_principal c") (auto simp: Guard_cases m decision_def permitted_def)
qed

text \<open>
  A claim is bounded: an accepted Attribution is the trimmed input, 1 to 256 bytes of valid UTF-8
  without a control character, and parsing depends on the trimmed text alone.
\<close>

lemma ParseAttribution_bounded:
  "(ParseAttribution U s = Inr a) =
     (a = trim_space U s \<and> 0 < length a \<and> length a \<le> 256 \<and> valid_string a \<and>
      \<not> list_ex (\<lambda>r. is_control (fst r)) (runes a))"
  by (auto simp: ParseAttribution_def Let_def maxAttributionLength_def find_None_iff list_ex_iff
      split: option.splits if_splits simp: find_Some_iff)

end
