(* ===== verification/Batch.thy ===== *)
theory Batch
  imports Tracking
begin

text \<open>
  \<open>internal/batch\<close> and \<open>internal/db/batch_repo.go\<close>: the Batch entity, its identifier, the input
  description of a Recipient, and the repository over the \<open>messages\<close> table.  \<open>net/url.Parse\<close> is an
  argument returning scheme and host, or \<open>None\<close> for its error; the generated cuid is an argument of
  \<open>NewID\<close>; constraints of the table that depend on other tables are the argument \<open>adm\<close> of \<open>Create\<close>.
  A Go map is a partial function, and a nil map is \<open>None\<close>.
\<close>

type_synonym batch_id = string
type_synonym gomap = "(string \<rightharpoonup> string) option"

definition IDPrefix :: string where "IDPrefix = ''msg_''"

definition NewID :: "string \<Rightarrow> string \<Rightarrow> batch_id" where
  "NewID cuid domain = IDPrefix @ cuid @ ''@'' @ domain"

datatype id_error = IdRequired | IdNoPrefix | IdNoDomain

definition ParseID :: "string \<Rightarrow> id_error + batch_id" where
  "ParseID s =
     (if s = [] then Inl IdRequired
      else if \<not> has_prefix IDPrefix s then Inl IdNoPrefix
      else if \<not> contains ''@'' s then Inl IdNoDomain
      else Inr s)"

definition id_is_zero :: "batch_id \<Rightarrow> bool" where
  "id_is_zero i \<longleftrightarrow> i = []"

record Sender =
  sender_email :: string
  sender_alias :: string

record Headers =
  hdr_to :: "string list"
  hdr_cc :: "string list"

type_synonym OneClickUnsubscribe = string \<comment> \<open>the one field, URLTemplate\<close>

definition ocu_is_zero :: "OneClickUnsubscribe \<Rightarrow> bool" where
  "ocu_is_zero u \<longleftrightarrow> u = []"

datatype batch_error =
    DomainRequired | SubjectRequired | TemplateRequired | SenderRequired
  | UnsubInvalidURL | UnsubNotHttps string | UnsubNotAbsolute

type_synonym url_parser = "string \<Rightarrow> (string \<times> string) option"

definition ocu_validate :: "unicode \<Rightarrow> url_parser \<Rightarrow> OneClickUnsubscribe \<Rightarrow> batch_error + unit" where
  "ocu_validate U url_parse u =
     (if ocu_is_zero u then Inr ()
      else case url_parse u of
        None \<Rightarrow> Inl UnsubInvalidURL
      | Some (scheme, host) \<Rightarrow>
          if \<not> equal_fold U scheme ''https'' then Inl (UnsubNotHttps scheme)
          else if host = [] then Inl UnsubNotAbsolute
          else Inr ())"

record Batch =
  b_id :: batch_id
  b_subject :: string
  b_sender :: Sender
  b_template :: string
  b_domain :: string
  b_attachments :: gomap
  b_headers :: Headers
  b_unsubscribe :: OneClickUnsubscribe
  b_tracking :: policy

record BatchParams =
  np_domain :: string
  np_subject :: string
  np_sender :: Sender
  np_template :: string
  np_attachments :: gomap
  np_headers :: Headers
  np_unsubscribe :: OneClickUnsubscribe
  np_tracking :: policy

definition NewBatch :: "unicode \<Rightarrow> url_parser \<Rightarrow> string \<Rightarrow> BatchParams \<Rightarrow> batch_error + Batch" where
  "NewBatch U url_parse cuid p =
     (if np_domain p = [] then Inl DomainRequired
      else if np_subject p = [] then Inl SubjectRequired
      else if np_template p = [] then Inl TemplateRequired
      else if sender_email (np_sender p) = [] then Inl SenderRequired
      else case ocu_validate U url_parse (np_unsubscribe p) of
        Inl e \<Rightarrow> Inl e
      | Inr _ \<Rightarrow> Inr
          \<lparr>b_id = NewID cuid (np_domain p), b_subject = np_subject p, b_sender = np_sender p,
           b_template = np_template p, b_domain = np_domain p, b_attachments = np_attachments p,
           b_headers = np_headers p, b_unsubscribe = np_unsubscribe p, b_tracking = np_tracking p\<rparr>)"

section \<open>Recipients\<close>

record Recipient =
  rcp_email :: string
  rcp_fields :: gomap
  rcp_tracking :: policy

definition HasAddress :: "unicode \<Rightarrow> Recipient \<Rightarrow> bool" where
  "HasAddress U r \<longleftrightarrow> trim_space U (rcp_email r) \<noteq> []"

section \<open>The repository\<close>

text \<open>A row of \<open>messages\<close>; the unsubscribe URL travels inside the headers column, absent when zero.\<close>

record sqlc_headers =
  sh_to :: "string list"
  sh_cc :: "string list"
  sh_unsubscribe :: "string option"

record message_row =
  m_id :: string
  m_subject :: string
  m_sender_email :: string
  m_sender_alias :: string
  m_template :: string
  m_domain :: string
  m_attachments :: gomap
  m_headers :: sqlc_headers
  m_tracking :: policy

type_synonym messages = "string \<rightharpoonup> message_row"

definition toSQLCAttachments :: "gomap \<Rightarrow> gomap" where
  "toSQLCAttachments a = (case a of None \<Rightarrow> Some Map.empty | Some m \<Rightarrow> Some m)"

definition fromSQLCAttachments :: "gomap \<Rightarrow> gomap" where
  "fromSQLCAttachments a = (case a of None \<Rightarrow> None | Some m \<Rightarrow> Some m)"

definition toSQLCHeaders :: "Headers \<Rightarrow> OneClickUnsubscribe \<Rightarrow> sqlc_headers" where
  "toSQLCHeaders h u =
     \<lparr>sh_to = hdr_to h, sh_cc = hdr_cc h, sh_unsubscribe = (if \<not> ocu_is_zero u then Some u else None)\<rparr>"

definition fromSQLCHeaders :: "sqlc_headers \<Rightarrow> Headers" where
  "fromSQLCHeaders h = \<lparr>hdr_to = sh_to h, hdr_cc = sh_cc h\<rparr>"

definition fromSQLCUnsubscribe :: "sqlc_headers \<Rightarrow> OneClickUnsubscribe" where
  "fromSQLCUnsubscribe h = (case sh_unsubscribe h of None \<Rightarrow> [] | Some u \<Rightarrow> u)"

definition batch_row :: "Batch \<Rightarrow> message_row" where
  "batch_row b =
     \<lparr>m_id = b_id b, m_subject = b_subject b, m_sender_email = sender_email (b_sender b),
      m_sender_alias = sender_alias (b_sender b), m_template = b_template b, m_domain = b_domain b,
      m_attachments = toSQLCAttachments (b_attachments b),
      m_headers = toSQLCHeaders (b_headers b) (b_unsubscribe b), m_tracking = b_tracking b\<rparr>"

definition rowToBatch :: "message_row \<Rightarrow> Batch" where
  "rowToBatch r =
     \<lparr>b_id = m_id r, b_subject = m_subject r,
      b_sender = \<lparr>sender_email = m_sender_email r, sender_alias = m_sender_alias r\<rparr>,
      b_template = m_template r, b_domain = m_domain r,
      b_attachments = fromSQLCAttachments (m_attachments r), b_headers = fromSQLCHeaders (m_headers r),
      b_unsubscribe = fromSQLCUnsubscribe (m_headers r), b_tracking = m_tracking r\<rparr>"

datatype batch_repo_error = ErrBatchNotFound | BatchDbError

definition batch_create :: "(message_row \<Rightarrow> bool) \<Rightarrow> Batch \<Rightarrow> messages \<Rightarrow> (batch_repo_error + unit) \<times> messages" where
  "batch_create adm b t =
     (let row = batch_row b in
      if t (m_id row) \<noteq> None \<or> \<not> adm row then (Inl BatchDbError, t)
      else (Inr (), t(m_id row \<mapsto> row)))"

definition batch_get :: "batch_id \<Rightarrow> messages \<Rightarrow> batch_repo_error + Batch" where
  "batch_get i t = (case t i of None \<Rightarrow> Inl ErrBatchNotFound | Some row \<Rightarrow> Inr (rowToBatch row))"

lemma rowToBatch_batch_row:
  "rowToBatch (batch_row b) = b\<lparr>b_attachments := Some (case b_attachments b of None \<Rightarrow> Map.empty | Some m \<Rightarrow> m)\<rparr>"
  by (cases b) (auto simp: rowToBatch_def batch_row_def fromSQLCAttachments_def toSQLCAttachments_def
      toSQLCHeaders_def fromSQLCHeaders_def fromSQLCUnsubscribe_def ocu_is_zero_def split: option.splits
      intro: Sender.equality Headers.equality)

lemma NewID_parse: "ParseID (NewID cuid d) = Inr (NewID cuid d)"
  by (simp add: ParseID_def NewID_def IDPrefix_def has_prefix_def)

text \<open>
  A Batch is built only from complete parameters and is stored as stated: \<open>New\<close> succeeds exactly
  when the four required fields are present and the unsubscribe URL is absent or absolute https; its
  identifier parses; and after a successful \<open>Create\<close> the repository returns that Batch under that
  identifier with every field as stated (a nil attachment map comes back empty, an unstated Mode stays
  unstated), returns every other Batch as before, and refuses a second \<open>Create\<close>.
\<close>

theorem batch_stored_as_stated:
  assumes "NewBatch U up cuid p = Inr b" and "batch_create adm b t = (Inr (), t')"
  shows "np_domain p \<noteq> [] \<and> np_subject p \<noteq> [] \<and> np_template p \<noteq> [] \<and> sender_email (np_sender p) \<noteq> [] \<and>
     is_ok (ocu_validate U up (np_unsubscribe p)) \<and>
     ParseID (b_id b) = Inr (b_id b) \<and>
     batch_get (b_id b) t' =
       Inr (b\<lparr>b_attachments := Some (case np_attachments p of None \<Rightarrow> Map.empty | Some m \<Rightarrow> m)\<rparr>) \<and>
     b_tracking b = np_tracking p \<and>
     (\<forall>i. i \<noteq> b_id b \<longrightarrow> batch_get i t' = batch_get i t) \<and>
     batch_create adm b t' = (Inl BatchDbError, t')"
proof -
  have new: "np_domain p \<noteq> [] \<and> np_subject p \<noteq> [] \<and> np_template p \<noteq> [] \<and> sender_email (np_sender p) \<noteq> []
      \<and> is_ok (ocu_validate U up (np_unsubscribe p))"
    and b: "b_id b = NewID cuid (np_domain p)" "b_attachments b = np_attachments p" "b_tracking b = np_tracking p"
    using assms(1) by (auto simp: NewBatch_def split: if_splits sum.splits)
  have t': "t' = t(b_id b \<mapsto> batch_row b)"
    using assms(2) by (auto simp: batch_create_def Let_def batch_row_def split: if_splits)
  have again: "batch_create adm b t' = (Inl BatchDbError, t')"
    by (simp add: batch_create_def t' batch_row_def)
  show ?thesis
    using new b again by (simp add: t' batch_get_def NewID_parse rowToBatch_batch_row)
qed

definition example_params :: BatchParams where
  "example_params =
     \<lparr>np_domain = ''k.dev'', np_subject = ''hi'', np_sender = \<lparr>sender_email = ''a@k.dev'', sender_alias = ''A''\<rparr>,
      np_template = ''t1'', np_attachments = None, np_headers = \<lparr>hdr_to = [], hdr_cc = []\<rparr>,
      np_unsubscribe = '''', np_tracking = zero_policy\<rparr>"

lemma batch_stored_as_stated_witness:
  "\<exists>b t'. NewBatch no_unicode (\<lambda>_. None) ''c'' example_params = Inr b \<and>
     batch_create (\<lambda>_. True) b Map.empty = (Inr (), t') \<and> b_id b = ''msg_c@k.dev'' \<and>
     batch_get (b_id b) t' = Inr (b\<lparr>b_attachments := Some Map.empty\<rparr>)"
proof -
  obtain b where b: "NewBatch no_unicode (\<lambda>_. None) ''c'' example_params = Inr b" "b_id b = ''msg_c@k.dev''"
    by (simp add: NewBatch_def example_params_def ocu_validate_def ocu_is_zero_def NewID_def IDPrefix_def)
  obtain t' where t: "batch_create (\<lambda>_. True) b Map.empty = (Inr (), t')"
    by (simp add: batch_create_def Let_def)
  show ?thesis
    using b t batch_stored_as_stated [OF b(1) t] by (auto simp: example_params_def)
qed

end
