(* ===== verification/Delivery.thy ===== *)
theory Delivery
  imports Batch "HOL-Library.Word"
begin

text \<open>
  \<open>internal/delivery/backoff.go\<close> and \<open>delivery.go\<close>: the Delivery entity, its backoff curve and the
  Retry Budget.  \<open>time.Duration\<close> is a signed 64-bit integer, so a \<open>64 word\<close> read by \<open>sint\<close>, and the
  multiplication of \<open>Delay\<close> wraps; \<open>time.Time\<close> is an integer of nanoseconds.  The conversion of a float
  outside the 64-bit range to an integer is left open by Go and is the argument \<open>oor\<close>.  A
  \<open>BackoffPolicy\<close> is its one method, and a nil policy is \<open>None\<close>.
\<close>

type_synonym duration = "64 word"
type_synonym BackoffPolicy = "int \<Rightarrow> duration"

definition minute :: duration where "minute = 60000000000"
definition hour :: duration where "hour = 60 * minute"

record ExponentialBackoff =
  eb_base :: duration
  eb_min :: duration

text \<open>\<open>time.Duration(math.Pow(2, float64(attempts)))\<close>: exact powers up to \<open>2^62\<close>, a fraction below 1.\<close>

definition pow2_duration :: "(int \<Rightarrow> duration) \<Rightarrow> int \<Rightarrow> duration" where
  "pow2_duration oor attempts =
     (if attempts < 0 then 0 else if attempts \<le> 62 then 2 ^ nat attempts else oor attempts)"

definition Delay :: "(int \<Rightarrow> duration) \<Rightarrow> ExponentialBackoff \<Rightarrow> BackoffPolicy" where
  "Delay oor e attempts =
     (let delay = eb_base e * pow2_duration oor attempts in
      if sint delay < sint (eb_min e) then eb_min e else delay)"

definition default_curve :: ExponentialBackoff where
  "default_curve = \<lparr>eb_base = 2 * minute, eb_min = 5 * minute\<rparr>"

definition DefaultBackoff :: "(int \<Rightarrow> duration) \<Rightarrow> BackoffPolicy" where
  "DefaultBackoff oor = Delay oor default_curve"

definition DefaultRetryWindow :: duration where
  "DefaultRetryWindow = 24 * hour"

record Delivery =
  dl_batch :: batch_id
  dl_email :: string
  dl_fields :: gomap
  dl_attempts :: int
  dl_domain :: string
  dl_scheduled :: go_time
  dl_original :: go_time
  dl_backoff :: BackoffPolicy
  dl_window :: duration
  dl_tracking :: policy

record DeliveryParams =
  dp_batch :: batch_id
  dp_email :: string
  dp_fields :: gomap
  dp_domain :: string
  dp_scheduled :: go_time
  dp_backoff :: "BackoffPolicy option"
  dp_window :: duration
  dp_tracking :: policy

datatype delivery_param_error = BatchIdRequired | EmailRequired | DeliveryDomainRequired

definition policyOrDefault :: "(int \<Rightarrow> duration) \<Rightarrow> BackoffPolicy option \<Rightarrow> BackoffPolicy" where
  "policyOrDefault oor p = (case p of None \<Rightarrow> DefaultBackoff oor | Some b \<Rightarrow> b)"

definition windowOrDefault :: "duration \<Rightarrow> duration" where
  "windowOrDefault w = (if sint w \<le> 0 then DefaultRetryWindow else w)"

definition NewDelivery :: "(int \<Rightarrow> duration) \<Rightarrow> DeliveryParams \<Rightarrow> delivery_param_error + Delivery" where
  "NewDelivery oor p =
     (if id_is_zero (dp_batch p) then Inl BatchIdRequired
      else if dp_email p = [] then Inl EmailRequired
      else if dp_domain p = [] then Inl DeliveryDomainRequired
      else Inr
        \<lparr>dl_batch = dp_batch p, dl_email = dp_email p, dl_fields = dp_fields p, dl_attempts = 0,
         dl_domain = dp_domain p, dl_scheduled = dp_scheduled p, dl_original = dp_scheduled p,
         dl_backoff = policyOrDefault oor (dp_backoff p), dl_window = windowOrDefault (dp_window p),
         dl_tracking = Normalized (dp_tracking p)\<rparr>)"

record LoadParams =
  lp_batch :: batch_id
  lp_email :: string
  lp_fields :: gomap
  lp_attempts :: int
  lp_domain :: string
  lp_scheduled :: go_time
  lp_original :: go_time
  lp_backoff :: "BackoffPolicy option"
  lp_window :: duration
  lp_tracking :: policy

definition LoadDelivery :: "(int \<Rightarrow> duration) \<Rightarrow> LoadParams \<Rightarrow> Delivery" where
  "LoadDelivery oor p =
     \<lparr>dl_batch = lp_batch p, dl_email = lp_email p, dl_fields = lp_fields p,
      dl_attempts = lp_attempts p, dl_domain = lp_domain p, dl_scheduled = lp_scheduled p,
      dl_original = lp_original p, dl_backoff = policyOrDefault oor (lp_backoff p),
      dl_window = windowOrDefault (lp_window p), dl_tracking = lp_tracking p\<rparr>"

definition NextRetryAt :: "Delivery \<Rightarrow> go_time" where
  "NextRetryAt d = dl_original d + sint (dl_backoff d (dl_attempts d))"

definition CanRetry :: "Delivery \<Rightarrow> bool" where
  "CanRetry d \<longleftrightarrow> NextRetryAt d < dl_original d + sint (dl_window d)"

section \<open>The curve\<close>

lemma CanRetry_clockless:
  "CanRetry d \<longleftrightarrow> sint (dl_backoff d (dl_attempts d)) < sint (dl_window d)"
  by (simp add: CanRetry_def NextRetryAt_def)

lemma windowOrDefault_positive: "0 < sint (windowOrDefault w)"
  by (auto simp: windowOrDefault_def) (code_simp)

lemma Delay_at_least_min: "sint (eb_min e) \<le> sint (Delay oor e n)"
  by (simp add: Delay_def Let_def)

lemma signed_take_bit_small: "0 \<le> x \<Longrightarrow> x < 2 ^ 63 \<Longrightarrow> signed_take_bit 63 x = (x :: int)"
  by (rule signed_take_bit_int_eq_self) (rule order_trans [of _ 0], simp_all)

lemma sint_mult_small:
  fixes a b :: duration
  assumes "0 \<le> sint a" and "0 \<le> sint b" and "sint a * sint b < 2 ^ 63"
  shows "sint (a * b) = sint a * sint b"
proof -
  have "sint (a * b) = signed_take_bit 63 (sint a * sint b)"
    by (simp add: sint_word_ariths)
  also have "\<dots> = sint a * sint b"
    using assms by (intro signed_take_bit_small mult_nonneg_nonneg)
  finally show ?thesis .
qed

lemma sint_pow2: "n \<le> 62 \<Longrightarrow> sint (2 ^ n :: duration) = 2 ^ n"
proof -
  assume "n \<le> 62"
  then have lt: "(2::int) ^ n < 2 ^ 63" by (intro power_strict_increasing) simp_all
  have "sint (word_of_int (2 ^ n) :: duration) = signed_take_bit 63 (2 ^ n)"
    by (simp only: sint_sbintrunc') simp
  also have "\<dots> = 2 ^ n"
    using lt by (intro signed_take_bit_small) simp_all
  finally show ?thesis by simp
qed

lemma Delay_unwrapped:
  assumes "0 \<le> n" and "n \<le> 62" and "0 \<le> sint (eb_base e)" and "sint (eb_base e) * 2 ^ nat n < 2 ^ 63"
  shows "sint (Delay oor e n) = max (sint (eb_min e)) (sint (eb_base e) * 2 ^ nat n)"
proof -
  have "sint (2 ^ nat n :: duration) = 2 ^ nat n"
    using assms(1,2) by (intro sint_pow2) simp
  then have "sint (eb_base e * 2 ^ nat n) = sint (eb_base e) * 2 ^ nat n"
    using assms(3,4) by (subst sint_mult_small) simp_all
  then show ?thesis using assms(1,2) by (simp add: Delay_def pow2_duration_def Let_def max_def)
qed

lemma default_curve_unwrapped:
  assumes "0 \<le> n" and "n \<le> 26"
  shows "sint (DefaultBackoff oor n) = max 300000000000 (120000000000 * 2 ^ nat n)"
proof -
  have base: "sint (eb_base default_curve) = 120000000000" "sint (eb_min default_curve) = 300000000000"
    by code_simp+
  have "(2::int) ^ nat n \<le> 2 ^ 26" using assms by (intro power_increasing) simp_all
  then show ?thesis
    unfolding DefaultBackoff_def using assms by (subst Delay_unwrapped) (simp_all add: base)
qed

text \<open>
  The backoff curve: as long as the product fits in 63 bits, the delay before attempt \<open>n\<close> is
  \<open>max min (base * 2^n)\<close>, so it never falls below the floor, and it does not decrease with the
  attempts; the decision to retry compares that delay with the window and depends neither on a clock
  nor on the scheduled time.
\<close>

theorem backoff_curve:
  assumes "0 \<le> m" and "m \<le> n" and "n \<le> 62" and "0 \<le> sint (eb_base e)"
    and "sint (eb_base e) * 2 ^ nat n < 2 ^ 63" and "dl_backoff d = Delay oor e" and "dl_attempts d = n"
  shows "sint (Delay oor e n) = max (sint (eb_min e)) (sint (eb_base e) * 2 ^ nat n) \<and>
     sint (Delay oor e m) \<le> sint (Delay oor e n) \<and>
     CanRetry d = (max (sint (eb_min e)) (sint (eb_base e) * 2 ^ nat n) < sint (dl_window d)) \<and>
     CanRetry d = CanRetry (d\<lparr>dl_scheduled := t, dl_original := t'\<rparr>)"
proof -
  have n: "sint (Delay oor e n) = max (sint (eb_min e)) (sint (eb_base e) * 2 ^ nat n)"
    using assms by (intro Delay_unwrapped) simp_all
  have pow: "(2::int) ^ nat m \<le> 2 ^ nat n" using assms(1,2) by (intro power_increasing) simp_all
  then have le: "sint (eb_base e) * 2 ^ nat m \<le> sint (eb_base e) * 2 ^ nat n"
    using assms(4) by (intro mult_left_mono) simp_all
  then have "sint (Delay oor e m) = max (sint (eb_min e)) (sint (eb_base e) * 2 ^ nat m)"
    using assms by (intro Delay_unwrapped) simp_all
  then show ?thesis
    using n le assms(6,7) by (simp add: CanRetry_clockless)
qed

definition example_delivery :: "int \<Rightarrow> Delivery" where
  "example_delivery n =
     \<lparr>dl_batch = ''msg_c@k.dev'', dl_email = ''r@x.org'', dl_fields = None, dl_attempts = n,
      dl_domain = ''k.dev'', dl_scheduled = 0, dl_original = 0, dl_backoff = DefaultBackoff (\<lambda>_. 0),
      dl_window = DefaultRetryWindow, dl_tracking = zero_policy\<rparr>"

lemma backoff_curve_witness:
  "sint (Delay (\<lambda>_. 0) default_curve 9) = 61440000000000 \<and> CanRetry (example_delivery 9)"
proof -
  have base: "sint (eb_base default_curve) = 120000000000" "sint (eb_min default_curve) = 300000000000"
    "sint DefaultRetryWindow = 86400000000000"
    by code_simp+
  show ?thesis
    using backoff_curve [of 1 9 default_curve "example_delivery 9" "\<lambda>_. 0"]
    by (simp add: base example_delivery_def DefaultBackoff_def)
qed

text \<open>
  The Retry Budget of a Delivery with the default curve and window admits exactly the first ten
  attempts counts (0 to 9) up to a count of 26, as the comment on \<open>CanRetry\<close> says; at 27 and 28 the
  product wraps to a negative duration, the floor of five minutes is returned, and the exhausted
  Delivery may be retried again.
\<close>

theorem default_budget:
  assumes "0 \<le> dl_attempts d" and "dl_attempts d \<le> 28"
    and "dl_backoff d = DefaultBackoff oor" and "dl_window d = DefaultRetryWindow"
  shows "CanRetry d = (dl_attempts d \<le> 9 \<or> 27 \<le> dl_attempts d)"
proof -
  let ?n = "dl_attempts d"
  have w: "sint DefaultRetryWindow = 86400000000000" by code_simp
  consider "?n \<le> 9" | "10 \<le> ?n" "?n \<le> 26" | "?n = 27" | "?n = 28" using assms(2) by linarith
  then show ?thesis
  proof cases
    case 1
    then have "(2::int) ^ nat ?n \<le> 2 ^ 9" using assms(1) by (intro power_increasing) simp_all
    then show ?thesis using 1 assms default_curve_unwrapped [of ?n oor] by (simp add: CanRetry_clockless w)
  next
    case 2
    then have "(2::int) ^ 10 \<le> 2 ^ nat ?n" by (intro power_increasing) simp_all
    then show ?thesis using 2 assms default_curve_unwrapped [of ?n oor] by (simp add: CanRetry_clockless w)
  next
    case 3
    have "DefaultBackoff oor 27 = 5 * minute"
      by (simp add: DefaultBackoff_def Delay_def pow2_duration_def default_curve_def minute_def)
    then show ?thesis using 3 assms w by (simp add: CanRetry_clockless minute_def)
  next
    case 4
    have "DefaultBackoff oor 28 = 5 * minute"
      by (simp add: DefaultBackoff_def Delay_def pow2_duration_def default_curve_def minute_def)
    then show ?thesis using 4 assms w by (simp add: CanRetry_clockless minute_def)
  qed
qed

lemma default_budget_witness:
  "\<not> CanRetry (example_delivery 10) \<and> CanRetry (example_delivery 27)"
  using default_budget [of "example_delivery 10" "\<lambda>_. 0"] default_budget [of "example_delivery 27" "\<lambda>_. 0"]
  by (simp add: example_delivery_def)

end
