(* ===== verification/Contracts.thy ===== *)
theory Contracts
  imports Prelude
begin

text \<open>
  The interfaces the components rely on, as locales: a keyed store of retryable entries (what
  \<open>delivery.Repository\<close> promises per Delivery), a queue whose entries are claimed (what its two
  \<open>Prepare\<close> operations promise), an append-only log that keeps one entry per event, and a worker that goes
  through a page of claimed entries.  The clients' lemmas are proved here once, from the laws alone.
\<close>

datatype 'k command = Mark 'k | Retry 'k | Drop 'k

fun command_key :: "'k command \<Rightarrow> 'k" where
  "command_key (Mark k) = k"
| "command_key (Retry k) = k"
| "command_key (Drop k) = k"

definition run_command ::
  "('k \<Rightarrow> 's \<Rightarrow> 's) \<Rightarrow> ('k \<Rightarrow> 's \<Rightarrow> ('e + unit) \<times> 's) \<Rightarrow> ('k \<Rightarrow> 's \<Rightarrow> 's) \<Rightarrow> 'k command \<Rightarrow> 's \<Rightarrow> 's" where
  "run_command mark retry drp c s =
     (case c of Mark k \<Rightarrow> mark k s | Retry k \<Rightarrow> snd (retry k s) | Drop k \<Rightarrow> drp k s)"

definition run_commands ::
  "('k \<Rightarrow> 's \<Rightarrow> 's) \<Rightarrow> ('k \<Rightarrow> 's \<Rightarrow> ('e + unit) \<times> 's) \<Rightarrow> ('k \<Rightarrow> 's \<Rightarrow> 's) \<Rightarrow> 'k command list \<Rightarrow> 's \<Rightarrow> 's" where
  "run_commands mark retry drp cs s = fold (run_command mark retry drp) cs s"

definition retries :: "'k \<Rightarrow> 'k command list \<Rightarrow> nat" where
  "retries k cs = length (filter (\<lambda>c. c = Retry k) cs)"

locale retry_store =
  fixes inv :: "'s \<Rightarrow> bool"
    and look :: "'s \<Rightarrow> 'k \<Rightarrow> 'r option"
    and mark :: "'k \<Rightarrow> 's \<Rightarrow> 's"
    and retry :: "'k \<Rightarrow> 's \<Rightarrow> ('e + unit) \<times> 's"
    and drp :: "'k \<Rightarrow> 's \<Rightarrow> 's"
    and attempts :: "'r \<Rightarrow> int"
  assumes inv_mark: "inv s \<Longrightarrow> inv (mark k s)"
    and inv_retry: "inv s \<Longrightarrow> inv (snd (retry k s))"
    and inv_drop: "inv s \<Longrightarrow> inv (drp k s)"
    and mark_other: "inv s \<Longrightarrow> k' \<noteq> k \<Longrightarrow> look (mark k s) k' = look s k'"
    and retry_other: "inv s \<Longrightarrow> k' \<noteq> k \<Longrightarrow> look (snd (retry k s)) k' = look s k'"
    and drop_other: "inv s \<Longrightarrow> k' \<noteq> k \<Longrightarrow> look (drp k s) k' = look s k'"
    and drop_gone: "inv s \<Longrightarrow> look (drp k s) k = None"
    and mark_missing: "inv s \<Longrightarrow> look s k = None \<Longrightarrow> look (mark k s) k = None"
    and retry_missing: "inv s \<Longrightarrow> look s k = None \<Longrightarrow> look (snd (retry k s)) k = None"
    and mark_attempts: "inv s \<Longrightarrow> look s k = Some r \<Longrightarrow> \<exists>r'. look (mark k s) k = Some r' \<and> attempts r' = attempts r"
    and retry_attempts: "inv s \<Longrightarrow> look s k = Some r \<Longrightarrow>
      \<exists>r'. look (snd (retry k s)) k = Some r' \<and> attempts r' = attempts r + 1"
begin

abbreviation run :: "'k command list \<Rightarrow> 's \<Rightarrow> 's" where
  "run \<equiv> run_commands mark retry drp"

lemma run_simps [simp]:
  "run [] s = s"
  "run (c # cs) s = run cs (run_command mark retry drp c s)"
  by (simp_all add: run_commands_def)

lemma command_inv: "inv s \<Longrightarrow> inv (run_command mark retry drp c s)"
  by (cases c) (simp_all add: run_command_def inv_mark inv_retry inv_drop)

lemma run_inv: "inv s \<Longrightarrow> inv (run cs s)"
  by (induction cs arbitrary: s) (simp_all add: command_inv)

lemma run_frame:
  "inv s \<Longrightarrow> (\<And>c. c \<in> set cs \<Longrightarrow> command_key c \<noteq> k) \<Longrightarrow> look (run cs s) k = look s k"
proof (induction cs arbitrary: s)
  case (Cons c cs)
  have "look (run_command mark retry drp c s) k = look s k"
    using Cons.prems(2) [of c] Cons.prems(1)
    by (cases c) (simp_all add: run_command_def mark_other retry_other drop_other)
  then show ?case using Cons by (simp add: command_inv)
qed simp

text \<open>No command brings an entry back once it is gone.\<close>

lemma run_gone: "inv s \<Longrightarrow> look s k = None \<Longrightarrow> look (run cs s) k = None"
proof (induction cs arbitrary: s)
  case (Cons c cs)
  have "look (run_command mark retry drp c s) k = None"
    using Cons.prems mark_missing [of s k] retry_missing [of s k]
    by (cases c; cases "command_key c = k")
       (simp_all add: run_command_def mark_other retry_other drop_other drop_gone)
  then show ?case using Cons by (simp add: command_inv)
qed simp

lemma run_after_drop: "inv s \<Longrightarrow> look (run (Drop k # cs) s) k = None"
  by (simp add: run_command_def inv_drop drop_gone run_gone)

text \<open>The attempts of an entry that survives count the retries, and nothing else.\<close>

lemma run_attempts:
  "inv s \<Longrightarrow> look s k = Some r \<Longrightarrow> look (run cs s) k = Some r' \<Longrightarrow> attempts r' = attempts r + int (retries k cs)"
proof (induction cs arbitrary: s r)
  case Nil
  then show ?case by (simp add: retries_def)
next
  case (Cons c cs)
  let ?s = "run_command mark retry drp c s"
  have inv': "inv ?s" using Cons.prems(1) by (rule command_inv)
  have "look ?s k \<noteq> None" using Cons.prems(3) run_gone [OF inv', of k cs] by (metis option.distinct(1) run_simps(2))
  then obtain r1 where r1: "look ?s k = Some r1" by auto
  have "attempts r1 = attempts r + int (retries k [c])"
    using Cons.prems(1,2) r1 mark_attempts [of s k r] retry_attempts [of s k r]
    by (cases c; cases "command_key c = k")
       (auto simp: run_command_def retries_def mark_other retry_other drop_other drop_gone)
  moreover have "attempts r' = attempts r1 + int (retries k cs)"
    using Cons.IH [OF inv' r1] Cons.prems(3) by simp
  ultimately show ?case by (simp add: retries_def)
qed

end

section \<open>Claims\<close>

text \<open>The results of a sequence of claims, and the final state.\<close>

fun run_claims :: "('p \<Rightarrow> 's \<Rightarrow> 'r list \<times> 's) \<Rightarrow> 'p list \<Rightarrow> 's \<Rightarrow> 'r list \<times> 's" where
  "run_claims claim [] s = ([], s)"
| "run_claims claim (p # ps) s =
     (let (out, s') = claim p s; (outs, s'') = run_claims claim ps s' in (out @ outs, s''))"

locale claim_queue =
  fixes inv :: "'s \<Rightarrow> bool"
    and look :: "'s \<Rightarrow> 'k \<Rightarrow> 'r option"
    and okp :: "'p \<Rightarrow> bool"
    and claim :: "'p \<Rightarrow> 's \<Rightarrow> 'r list \<times> 's"
    and key :: "'r \<Rightarrow> 'k"
    and available :: "'r \<Rightarrow> bool"
  assumes claim_inv: "okp p \<Longrightarrow> inv s \<Longrightarrow> claim p s = (out, s') \<Longrightarrow> inv s'"
    and claim_out: "okp p \<Longrightarrow> inv s \<Longrightarrow> claim p s = (out, s') \<Longrightarrow> r \<in> set out \<Longrightarrow>
      (\<exists>r0. look s (key r) = Some r0 \<and> available r0) \<and> look s' (key r) = Some r \<and> \<not> available r"
    and claim_distinct: "okp p \<Longrightarrow> inv s \<Longrightarrow> claim p s = (out, s') \<Longrightarrow> distinct (map key out)"
    and claim_frame: "okp p \<Longrightarrow> inv s \<Longrightarrow> claim p s = (out, s') \<Longrightarrow> k \<notin> key ` set out \<Longrightarrow> look s' k = look s k"
begin

lemma claims_taken:
  "list_all okp ps \<Longrightarrow> inv s \<Longrightarrow> run_claims claim ps s = (outs, s') \<Longrightarrow>
     inv s' \<and> distinct (map key outs) \<and>
     (\<forall>r\<in>set outs. look s' (key r) = Some r \<and> \<not> available r \<and> (\<exists>r0. look s (key r) = Some r0 \<and> available r0)) \<and>
     (\<forall>k. k \<notin> key ` set outs \<longrightarrow> look s' k = look s k)"
proof (induction ps arbitrary: s outs)
  case Nil
  then show ?case by auto
next
  case (Cons p ps)
  obtain out s1 where c: "claim p s = (out, s1)" by fastforce
  obtain outs1 where cs: "run_claims claim ps s1 = (outs1, s')" and eq: "outs = out @ outs1"
    using Cons.prems(3) c by (auto split: prod.splits)
  have okp: "okp p" using Cons.prems(1) by simp
  note c1 = claim_inv [OF okp Cons.prems(2) c] claim_out [OF okp Cons.prems(2) c]
    claim_distinct [OF okp Cons.prems(2) c] claim_frame [OF okp Cons.prems(2) c]
  have IH: "inv s'" "distinct (map key outs1)"
    "\<forall>r\<in>set outs1. look s' (key r) = Some r \<and> \<not> available r \<and> (\<exists>r0. look s1 (key r) = Some r0 \<and> available r0)"
    "\<forall>k. k \<notin> key ` set outs1 \<longrightarrow> look s' k = look s1 k"
    using Cons.IH [OF _ c1(1) cs] Cons.prems(1) by auto
  have disj: "key ` set out \<inter> key ` set outs1 = {}"
  proof (rule ccontr)
    assume "key ` set out \<inter> key ` set outs1 \<noteq> {}"
    then obtain r q where "r \<in> set out" "q \<in> set outs1" "key r = key q" by auto
    then show False using c1(2) [of r] IH(3) by force
  qed
  have new: "look s' (key r) = Some r \<and> \<not> available r \<and> (\<exists>r0. look s (key r) = Some r0 \<and> available r0)"
    if "r \<in> set out" for r
    using c1(2) [OF that] IH(4) disj that by (metis disjoint_iff image_eqI)
  have later: "look s' (key r) = Some r \<and> \<not> available r \<and> (\<exists>r0. look s (key r) = Some r0 \<and> available r0)"
    if "r \<in> set outs1" for r
    using IH(3) that c1(4) [of "key r"] disj by (metis disjoint_iff image_eqI)
  have frame: "look s' k = look s k" if "k \<notin> key ` set (out @ outs1)" for k
  proof -
    have "k \<notin> key ` set out" "k \<notin> key ` set outs1" using that by auto
    then show ?thesis using IH(4) c1(4) by simp
  qed
  show ?case
    unfolding eq using IH(1,2) c1(3) disj new later frame by simp blast
qed

end

section \<open>A log of events kept once each\<close>

locale event_log =
  fixes inv :: "'s \<Rightarrow> bool"
    and log :: "'s \<Rightarrow> 'e list"
    and norm :: "'x \<Rightarrow> 'e"
    and ekey :: "'e \<Rightarrow> 'k"
    and ins :: "'x \<Rightarrow> 's \<Rightarrow> 's"
  assumes ins_inv: "inv s \<Longrightarrow> inv (ins x s)"
    and ins_log: "inv s \<Longrightarrow>
      log (ins x s) = (if ekey (norm x) \<in> ekey ` set (log s) then log s else log s @ [norm x])"
begin

lemma ins_all_inv: "inv s \<Longrightarrow> inv (fold ins xs s)"
  by (induction xs arbitrary: s) (simp_all add: ins_inv)

text \<open>Whatever the order and the repetitions, the log holds each event once.\<close>

lemma ins_all_keys:
  "inv s \<Longrightarrow> ekey ` set (log (fold ins xs s)) = ekey ` set (log s) \<union> (\<lambda>x. ekey (norm x)) ` set xs"
proof (induction xs arbitrary: s)
  case (Cons x xs)
  have "ekey ` set (log (ins x s)) = insert (ekey (norm x)) (ekey ` set (log s))"
    using Cons.prems by (auto simp: ins_log)
  then show ?case using Cons by (simp add: ins_inv)
qed simp

lemma ins_all_distinct:
  "inv s \<Longrightarrow> distinct (map ekey (log s)) \<Longrightarrow> distinct (map ekey (log (fold ins xs s)))"
proof (induction xs arbitrary: s)
  case (Cons x xs)
  have "distinct (map ekey (log (ins x s)))"
    using Cons.prems by (simp add: ins_log)
  then show ?case using Cons by (simp add: ins_inv)
qed simp

lemma ins_again: "inv s \<Longrightarrow> x \<in> set xs \<Longrightarrow> log (ins x (fold ins xs s)) = log (fold ins xs s)"
  by (simp add: ins_log ins_all_inv ins_all_keys)

end

section \<open>A page of entries handled one after the other\<close>

text \<open>
  Each step settles the entry it is given and touches no other; a verdict once reached stands as long as
  its entry is not touched again.  So a page of distinct entries is settled whole, whatever happens to
  each of them.
\<close>

locale page_worker =
  fixes inv :: "'w \<Rightarrow> bool"
    and look :: "'w \<Rightarrow> 'k \<Rightarrow> 'r option"
    and ext :: "'w \<Rightarrow> 'w \<Rightarrow> bool"
    and key :: "'r \<Rightarrow> 'k"
    and step :: "'r \<Rightarrow> 'w \<Rightarrow> 'w"
    and verdict :: "'r \<Rightarrow> 'w \<Rightarrow> bool"
  assumes ext_refl: "ext w w"
    and ext_trans: "ext u v \<Longrightarrow> ext v w \<Longrightarrow> ext u w"
    and step_inv: "look w (key r) = Some r \<Longrightarrow> inv w \<Longrightarrow> inv (step r w)"
    and step_ext: "look w (key r) = Some r \<Longrightarrow> ext w (step r w)"
    and step_other: "look w (key r) = Some r \<Longrightarrow> k \<noteq> key r \<Longrightarrow> look (step r w) k = look w k"
    and step_verdict: "look w (key r) = Some r \<Longrightarrow> verdict r (step r w)"
    and verdict_later: "verdict r w \<Longrightarrow> ext w w' \<Longrightarrow> look w' (key r) = look w (key r) \<Longrightarrow> verdict r w'"
begin

lemma page:
  "distinct (map key rs) \<Longrightarrow> \<forall>r\<in>set rs. look w (key r) = Some r \<Longrightarrow>
     (inv w \<longrightarrow> inv (fold step rs w)) \<and> ext w (fold step rs w) \<and>
     (\<forall>k. k \<notin> key ` set rs \<longrightarrow> look (fold step rs w) k = look w k) \<and>
     (\<forall>r\<in>set rs. verdict r (fold step rs w))"
proof (induction rs arbitrary: w)
  case Nil
  then show ?case by (simp add: ext_refl)
next
  case (Cons r rs)
  let ?w1 = "step r w" and ?w2 = "fold step rs (step r w)"
  have r: "look w (key r) = Some r" using Cons.prems(2) by simp
  have fresh: "key r \<notin> key ` set rs" using Cons.prems(1) by simp
  have "\<forall>q\<in>set rs. look ?w1 (key q) = Some q"
  proof
    fix q assume q: "q \<in> set rs"
    then have "key q \<noteq> key r" using fresh by (metis imageI)
    then show "look ?w1 (key q) = Some q" using step_other [OF r] Cons.prems(2) q by simp
  qed
  from Cons.IH [OF _ this] Cons.prems(1)
  have IH: "inv ?w1 \<longrightarrow> inv ?w2" "ext ?w1 ?w2" "\<forall>k. k \<notin> key ` set rs \<longrightarrow> look ?w2 k = look ?w1 k"
    "\<forall>q\<in>set rs. verdict q ?w2"
    by simp_all
  have "verdict r ?w2"
    using step_verdict [OF r] IH(2) IH(3) [rule_format, OF fresh] by (rule verdict_later)
  moreover have "look ?w2 k = look w k" if "k \<notin> key ` set (r # rs)" for k
  proof -
    have "k \<notin> key ` set rs" "k \<noteq> key r" using that by auto
    then show ?thesis using IH(3) step_other [OF r] by metis
  qed
  ultimately show ?case using IH(1,2,4) step_inv [OF r] ext_trans [OF step_ext [OF r]] by simp
qed

end

end
