(* ===== verification/DeliveryStore.thy ===== *)
theory DeliveryStore
  imports Delivery Contracts
begin

text \<open>
  \<open>internal/db/delivery_repo.go\<close> over the statements of \<open>internal/db/pool.sql\<close>: the Pool, as the list
  of rows of \<open>sending_pool_emails\<close>.  A statement is a transformer of that list executed at the
  database's clock \<open>now\<close>.  \<open>LIMIT\<close> with \<open>SKIP LOCKED\<close> leaves the choice of rows to the planner and to
  the locks held by others: the argument \<open>sel\<close>, of which \<open>planner_ok\<close> is what SQL guarantees.  Columns
  hold microseconds, and \<open>adm\<close> stands for the constraints of a row that other tables decide.
\<close>

definition pg_timestamp :: "go_time \<Rightarrow> go_time" where
  "pg_timestamp t = t div 1000 * 1000"

definition pg_interval :: "go_time \<Rightarrow> go_time" where
  "pg_interval d = (if d < 0 then - (- d div 1000) else d div 1000) * 1000"

datatype SendingPoolStatus = ToValidate | Validating | Sending | Scheduled

datatype InFlight = InFlightForDispatch | InFlightForValidation | InFlightUnknown nat

fun inflight_string :: "InFlight \<Rightarrow> string" where
  "inflight_string InFlightForDispatch = ''dispatch''"
| "inflight_string InFlightForValidation = ''validation''"
| "inflight_string (InFlightUnknown n) = ''unknown''"

record pool_row =
  row_id :: nat
  row_scheduled :: go_time
  row_original :: go_time
  row_attempts :: int
  row_email :: string
  row_message :: string
  row_fields :: gomap
  row_status :: SendingPoolStatus
  row_domain :: string
  row_tracking :: policy
  row_claimed :: "go_time option"

record pool_table =
  rows :: "pool_row list"
  next_id :: nat

type_synonym key = "string \<times> string" \<comment> \<open>message id, email\<close>
type_synonym planner = "nat \<Rightarrow> pool_row list \<Rightarrow> pool_row list"

definition row_key :: "pool_row \<Rightarrow> key" where
  "row_key r = (row_message r, row_email r)"

definition planner_ok :: "planner \<Rightarrow> bool" where
  "planner_ok sel \<longleftrightarrow>
     (\<forall>n cs. set (sel n cs) \<subseteq> set cs \<and> length (sel n cs) \<le> n \<and> (distinct cs \<longrightarrow> distinct (sel n cs)))"

definition toCustomFields :: "gomap \<Rightarrow> gomap" where
  "toCustomFields m = (case m of None \<Rightarrow> Some Map.empty | Some f \<Rightarrow> Some f)"

definition fromCustomFields :: "gomap \<Rightarrow> gomap" where
  "fromCustomFields f = (case f of None \<Rightarrow> None | Some m \<Rightarrow> Some m)"

section \<open>The statements\<close>

record CreatePoolParams =
  cp_email :: string
  cp_status :: SendingPoolStatus
  cp_scheduled :: go_time
  cp_original :: go_time
  cp_message :: string
  cp_fields :: gomap
  cp_domain :: string
  cp_tracking :: policy

definition insert_row :: "nat \<Rightarrow> CreatePoolParams \<Rightarrow> pool_row" where
  "insert_row i p =
     \<lparr>row_id = i, row_scheduled = pg_timestamp (cp_scheduled p), row_original = pg_timestamp (cp_original p),
      row_attempts = 0, row_email = cp_email p, row_message = cp_message p, row_fields = cp_fields p,
      row_status = cp_status p, row_domain = cp_domain p, row_tracking = cp_tracking p, row_claimed = None\<rparr>"

fun insert_rows :: "nat \<Rightarrow> CreatePoolParams list \<Rightarrow> pool_row list" where
  "insert_rows i [] = []"
| "insert_rows i (p # ps) = insert_row i p # insert_rows (Suc i) ps"

text \<open>\<open>COPY\<close> is one statement: a row that violates a constraint, the unique index among them, undoes it.\<close>

definition CreatePool ::
  "(pool_row \<Rightarrow> bool) \<Rightarrow> CreatePoolParams list \<Rightarrow> pool_table \<Rightarrow> (unit + unit) \<times> pool_table" where
  "CreatePool adm ps t =
     (let new = insert_rows (next_id t) ps in
      if distinct (map row_key (rows t @ new)) \<and> list_all adm new
      then (Inr (), t\<lparr>rows := rows t @ new, next_id := next_id t + length ps\<rparr>)
      else (Inl (), t\<lparr>next_id := next_id t + length ps\<rparr>))"

definition update_ids :: "nat list \<Rightarrow> (pool_row \<Rightarrow> pool_row) \<Rightarrow> pool_table \<Rightarrow> pool_table" where
  "update_ids ids f t = t\<lparr>rows := map (\<lambda>r. if row_id r \<in> set ids then f r else r) (rows t)\<rparr>"

definition sqlPrepareForSend ::
  "planner \<Rightarrow> go_time \<Rightarrow> nat \<Rightarrow> pool_table \<Rightarrow> pool_row list \<times> pool_table" where
  "sqlPrepareForSend sel now lim t =
     (let chosen = sel lim (filter (\<lambda>r. row_scheduled r \<le> now \<and> row_status r = Scheduled) (rows t));
          f = (\<lambda>r. r\<lparr>row_status := Sending, row_claimed := Some now\<rparr>) in
      (map f chosen, update_ids (map row_id chosen) f t))"

definition sqlPrepareForValidate ::
  "planner \<Rightarrow> go_time \<Rightarrow> nat \<Rightarrow> pool_table \<Rightarrow> pool_row list \<times> pool_table" where
  "sqlPrepareForValidate sel now lim t =
     (let chosen = sel lim (filter (\<lambda>r. row_status r = ToValidate) (rows t));
          f = (\<lambda>r. r\<lparr>row_status := Validating, row_claimed := Some now\<rparr>) in
      (map f chosen, update_ids (map row_id chosen) f t))"

record ReclaimParams =
  rp_to :: SendingPoolStatus
  rp_bump :: bool
  rp_from :: SendingPoolStatus
  rp_stranded :: go_time
  rp_max :: nat

text \<open>A comparison with a NULL \<open>claimed_at\<close> is not true, so such a row is not selected.\<close>

definition stranded :: "go_time \<Rightarrow> ReclaimParams \<Rightarrow> pool_row \<Rightarrow> bool" where
  "stranded now p r \<longleftrightarrow>
     row_status r = rp_from p \<and> (case row_claimed r of None \<Rightarrow> False | Some c \<Rightarrow> c < now - rp_stranded p)"

definition sqlReclaimStranded ::
  "planner \<Rightarrow> go_time \<Rightarrow> ReclaimParams \<Rightarrow> pool_table \<Rightarrow> pool_row list \<times> pool_table" where
  "sqlReclaimStranded sel now p t =
     (let chosen = sel (rp_max p) (filter (stranded now p) (rows t));
          f = (\<lambda>r. r\<lparr>row_status := rp_to p, row_claimed := None,
                     row_attempts := row_attempts r + (if rp_bump p then 1 else 0)\<rparr>) in
      (map f chosen, update_ids (map row_id chosen) f t))"

definition update_key :: "key \<Rightarrow> (pool_row \<Rightarrow> pool_row) \<Rightarrow> pool_table \<Rightarrow> pool_table" where
  "update_key k f t = t\<lparr>rows := map (\<lambda>r. if row_key r = k then f r else r) (rows t)\<rparr>"

definition SetSendingPoolScheduled :: "key \<Rightarrow> pool_table \<Rightarrow> pool_table" where
  "SetSendingPoolScheduled k = update_key k (\<lambda>r. r\<lparr>row_status := Scheduled\<rparr>)"

definition ReschedulePool :: "key \<Rightarrow> go_time \<Rightarrow> pool_table \<Rightarrow> pool_table" where
  "ReschedulePool k at =
     update_key k (\<lambda>r. r\<lparr>row_status := Scheduled, row_scheduled := pg_timestamp at,
                          row_attempts := row_attempts r + 1\<rparr>)"

definition CleanPool :: "key \<Rightarrow> pool_table \<Rightarrow> pool_table" where
  "CleanPool k t = t\<lparr>rows := filter (\<lambda>r. row_key r \<noteq> k) (rows t)\<rparr>"

definition GetPool :: "key \<Rightarrow> pool_table \<Rightarrow> pool_row option" where
  "GetPool k t = List.find (\<lambda>r. row_key r = k) (rows t)"

section \<open>The repository\<close>

record repo =
  repo_backoff :: "BackoffPolicy option"
  repo_window :: duration
  repo_oor :: "int \<Rightarrow> duration"

datatype delivery_error = ErrDeliveryNotFound | ErrUnknownInFlight nat | DeliveryDbError

definition rowToDelivery :: "repo \<Rightarrow> pool_row \<Rightarrow> Delivery" where
  "rowToDelivery rp r =
     LoadDelivery (repo_oor rp)
       \<lparr>lp_batch = row_message r, lp_email = row_email r, lp_fields = fromCustomFields (row_fields r),
        lp_attempts = row_attempts r, lp_domain = row_domain r, lp_scheduled = row_scheduled r,
        lp_original = row_original r, lp_backoff = repo_backoff rp, lp_window = repo_window rp,
        lp_tracking = row_tracking r\<rparr>"

definition pool_params :: "Delivery \<Rightarrow> CreatePoolParams" where
  "pool_params d =
     \<lparr>cp_email = dl_email d, cp_status = ToValidate, cp_scheduled = dl_scheduled d,
      cp_original = dl_scheduled d, cp_message = dl_batch d, cp_fields = toCustomFields (dl_fields d),
      cp_domain = dl_domain d, cp_tracking = dl_tracking d\<rparr>"

definition Schedule ::
  "(pool_row \<Rightarrow> bool) \<Rightarrow> Delivery list \<Rightarrow> pool_table \<Rightarrow> (delivery_error + unit) \<times> pool_table" where
  "Schedule adm ds t =
     (if ds = [] then (Inr (), t)
      else case CreatePool adm (map pool_params ds) t of
        (Inl _, t') \<Rightarrow> (Inl DeliveryDbError, t')
      | (Inr _, t') \<Rightarrow> (Inr (), t'))"

definition PrepareForSend ::
  "repo \<Rightarrow> planner \<Rightarrow> go_time \<Rightarrow> nat \<Rightarrow> pool_table \<Rightarrow> Delivery list \<times> pool_table" where
  "PrepareForSend rp sel now lim t =
     (let (rs, t') = sqlPrepareForSend sel now lim t in (map (rowToDelivery rp) rs, t'))"

definition PrepareForValidate ::
  "repo \<Rightarrow> planner \<Rightarrow> go_time \<Rightarrow> nat \<Rightarrow> pool_table \<Rightarrow> Delivery list \<times> pool_table" where
  "PrepareForValidate rp sel now lim t =
     (let (rs, t') = sqlPrepareForValidate sel now lim t in (map (rowToDelivery rp) rs, t'))"

definition GetDelivery :: "repo \<Rightarrow> key \<Rightarrow> pool_table \<Rightarrow> delivery_error + Delivery" where
  "GetDelivery rp k t =
     (case GetPool k t of None \<Rightarrow> Inl ErrDeliveryNotFound | Some r \<Rightarrow> Inr (rowToDelivery rp r))"

definition SetScheduled :: "key \<Rightarrow> pool_table \<Rightarrow> pool_table" where
  "SetScheduled k t = SetSendingPoolScheduled k t"

definition Reschedule :: "repo \<Rightarrow> key \<Rightarrow> pool_table \<Rightarrow> (delivery_error + unit) \<times> pool_table" where
  "Reschedule rp k t =
     (case GetDelivery rp k t of
        Inl e \<Rightarrow> (Inl e, t)
      | Inr d \<Rightarrow> (Inr (), ReschedulePool k (NextRetryAt d) t))"

definition Clean :: "key \<Rightarrow> pool_table \<Rightarrow> pool_table" where
  "Clean k t = CleanPool k t"

record reclaimTarget =
  rt_from :: SendingPoolStatus
  rt_to :: SendingPoolStatus
  rt_bump :: bool

definition reclaimTargets :: "InFlight \<rightharpoonup> reclaimTarget" where
  "reclaimTargets =
     [InFlightForDispatch \<mapsto> \<lparr>rt_from = Sending, rt_to = Scheduled, rt_bump = True\<rparr>,
      InFlightForValidation \<mapsto> \<lparr>rt_from = Validating, rt_to = ToValidate, rt_bump = False\<rparr>]"

definition ReclaimStranded ::
  "repo \<Rightarrow> planner \<Rightarrow> go_time \<Rightarrow> InFlight \<Rightarrow> go_time \<Rightarrow> nat \<Rightarrow> pool_table \<Rightarrow>
     (delivery_error + Delivery list) \<times> pool_table" where
  "ReclaimStranded rp sel now f olderThan lim t =
     (case reclaimTargets f of
        None \<Rightarrow> (Inl (ErrUnknownInFlight (case f of InFlightUnknown n \<Rightarrow> n | _ \<Rightarrow> 0)), t)
      | Some tg \<Rightarrow>
          (let (rs, t') = sqlReclaimStranded sel now
             \<lparr>rp_to = rt_to tg, rp_bump = rt_bump tg, rp_from = rt_from tg,
              rp_stranded = pg_interval olderThan, rp_max = lim\<rparr> t
           in (Inr (map (rowToDelivery rp) rs), t')))"

section \<open>The invariant of the table\<close>

definition in_flight :: "pool_row \<Rightarrow> bool" where
  "in_flight r \<longleftrightarrow> row_status r = Sending \<or> row_status r = Validating"

text \<open>Keys and ids identify rows, ids come from the sequence, and a claim carries its instant.\<close>

definition pool_inv :: "pool_table \<Rightarrow> bool" where
  "pool_inv t \<longleftrightarrow>
     distinct (map row_key (rows t)) \<and> distinct (map row_id (rows t)) \<and>
     (\<forall>r\<in>set (rows t). row_id r < next_id t \<and> (in_flight r \<longrightarrow> row_claimed r \<noteq> None))"

definition empty_pool :: pool_table where
  "empty_pool = \<lparr>rows = [], next_id = 1\<rparr>"

lemma pool_inv_empty: "pool_inv empty_pool"
  by (simp add: pool_inv_def empty_pool_def)

text \<open>A statement that rewrites rows in place, keeping id and key.\<close>

definition in_place :: "(pool_row \<Rightarrow> pool_row) \<Rightarrow> bool" where
  "in_place f \<longleftrightarrow> (\<forall>r. row_id (f r) = row_id r \<and> row_key (f r) = row_key r)"

definition map_rows :: "(pool_row \<Rightarrow> pool_row) \<Rightarrow> pool_table \<Rightarrow> pool_table" where
  "map_rows f t = t\<lparr>rows := map f (rows t)\<rparr>"

lemma in_place_if: "in_place f \<Longrightarrow> in_place (\<lambda>r. if P r then f r else r)"
  by (simp add: in_place_def)

lemma pool_inv_map:
  assumes "pool_inv t" and "in_place f"
    and "\<And>r. r \<in> set (rows t) \<Longrightarrow> in_flight (f r) \<Longrightarrow> row_claimed (f r) \<noteq> None"
  shows "pool_inv (map_rows f t)"
proof -
  have "map row_key (map f (rows t)) = map row_key (rows t)"
    and "map row_id (map f (rows t)) = map row_id (rows t)"
    using assms(2) by (simp_all add: in_place_def)
  then show ?thesis
    using assms unfolding pool_inv_def map_rows_def in_place_def by (auto simp: simp del: map_map)
qed

lemma find_map_in_place:
  "in_place f \<Longrightarrow> List.find (\<lambda>r. row_key r = k) (map f rs) = map_option f (List.find (\<lambda>r. row_key r = k) rs)"
  by (induction rs) (auto simp: in_place_def)

lemma GetPool_map_rows: "in_place f \<Longrightarrow> GetPool k (map_rows f t) = map_option f (GetPool k t)"
  by (simp add: GetPool_def map_rows_def find_map_in_place)

lemma GetPool_Some: "GetPool k t = Some r \<Longrightarrow> r \<in> set (rows t) \<and> row_key r = k"
  by (auto simp: GetPool_def find_Some_iff)

lemma GetPool_None: "GetPool k t = None \<longleftrightarrow> (\<forall>r\<in>set (rows t). row_key r \<noteq> k)"
  by (auto simp: GetPool_def find_None_iff)

lemma GetPool_in: "pool_inv t \<Longrightarrow> r \<in> set (rows t) \<Longrightarrow> GetPool (row_key r) t = Some r"
proof -
  assume inv: "pool_inv t" and r: "r \<in> set (rows t)"
  obtain q where q: "GetPool (row_key r) t = Some q"
    using r GetPool_None [of "row_key r" t] by auto
  then have "q \<in> set (rows t)" "row_key q = row_key r" using GetPool_Some by blast+
  then have "q = r" using inv r by (auto simp: pool_inv_def distinct_map dest: inj_onD)
  then show ?thesis using q by simp
qed

lemma update_ids_map_rows: "update_ids ids f t = map_rows (\<lambda>r. if row_id r \<in> set ids then f r else r) t"
  by (simp add: update_ids_def map_rows_def)

lemma update_key_map_rows: "update_key k f t = map_rows (\<lambda>r. if row_key r = k then f r else r) t"
  by (simp add: update_key_def map_rows_def)

lemma GetPool_update_key:
  "in_place f \<Longrightarrow> GetPool k' (update_key k f t) = (if k' = k then map_option f (GetPool k t) else GetPool k' t)"
  by (auto simp: update_key_map_rows GetPool_map_rows in_place_if map_option_case
      split: option.split dest!: GetPool_Some)

text \<open>One claim or reclaim, for both directions: choose among the rows satisfying \<open>P\<close>, rewrite them.\<close>

definition take_rows ::
  "planner \<Rightarrow> nat \<Rightarrow> (pool_row \<Rightarrow> bool) \<Rightarrow> (pool_row \<Rightarrow> pool_row) \<Rightarrow> pool_table \<Rightarrow> pool_row list \<times> pool_table" where
  "take_rows sel lim P f t =
     (let chosen = sel lim (filter P (rows t)) in (map f chosen, update_ids (map row_id chosen) f t))"

lemma sql_take_rows:
  "sqlPrepareForSend sel now lim =
     take_rows sel lim (\<lambda>r. row_scheduled r \<le> now \<and> row_status r = Scheduled)
       (\<lambda>r. r\<lparr>row_status := Sending, row_claimed := Some now\<rparr>)"
  "sqlPrepareForValidate sel now lim =
     take_rows sel lim (\<lambda>r. row_status r = ToValidate)
       (\<lambda>r. r\<lparr>row_status := Validating, row_claimed := Some now\<rparr>)"
  "sqlReclaimStranded sel now p =
     take_rows sel (rp_max p) (stranded now p)
       (\<lambda>r. r\<lparr>row_status := rp_to p, row_claimed := None,
              row_attempts := row_attempts r + (if rp_bump p then 1 else 0)\<rparr>)"
  by (auto simp: fun_eq_iff take_rows_def sqlPrepareForSend_def sqlPrepareForValidate_def
      sqlReclaimStranded_def Let_def)

lemma planner_subset: "planner_ok sel \<Longrightarrow> r \<in> set (sel n cs) \<Longrightarrow> r \<in> set cs"
  by (auto simp: planner_ok_def)

lemma take_rows_inv:
  assumes "planner_ok sel" and "pool_inv t" and "in_place f" and "take_rows sel lim P f t = (out, t')"
    and "\<And>r. in_flight (f r) \<Longrightarrow> row_claimed (f r) \<noteq> None"
  shows "pool_inv t'"
proof -
  have "t' = map_rows (\<lambda>r. if row_id r \<in> set (map row_id (sel lim (filter P (rows t)))) then f r else r) t"
    using assms(4) by (simp add: take_rows_def Let_def update_ids_map_rows)
  moreover have "\<And>r. r \<in> set (rows t) \<Longrightarrow> in_flight r \<Longrightarrow> row_claimed r \<noteq> None"
    using assms(2) by (simp add: pool_inv_def)
  ultimately show ?thesis
    using assms(5) pool_inv_map [OF assms(2) in_place_if [OF assms(3)]] by (simp split: if_splits)
qed

text \<open>What a take returns and leaves: exactly the chosen rows, rewritten in both places.\<close>

lemma take_rows_GetPool:
  assumes "planner_ok sel" and "pool_inv t" and "in_place f" and "take_rows sel lim P f t = (out, t')"
  shows "GetPool k t' =
     (case GetPool k t of None \<Rightarrow> None
      | Some r \<Rightarrow> Some (if r \<in> set (sel lim (filter P (rows t))) then f r else r))"
proof -
  let ?chosen = "sel lim (filter P (rows t))"
  have t': "t' = map_rows (\<lambda>r. if row_id r \<in> set (map row_id ?chosen) then f r else r) t"
    using assms(4) by (simp add: take_rows_def Let_def update_ids_map_rows)
  have "row_id r \<in> row_id ` set ?chosen \<longleftrightarrow> r \<in> set ?chosen" if "r \<in> set (rows t)" for r
  proof
    assume "row_id r \<in> row_id ` set ?chosen"
    then obtain q where q: "q \<in> set ?chosen" "row_id q = row_id r" by auto
    then have "q \<in> set (rows t)" using planner_subset [OF assms(1) q(1)] by simp
    then have "q = r" using assms(2) that q(2) by (auto simp: pool_inv_def distinct_map dest: inj_onD)
    then show "r \<in> set ?chosen" using q by simp
  qed simp
  then show ?thesis
    using assms(3) by (auto simp: t' GetPool_map_rows in_place_if split: option.split dest!: GetPool_Some)
qed

lemma take_rows_out:
  assumes "planner_ok sel" and "pool_inv t" and "take_rows sel lim P f t = (out, t')"
  shows "set out = f ` set (sel lim (filter P (rows t)))" and "length out \<le> lim"
    and "in_place f \<Longrightarrow> distinct (map row_key out)"
proof -
  let ?chosen = "sel lim (filter P (rows t))"
  have out: "out = map f ?chosen" using assms(3) by (simp add: take_rows_def Let_def)
  show "set out = f ` set ?chosen" by (simp add: out)
  show "length out \<le> lim" using assms(1) by (simp add: out planner_ok_def)
  have "distinct (rows t)" using assms(2) by (simp add: pool_inv_def distinct_map)
  then have dc: "distinct ?chosen" using assms(1) by (simp add: planner_ok_def)
  have "inj_on row_key (set ?chosen)"
  proof (rule inj_on_subset)
    show "inj_on row_key (set (rows t))" using assms(2) by (simp add: pool_inv_def distinct_map)
    show "set ?chosen \<subseteq> set (rows t)" using planner_subset [OF assms(1)] by fastforce
  qed
  then show "distinct (map row_key out)" if "in_place f"
  proof -
    have "map row_key out = map row_key ?chosen" using that by (simp add: out in_place_def)
    moreover have "distinct (map row_key ?chosen)"
      using dc \<open>inj_on row_key (set ?chosen)\<close> by (simp add: distinct_map)
    ultimately show ?thesis by simp
  qed
qed

section \<open>What each operation does to a row\<close>

lemma in_place_ops [simp]:
  "in_place (\<lambda>r. r\<lparr>row_status := st\<rparr>)"
  "in_place (\<lambda>r. r\<lparr>row_status := st, row_claimed := c\<rparr>)"
  "in_place (\<lambda>r. r\<lparr>row_status := st, row_claimed := c, row_attempts := row_attempts r + n\<rparr>)"
  "in_place (\<lambda>r. r\<lparr>row_status := st, row_scheduled := s, row_attempts := row_attempts r + n\<rparr>)"
  by (simp_all add: in_place_def row_key_def)

lemma GetPool_SetScheduled:
  "GetPool k' (SetScheduled k t) =
     (if k' = k then map_option (\<lambda>r. r\<lparr>row_status := Scheduled\<rparr>) (GetPool k t) else GetPool k' t)"
  by (simp add: SetScheduled_def SetSendingPoolScheduled_def GetPool_update_key)

lemma GetPool_Clean: "GetPool k' (Clean k t) = (if k' = k then None else GetPool k' t)"
proof -
  have "List.find (\<lambda>r. row_key r = k') (filter (\<lambda>r. row_key r \<noteq> k) rs) =
      (if k' = k then None else List.find (\<lambda>r. row_key r = k') rs)" for rs
    by (induction rs) auto
  then show ?thesis by (simp add: GetPool_def Clean_def CleanPool_def)
qed

lemma Reschedule_eq:
  "Reschedule rp k t =
     (case GetPool k t of None \<Rightarrow> (Inl ErrDeliveryNotFound, t)
      | Some r \<Rightarrow> (Inr (), ReschedulePool k (NextRetryAt (rowToDelivery rp r)) t))"
  by (simp add: Reschedule_def GetDelivery_def split: option.split)

lemma GetPool_Reschedule:
  "GetPool k' (snd (Reschedule rp k t)) =
     (if k' = k then map_option (\<lambda>r. r\<lparr>row_status := Scheduled,
          row_scheduled := pg_timestamp (NextRetryAt (rowToDelivery rp r)),
          row_attempts := row_attempts r + 1\<rparr>) (GetPool k t)
      else GetPool k' t)"
  by (auto simp: Reschedule_eq ReschedulePool_def GetPool_update_key split: option.split)

lemma pool_inv_update_key:
  assumes "pool_inv t" and "in_place f" and "\<And>r. row_status (f r) = Scheduled"
  shows "pool_inv (update_key k f t)"
  unfolding update_key_map_rows
  by (rule pool_inv_map [OF assms(1) in_place_if [OF assms(2)]])
     (use assms(1,3) in \<open>auto simp: in_flight_def pool_inv_def split: if_splits\<close>)

lemma pool_inv_SetScheduled: "pool_inv t \<Longrightarrow> pool_inv (SetScheduled k t)"
  by (simp add: SetScheduled_def SetSendingPoolScheduled_def pool_inv_update_key)

lemma pool_inv_Reschedule: "pool_inv t \<Longrightarrow> pool_inv (snd (Reschedule rp k t))"
  by (auto simp: Reschedule_eq ReschedulePool_def pool_inv_update_key split: option.split)

lemma pool_inv_Clean: "pool_inv t \<Longrightarrow> pool_inv (Clean k t)"
  by (auto simp: pool_inv_def Clean_def CleanPool_def distinct_map_filter)

lemma insert_rows_id: "r \<in> set (insert_rows i ps) \<Longrightarrow> i \<le> row_id r \<and> row_id r < i + length ps"
  by (induction i ps rule: insert_rows.induct) (auto simp: insert_row_def)

lemma insert_rows_distinct: "distinct (map row_id (insert_rows i ps))"
  by (induction i ps rule: insert_rows.induct) (auto simp: insert_row_def dest: insert_rows_id)

lemma insert_rows_elem: "r \<in> set (insert_rows i ps) \<Longrightarrow> \<exists>j p. p \<in> set ps \<and> r = insert_row j p"
  by (induction i ps rule: insert_rows.induct) auto

lemma pool_inv_CreatePool:
  assumes inv: "pool_inv t" and st: "\<And>p. p \<in> set ps \<Longrightarrow> cp_status p = ToValidate"
  shows "pool_inv (snd (CreatePool adm ps t))"
proof (cases "distinct (map row_key (rows t @ insert_rows (next_id t) ps)) \<and> list_all adm (insert_rows (next_id t) ps)")
  case True
  let ?new = "insert_rows (next_id t) ps"
  have old: "\<forall>r\<in>set (rows t). row_id r < next_id t \<and> (in_flight r \<longrightarrow> row_claimed r \<noteq> None)"
    "distinct (map row_id (rows t))"
    using inv by (simp_all add: pool_inv_def)
  have new: "\<forall>r\<in>set ?new. next_id t \<le> row_id r \<and> row_id r < next_id t + length ps \<and> \<not> in_flight r"
  proof
    fix r assume r: "r \<in> set ?new"
    obtain j p where "p \<in> set ps" "r = insert_row j p" using insert_rows_elem [OF r] by blast
    then have "row_status r = ToValidate" using st [of p] by (simp add: insert_row_def)
    then show "next_id t \<le> row_id r \<and> row_id r < next_id t + length ps \<and> \<not> in_flight r"
      using insert_rows_id [OF r] by (simp add: in_flight_def)
  qed
  have "distinct (map row_id (rows t @ ?new))"
    using old new insert_rows_distinct [of "next_id t" ps] by fastforce
  moreover have "snd (CreatePool adm ps t) = t\<lparr>rows := rows t @ ?new, next_id := next_id t + length ps\<rparr>"
    using True by (simp add: CreatePool_def)
  moreover have "row_id r < next_id t + length ps \<and> (in_flight r \<longrightarrow> row_claimed r \<noteq> None)"
    if "r \<in> set (rows t @ ?new)" for r
    using that old(1) new by fastforce
  ultimately show ?thesis using True by (simp add: pool_inv_def)
next
  case False
  then have "snd (CreatePool adm ps t) = t\<lparr>next_id := next_id t + length ps\<rparr>"
    by (auto simp: CreatePool_def Let_def)
  then show ?thesis using inv by (auto simp: pool_inv_def trans_less_add1)
qed

lemma pool_inv_Schedule: "pool_inv t \<Longrightarrow> pool_inv (snd (Schedule adm ds t))"
proof -
  assume "pool_inv t"
  then have "pool_inv (snd (CreatePool adm (map pool_params ds) t))"
    by (rule pool_inv_CreatePool) (auto simp: pool_params_def)
  then show ?thesis
    using \<open>pool_inv t\<close> by (auto simp: Schedule_def split: prod.split sum.split)
qed

section \<open>The contracts hold of the table\<close>

interpretation pool_entries: retry_store pool_inv "\<lambda>t k. GetPool k t" SetScheduled "Reschedule rp" Clean row_attempts
  for rp
proof unfold_locales
  fix t k r
  show "GetPool k t = Some r \<Longrightarrow>
      \<exists>r'. GetPool k (SetScheduled k t) = Some r' \<and> row_attempts r' = row_attempts r"
    by (simp add: GetPool_SetScheduled)
  show "GetPool k t = Some r \<Longrightarrow>
      \<exists>r'. GetPool k (snd (Reschedule rp k t)) = Some r' \<and> row_attempts r' = row_attempts r + 1" for rp
    by (simp add: GetPool_Reschedule)
qed (simp_all add: pool_inv_SetScheduled pool_inv_Reschedule pool_inv_Clean GetPool_SetScheduled
    GetPool_Reschedule GetPool_Clean)

text \<open>A claim, as both \<open>Prepare\<close> statements are: the parameters are planner, clock and limit.\<close>

type_synonym claim_params = "planner \<times> go_time \<times> nat"

definition claim_send :: "claim_params \<Rightarrow> pool_table \<Rightarrow> pool_row list \<times> pool_table" where
  "claim_send p = (case p of (sel, now, lim) \<Rightarrow> sqlPrepareForSend sel now lim)"

definition claim_validate :: "claim_params \<Rightarrow> pool_table \<Rightarrow> pool_row list \<times> pool_table" where
  "claim_validate p = (case p of (sel, now, lim) \<Rightarrow> sqlPrepareForValidate sel now lim)"

definition claim_ok :: "claim_params \<Rightarrow> bool" where
  "claim_ok p \<longleftrightarrow> planner_ok (fst p)"

lemma take_rows_claim:
  assumes "planner_ok sel" and "pool_inv t" and "in_place f" and tk: "take_rows sel lim P f t = (out, t')"
  shows "r \<in> set out \<Longrightarrow>
      (\<exists>r0. GetPool (row_key r) t = Some r0 \<and> P r0 \<and> r = f r0) \<and> GetPool (row_key r) t' = Some r"
    and "k \<notin> row_key ` set out \<Longrightarrow> GetPool k t' = GetPool k t"
proof -
  let ?chosen = "sel lim (filter P (rows t))"
  have out: "set out = f ` set ?chosen" using take_rows_out(1) [OF assms(1,2) tk] .
  note G = take_rows_GetPool [OF assms(1-3) tk]
  {
    assume "r \<in> set out"
    then obtain q where q: "q \<in> set ?chosen" "r = f q" unfolding out by auto
    have "q \<in> set (filter P (rows t))" using planner_subset [OF assms(1) q(1)] .
    moreover have "row_key r = row_key q" using assms(3) q(2) by (simp add: in_place_def)
    ultimately have "GetPool (row_key r) t = Some q" "P q"
      using GetPool_in [OF assms(2), of q] by auto
    then show "(\<exists>r0. GetPool (row_key r) t = Some r0 \<and> P r0 \<and> r = f r0) \<and> GetPool (row_key r) t' = Some r"
      using G [of "row_key r"] q by auto
  next
    assume k: "k \<notin> row_key ` set out"
    show "GetPool k t' = GetPool k t"
    proof (cases "GetPool k t")
      case (Some q)
      then have "row_key q = k" using GetPool_Some by blast
      moreover have "q \<notin> set ?chosen"
      proof
        assume "q \<in> set ?chosen"
        then have "row_key (f q) \<in> row_key ` set out" unfolding out by blast
        then show False using k \<open>row_key q = k\<close> assms(3) by (simp add: in_place_def)
      qed
      ultimately show ?thesis using G [of k] Some by simp
    qed (use G [of k] in simp)
  }
qed

interpretation send_claims: claim_queue pool_inv "\<lambda>t k. GetPool k t" claim_ok claim_send row_key
  "\<lambda>r. row_status r = Scheduled"
proof unfold_locales
  fix p t out t'
  assume ok: "claim_ok p" and inv: "pool_inv t" and cl: "claim_send p t = (out, t')"
  obtain sel now lim where p: "p = (sel, now, lim)" by (cases p)
  have pl: "planner_ok sel" using ok p by (simp add: claim_ok_def)
  note tk = cl [unfolded p claim_send_def prod.case sql_take_rows]
  show "pool_inv t'" by (rule take_rows_inv [OF pl inv in_place_ops(2) tk]) simp
  show "distinct (map row_key out)" by (rule take_rows_out(3) [OF pl inv tk]) simp
  show "(\<exists>r0. GetPool (row_key r) t = Some r0 \<and> row_status r0 = Scheduled) \<and>
      GetPool (row_key r) t' = Some r \<and> row_status r \<noteq> Scheduled" if "r \<in> set out" for r
    using take_rows_claim(1) [OF pl inv in_place_ops(2) tk that] by auto
  show "GetPool k t' = GetPool k t" if "k \<notin> row_key ` set out" for k
    using take_rows_claim(2) [OF pl inv in_place_ops(2) tk that] .
qed

interpretation validate_claims: claim_queue pool_inv "\<lambda>t k. GetPool k t" claim_ok claim_validate row_key
  "\<lambda>r. row_status r = ToValidate"
proof unfold_locales
  fix p t out t'
  assume ok: "claim_ok p" and inv: "pool_inv t" and cl: "claim_validate p t = (out, t')"
  obtain sel now lim where p: "p = (sel, now, lim)" by (cases p)
  have pl: "planner_ok sel" using ok p by (simp add: claim_ok_def)
  note tk = cl [unfolded p claim_validate_def prod.case sql_take_rows]
  show "pool_inv t'" by (rule take_rows_inv [OF pl inv in_place_ops(2) tk]) simp
  show "distinct (map row_key out)" by (rule take_rows_out(3) [OF pl inv tk]) simp
  show "(\<exists>r0. GetPool (row_key r) t = Some r0 \<and> row_status r0 = ToValidate) \<and>
      GetPool (row_key r) t' = Some r \<and> row_status r \<noteq> ToValidate" if "r \<in> set out" for r
    using take_rows_claim(1) [OF pl inv in_place_ops(2) tk that] by auto
  show "GetPool k t' = GetPool k t" if "k \<notin> row_key ` set out" for k
    using take_rows_claim(2) [OF pl inv in_place_ops(2) tk that] .
qed

section \<open>Properties\<close>

lemma planner_ok_take: "planner_ok (\<lambda>n cs. take n cs)"
  by (auto simp: planner_ok_def dest: in_set_takeD)

text \<open>
  C14. A claim is exclusive.  Over any sequence of dispatch claims, whatever rows the planner and the
  locks let each one have, no Delivery is handed out twice; every row handed out was scheduled before,
  is in the table as handed out, and the rows not handed out are untouched.  The same holds of
  validation claims.
\<close>

theorem claims_exclusive:
  assumes "(claim, st) \<in> {(claim_send, Scheduled), (claim_validate, ToValidate)}"
    and "list_all claim_ok ps" and "pool_inv t" and "run_claims claim ps t = (outs, t')"
  shows "distinct (map row_key outs) \<and> pool_inv t' \<and>
      (\<forall>r\<in>set outs. GetPool (row_key r) t' = Some r \<and> row_status r \<noteq> st \<and>
         (\<exists>q. GetPool (row_key r) t = Some q \<and> row_status q = st)) \<and>
      (\<forall>k. k \<notin> row_key ` set outs \<longrightarrow> GetPool k t' = GetPool k t)"
  using assms(1,4) send_claims.claims_taken [OF assms(2,3)] validate_claims.claims_taken [OF assms(2,3)]
  by auto

definition example_row :: "nat \<Rightarrow> string \<Rightarrow> SendingPoolStatus \<Rightarrow> pool_row" where
  "example_row i e st =
     \<lparr>row_id = i, row_scheduled = 0, row_original = 0, row_attempts = 0, row_email = e,
      row_message = ''msg_c@k.dev'', row_fields = None, row_status = st, row_domain = ''k.dev'',
      row_tracking = zero_policy, row_claimed = (if st = Sending \<or> st = Validating then Some 0 else None)\<rparr>"

definition example_pool :: pool_table where
  "example_pool =
     \<lparr>rows = [example_row 1 ''a@x'' Scheduled, example_row 2 ''b@x'' Scheduled,
              example_row 3 ''c@x'' Sending], next_id = 4\<rparr>"

lemma example_pool_inv: "pool_inv example_pool"
  by (auto simp: pool_inv_def example_pool_def example_row_def row_key_def in_flight_def)

lemma claims_exclusive_witness:
  "\<exists>outs t'. run_claims claim_send [(\<lambda>n cs. take n cs, 5, 1), (\<lambda>n cs. take n cs, 6, 7)] example_pool = (outs, t') \<and>
     distinct (map row_key outs) \<and> length outs = 2"
proof -
  let ?ps = "[(\<lambda>n cs. take n cs, 5, 1), (\<lambda>n cs. take n cs, 6, 7)] :: claim_params list"
  have ok: "list_all claim_ok ?ps" by (simp add: claim_ok_def planner_ok_take)
  obtain outs t' where r: "run_claims claim_send ?ps example_pool = (outs, t')" by fastforce
  then have "length outs = 2"
    by (auto simp: claim_send_def sqlPrepareForSend_def example_pool_def example_row_def update_ids_def Let_def)
  then show ?thesis using claims_exclusive [OF _ ok example_pool_inv r, of Scheduled] r by blast
qed

text \<open>
  C17. What the workers' commands do to a Delivery.  Over any sequence of \<open>SetScheduled\<close>, \<open>Reschedule\<close> and
  \<open>Clean\<close> commands: the attempts of a Delivery that is still there are those it had plus the number of
  its \<open>Reschedule\<close> commands; once cleaned it stays gone, and \<open>Reschedule\<close> reports it not found; and
  commands on other Deliveries leave it untouched.
\<close>

theorem commands_account_for_attempts:
  assumes "pool_inv t" and "t' = run_commands SetScheduled (Reschedule rp) Clean cs t"
  shows "pool_inv t' \<and>
     (\<forall>r r'. GetPool k t = Some r \<and> GetPool k t' = Some r' \<longrightarrow>
        row_attempts r' = row_attempts r + int (retries k cs)) \<and>
     (GetPool k t = None \<or> Drop k \<in> set cs \<longrightarrow>
        GetPool k t' = None \<and> fst (Reschedule rp k t') = Inl ErrDeliveryNotFound) \<and>
     (k \<notin> command_key ` set cs \<longrightarrow> GetPool k t' = GetPool k t)"
proof -
  have gone: "GetPool k t' = None" if "Drop k \<in> set cs"
  proof -
    obtain as bs where cs: "cs = as @ Drop k # bs" using split_list [of "Drop k" cs] \<open>Drop k \<in> set cs\<close> by blast
    have "t' = run_commands SetScheduled (Reschedule rp) Clean (Drop k # bs)
        (run_commands SetScheduled (Reschedule rp) Clean as t)"
      by (simp add: assms(2) cs run_commands_def)
    then show ?thesis
      using pool_entries.run_after_drop [OF pool_entries.run_inv [OF assms(1)]] by metis
  qed
  have frame: "GetPool k t' = GetPool k t" if "k \<notin> command_key ` set cs"
    unfolding assms(2) using that by (intro pool_entries.run_frame [OF assms(1)]) auto
  have inv: "pool_inv t'"
    unfolding assms(2) by (rule pool_entries.run_inv [OF assms(1)])
  have count: "row_attempts r' = row_attempts r + int (retries k cs)"
    if "GetPool k t = Some r" "GetPool k t' = Some r'" for r r'
    using pool_entries.run_attempts [OF assms(1) that(1)] that(2) assms(2) by blast
  have none: "GetPool k t' = None" if "GetPool k t = None"
    unfolding assms(2) by (rule pool_entries.run_gone [OF assms(1) that])
  have missing: "fst (Reschedule rp k t') = Inl ErrDeliveryNotFound" if "GetPool k t' = None"
    using that by (simp add: Reschedule_eq)
  have dropped: "GetPool k t' = None" if "GetPool k t = None \<or> Drop k \<in> set cs"
    using that none gone by metis
  show ?thesis
  proof (intro conjI allI impI)
    show "row_attempts r' = row_attempts r + int (retries k cs)"
      if "GetPool k t = Some r \<and> GetPool k t' = Some r'" for r r'
      using that by (intro count) (erule conjE, assumption)+
    show "GetPool k t' = GetPool k t" if "k \<notin> command_key ` set cs"
      using that by (rule frame)
  qed (simp_all only: inv dropped missing)
qed

definition example_repo :: repo where
  "example_repo = \<lparr>repo_backoff = None, repo_window = 0, repo_oor = (\<lambda>_. 0)\<rparr>"

lemma commands_account_for_attempts_witness:
  "\<exists>r'. GetPool (''msg_c@k.dev'', ''c@x'') (run_commands SetScheduled (Reschedule example_repo) Clean
      [Retry (''msg_c@k.dev'', ''c@x''), Drop (''msg_c@k.dev'', ''a@x''), Retry (''msg_c@k.dev'', ''c@x'')]
      example_pool) = Some r' \<and> row_attempts r' = 2"
proof -
  let ?k = "(''msg_c@k.dev'', ''c@x'')"
  let ?cs = "[Retry ?k, Drop (''msg_c@k.dev'', ''a@x''), Retry ?k]"
  let ?t = "run_commands SetScheduled (Reschedule example_repo) Clean ?cs example_pool"
  have a: "GetPool ?k example_pool = Some (example_row 3 ''c@x'' Sending)"
    by (simp add: GetPool_def example_pool_def example_row_def row_key_def)
  then obtain r' where b: "GetPool ?k ?t = Some r'"
    by (auto simp: run_commands_def run_command_def GetPool_Reschedule GetPool_Clean)
  then show ?thesis
    using a commands_account_for_attempts [OF example_pool_inv refl, where k = ?k and rp = example_repo and cs = ?cs]
    by (simp add: retries_def example_row_def)
qed



text \<open>What a fresh Delivery becomes in the Pool.\<close>

definition fresh_row :: "Delivery \<Rightarrow> pool_row \<Rightarrow> bool" where
  "fresh_row d r \<longleftrightarrow>
     row_status r = ToValidate \<and> row_attempts r = 0 \<and> row_claimed r = None \<and>
     row_scheduled r = pg_timestamp (dl_scheduled d) \<and> row_original r = pg_timestamp (dl_scheduled d) \<and>
     row_domain r = dl_domain d \<and> row_tracking r = dl_tracking d \<and>
     row_fields r = Some (case dl_fields d of None \<Rightarrow> Map.empty | Some m \<Rightarrow> m)"

lemma insert_rows_pick: "p \<in> set ps \<Longrightarrow> \<exists>j. insert_row j p \<in> set (insert_rows i ps)"
  by (induction i ps rule: insert_rows.induct) auto

lemma insert_rows_keys: "map row_key (insert_rows i ps) = map (\<lambda>p. (cp_message p, cp_email p)) ps"
  by (induction i ps rule: insert_rows.induct) (auto simp: insert_row_def row_key_def)

lemma GetPool_append:
  "GetPool k (t\<lparr>rows := rows t @ new, next_id := n\<rparr>) =
     (case GetPool k t of Some r \<Rightarrow> Some r | None \<Rightarrow> List.find (\<lambda>r. row_key r = k) new)"
proof -
  have "List.find P (xs @ ys) = (case List.find P xs of Some r \<Rightarrow> Some r | None \<Rightarrow> List.find P ys)"
    for P and xs ys :: "pool_row list" by (induction xs) auto
  then show ?thesis by (simp add: GetPool_def)
qed

text \<open>
  Scheduling a Batch's Deliveries is all or nothing and stores them concretely.  When it succeeds
  every Delivery is in the Pool waiting to be validated, unclaimed, with no attempt spent, its
  scheduled time kept to the microsecond and its Tracking Policy on the scale on both axes, and what
  was there is unchanged; it fails, leaving every row as it was, as soon as two of the Deliveries share
  Batch and address or one of them is already in the Pool.
\<close>

theorem schedule_atomic:
  assumes "pool_inv t" and "Schedule adm ds t = (res, t')"
    and "\<forall>d\<in>set ds. \<exists>p. NewDelivery oor p = Inr d"
  shows "pool_inv t' \<and>
     (case res of
        Inl e \<Rightarrow> rows t' = rows t
      | Inr _ \<Rightarrow>
          (\<forall>d\<in>set ds. \<exists>r. GetPool (dl_batch d, dl_email d) t' = Some r \<and> fresh_row d r \<and>
             on_scale (opens (row_tracking r)) \<and> on_scale (links (row_tracking r)) \<and>
             GetPool (dl_batch d, dl_email d) t = None) \<and>
          (\<forall>k r. GetPool k t = Some r \<longrightarrow> GetPool k t' = Some r) \<and>
          distinct (map (\<lambda>d. (dl_batch d, dl_email d)) ds))"
proof -
  have inv: "pool_inv t'" using pool_inv_Schedule [OF assms(1), of adm ds] assms(2) by simp
  let ?ps = "map pool_params ds" and ?new = "insert_rows (next_id t) (map pool_params ds)"
  show ?thesis
  proof (cases "ds = [] \<or> (distinct (map row_key (rows t @ ?new)) \<and> list_all adm ?new)")
    case False
    then have "res = Inl DeliveryDbError" "rows t' = rows t"
      using assms(2) by (auto simp: Schedule_def CreatePool_def Let_def split: if_splits)
    then show ?thesis using inv by simp
  next
    case True
    show ?thesis
    proof (cases "ds = []")
      case True
      then show ?thesis using assms(2) inv by (auto simp: Schedule_def)
    next
      case False
      then have ok: "distinct (map row_key (rows t @ ?new))" "res = Inr ()"
        and t': "t' = t\<lparr>rows := rows t @ ?new, next_id := next_id t + length ds\<rparr>"
        using True assms(2) by (auto simp: Schedule_def CreatePool_def Let_def split: if_splits)
      have keys: "map row_key ?new = map (\<lambda>d. (dl_batch d, dl_email d)) ds"
        by (simp add: insert_rows_keys pool_params_def comp_def)
      have each: "\<exists>r. GetPool (dl_batch d, dl_email d) t' = Some r \<and> fresh_row d r \<and>
          on_scale (opens (row_tracking r)) \<and> on_scale (links (row_tracking r)) \<and>
          GetPool (dl_batch d, dl_email d) t = None" if d: "d \<in> set ds" for d
      proof -
        obtain j where j: "insert_row j (pool_params d) \<in> set ?new"
          using insert_rows_pick [of "pool_params d" ?ps] d by auto
        let ?r = "insert_row j (pool_params d)"
        have key: "row_key ?r = (dl_batch d, dl_email d)"
          by (simp add: insert_row_def pool_params_def row_key_def)
        have "?r \<in> set (rows t')" using j by (simp add: t')
        then have get: "GetPool (dl_batch d, dl_email d) t' = Some ?r"
          using GetPool_in [OF inv] key by metis
        obtain p where "NewDelivery oor p = Inr d" using assms(3) d by blast
        then have tr: "dl_tracking d = Normalized (dp_tracking p)"
          by (auto simp: NewDelivery_def split: if_splits)
        have "\<forall>q\<in>set (rows t). row_key q \<noteq> row_key ?r" using ok(1) j by auto
        then have "GetPool (dl_batch d, dl_email d) t = None" by (simp add: GetPool_None key)
        then show ?thesis
          using get tr by (auto simp: fresh_row_def insert_row_def pool_params_def toCustomFields_def
              Normalized_def Resolve_def split: option.split)
      qed
      have "distinct (map (\<lambda>d. (dl_batch d, dl_email d)) ds)" using ok(1) keys by simp
      then show ?thesis
        using inv each ok(2) by (simp add: t' GetPool_append)
    qed
  qed
qed

lemma schedule_atomic_witness:
  "\<exists>d t'. NewDelivery (\<lambda>_. 0) \<lparr>dp_batch = ''msg_c@k.dev'', dp_email = ''r@x'', dp_fields = None, dp_domain = ''k.dev'',
       dp_scheduled = 1500, dp_backoff = None, dp_window = 0, dp_tracking = zero_policy\<rparr> = Inr d \<and>
     Schedule (\<lambda>_. True) [d] empty_pool = (Inr (), t') \<and>
     (\<exists>r. GetPool (''msg_c@k.dev'', ''r@x'') t' = Some r \<and> row_scheduled r = 1000)"
proof -
  let ?p = "\<lparr>dp_batch = ''msg_c@k.dev'', dp_email = ''r@x'', dp_fields = None, dp_domain = ''k.dev'',
       dp_scheduled = 1500, dp_backoff = None, dp_window = 0, dp_tracking = zero_policy\<rparr>"
  obtain d where d: "NewDelivery (\<lambda>_. 0) ?p = Inr d" "dl_batch d = ''msg_c@k.dev''" "dl_email d = ''r@x''"
    "dl_scheduled d = 1500"
    by (simp add: NewDelivery_def id_is_zero_def)
  obtain t' where t: "Schedule (\<lambda>_. True) [d] empty_pool = (Inr (), t')"
    by (simp add: Schedule_def CreatePool_def empty_pool_def)
  show ?thesis
    using schedule_atomic [OF pool_inv_empty t, of "\<lambda>_. 0"] d t
    by (auto simp: fresh_row_def pg_timestamp_def)
qed

lemma Schedule_rows:
  "Schedule adm ds t = (Inr (), t') \<Longrightarrow> rows t' = rows t @ insert_rows (next_id t) (map pool_params ds)"
  by (auto simp: Schedule_def CreatePool_def Let_def split: if_splits)

lemma Schedule_keeps: "Schedule adm ds t = (Inr (), t') \<Longrightarrow> GetPool k t \<noteq> None \<Longrightarrow> GetPool k t' \<noteq> None"
  unfolding GetPool_None by (drule Schedule_rows) auto

lemma Schedule_adds:
  assumes "Schedule adm ds t = (Inr (), t')" and "d \<in> set ds"
  shows "GetPool (dl_batch d, dl_email d) t' \<noteq> None"
proof -
  obtain j where j: "insert_row j (pool_params d) \<in> set (insert_rows (next_id t) (map pool_params ds))"
    using insert_rows_pick [of "pool_params d" "map pool_params ds"] assms(2) by auto
  have "row_key (insert_row j (pool_params d)) = (dl_batch d, dl_email d)"
    by (simp add: insert_row_def pool_params_def row_key_def)
  then show ?thesis using j Schedule_rows [OF assms(1)] unfolding GetPool_None by auto
qed

end
