(* ===== verification/StatsStore.thy ===== *)
theory StatsStore
  imports Stats Authz DeliveryStore "HOL-Library.Product_Lexorder" "HOL-Library.AList"
    "HOL-Library.Multiset"
begin

text \<open>
  The repositories of \<open>internal/stats\<close> (in memory) and \<open>internal/db\<close> (SQL), and the service of
  \<open>internal/stats/service.go\<close> over them.  The in-memory repository is its slice of Stats and the next id;
  the SQL one is the list of rows of \<open>stats\<close> with the next value of the sequence.  Where a statement
  leaves the order of equal timestamps open it is the argument \<open>ord\<close>.
\<close>

record TimeRange =
  tr_start :: go_time
  tr_stop :: go_time

record Pagination =
  pg_limit :: int
  pg_offset :: int

record AggregatedStat =
  as_type :: StatType
  as_stamp :: go_time
  as_count :: int

definition hour_ns :: int where "hour_ns = 3600000000000"

text \<open>\<open>Truncate(time.Hour)\<close> counts from the zero time, whole hours away from the epoch.\<close>

definition truncate_hour :: "go_time \<Rightarrow> go_time" where
  "truncate_hour t = t div hour_ns * hour_ns"

section \<open>In memory\<close>

record mem_repo =
  mr_stats :: "Stat list"
  mr_next :: int

definition NewInMemRepository :: mem_repo where
  "NewInMemRepository = \<lparr>mr_stats = [], mr_next = 1\<rparr>"

definition sameEvent :: "Stat \<Rightarrow> Stat \<Rightarrow> bool" where
  "sameEvent a b \<longleftrightarrow>
     st_email a = st_email b \<and> st_message a = st_message b \<and> st_domain a = st_domain b \<and>
     st_type a = st_type b \<and> st_time a = st_time b"

definition mem_insert :: "Stat \<Rightarrow> mem_repo \<Rightarrow> mem_repo" where
  "mem_insert stat r =
     (if list_ex (\<lambda>s. sameEvent s stat) (mr_stats r) then r
      else \<lparr>mr_stats = mr_stats r @ [stat\<lparr>st_id := mr_next r\<rparr>], mr_next = mr_next r + 1\<rparr>)"

definition mem_filter :: "DomainName \<Rightarrow> TimeRange \<Rightarrow> mem_repo \<Rightarrow> Stat list" where
  "mem_filter dn tr r =
     filter (\<lambda>s. st_domain s = dn \<and> \<not> (st_time s < tr_start tr \<or> \<not> st_time s < tr_stop tr)) (mr_stats r)"

text \<open>\<open>None\<close> is the panic of a slice expression whose bounds are out of order or negative.\<close>

definition mem_query :: "DomainName \<Rightarrow> TimeRange \<Rightarrow> Pagination \<Rightarrow> mem_repo \<Rightarrow> Stat list option" where
  "mem_query dn tr page r =
     (let filtered = mem_filter dn tr r; start = pg_offset page in
      if int (length filtered) < start then Some []
      else (let e = min (start + pg_limit page) (int (length filtered)) in
        if start < 0 \<or> e < start then None
        else Some (take (nat (e - start)) (drop (nat start) filtered))))"

definition mem_count :: "DomainName \<Rightarrow> TimeRange \<Rightarrow> mem_repo \<Rightarrow> int" where
  "mem_count dn tr r = int (length (mem_filter dn tr r))"

definition mem_timeline :: "DomainName \<Rightarrow> TimeRange \<Rightarrow> mem_repo \<Rightarrow> AggregatedStat list" where
  "mem_timeline dn tr r =
     (let filtered = mem_filter dn tr r;
          reps = remdups (map (\<lambda>s. (truncate_hour (st_time s), st_type s)) filtered) in
      map (\<lambda>(h, ty). \<lparr>as_type = ty, as_stamp = h,
             as_count = int (length (filter (\<lambda>s. truncate_hour (st_time s) = h \<and> st_type s = ty) filtered))\<rparr>)
        (sort_key (\<lambda>(h, ty). (h, type_string ty)) reps))"

definition mem_delete :: "go_time \<Rightarrow> mem_repo \<Rightarrow> int \<times> mem_repo" where
  "mem_delete before r =
     (int (length (filter (\<lambda>s. st_time s < before) (mr_stats r))),
      r\<lparr>mr_stats := filter (\<lambda>s. \<not> st_time s < before) (mr_stats r)\<rparr>)"

section \<open>SQL\<close>

record stat_row =
  sr_id :: int
  sr_type :: StatType
  sr_email :: string
  sr_message :: string
  sr_domain :: string
  sr_time :: go_time
  sr_data :: StatsData

record stats_table =
  sr_rows :: "stat_row list"
  sr_next :: int

definition row_event :: "stat_row \<Rightarrow> string \<times> string \<times> string \<times> StatType \<times> go_time" where
  "row_event r = (sr_email r, sr_message r, sr_domain r, sr_type r, sr_time r)"

definition stat_to_row :: "int \<Rightarrow> Stat \<Rightarrow> stat_row" where
  "stat_to_row i s =
     \<lparr>sr_id = i, sr_type = st_type s, sr_email = st_email s, sr_message = st_message s,
      sr_domain = dn_string (st_domain s), sr_time = pg_timestamp (st_time s),
      sr_data = StatsDataFromOutcome (st_outcome s)\<rparr>"

definition sql_insert :: "Stat \<Rightarrow> stats_table \<Rightarrow> stats_table" where
  "sql_insert s t =
     (let row = stat_to_row (sr_next t) s in
      if list_ex (\<lambda>r. row_event r = row_event row) (sr_rows t) then t\<lparr>sr_next := sr_next t + 1\<rparr>
      else \<lparr>sr_rows = sr_rows t @ [row], sr_next = sr_next t + 1\<rparr>)"

definition sql_select :: "string \<Rightarrow> TimeRange \<Rightarrow> stats_table \<Rightarrow> stat_row list" where
  "sql_select d tr t =
     filter (\<lambda>r. sr_domain r = d \<and> pg_timestamp (tr_start tr) \<le> sr_time r \<and> sr_time r < pg_timestamp (tr_stop tr))
       (sr_rows t)"

definition order_ok :: "(stat_row list \<Rightarrow> stat_row list) \<Rightarrow> bool" where
  "order_ok ord \<longleftrightarrow> (\<forall>rs. mset (ord rs) = mset rs \<and> sorted_wrt (\<lambda>a b. sr_time b \<le> sr_time a) (ord rs))"

datatype stats_error = NegativeLimit | NonCanonicalRow int | ErrNoAggregatedRepo

definition toDomainStat :: "unicode \<Rightarrow> stat_row \<Rightarrow> stats_error + Stat" where
  "toDomainStat U row =
     (case parse U (sr_domain row) of
        Inl _ \<Rightarrow> Inl (NonCanonicalRow (sr_id row))
      | Inr dn \<Rightarrow> Inr (LoadStat (sr_id row) (sr_type row) (sr_email row) (sr_message row) dn (sr_time row)
                        (StatsData_Outcome (sr_data row))))"

fun load_all :: "unicode \<Rightarrow> stat_row list \<Rightarrow> stats_error + Stat list" where
  "load_all U [] = Inr []"
| "load_all U (r # rs) = bindR (toDomainStat U r) (\<lambda>s. bindR (load_all U rs) (\<lambda>ss. Inr (s # ss)))"

definition sql_query ::
  "unicode \<Rightarrow> (stat_row list \<Rightarrow> stat_row list) \<Rightarrow> DomainName \<Rightarrow> TimeRange \<Rightarrow> Pagination \<Rightarrow> stats_table \<Rightarrow>
     stats_error + Stat list" where
  "sql_query U ord dn tr page t =
     (let skip = int32 (pg_offset page); lim = int32 (pg_limit page) in
      if skip < 0 \<or> lim < 0 then Inl NegativeLimit
      else load_all U (take (nat lim) (drop (nat skip) (ord (sql_select (dn_string dn) tr t)))))"

definition sql_count :: "DomainName \<Rightarrow> TimeRange \<Rightarrow> stats_table \<Rightarrow> int" where
  "sql_count dn tr t = int (length (sql_select (dn_string dn) tr t))"

definition sql_timeline :: "DomainName \<Rightarrow> TimeRange \<Rightarrow> stats_table \<Rightarrow> AggregatedStat list" where
  "sql_timeline dn tr t =
     (let sel = sql_select (dn_string dn) tr t;
          reps = remdups (map (\<lambda>r. (truncate_hour (sr_time r), sr_type r)) sel) in
      map (\<lambda>(h, ty). \<lparr>as_type = ty, as_stamp = h,
             as_count = int (length (filter (\<lambda>r. truncate_hour (sr_time r) = h \<and> sr_type r = ty) sel))\<rparr>)
        (sort_key (\<lambda>(h, ty). (h, type_string ty)) reps))"

definition sql_delete :: "go_time \<Rightarrow> stats_table \<Rightarrow> int \<times> stats_table" where
  "sql_delete before t =
     (int (length (filter (\<lambda>r. sr_time r < pg_timestamp before) (sr_rows t))),
      t\<lparr>sr_rows := filter (\<lambda>r. \<not> sr_time r < pg_timestamp before) (sr_rows t)\<rparr>)"

section \<open>Aggregated counters\<close>

type_synonym agg_key = "string \<times> go_time \<times> StatType"
type_synonym agg_repo = "(agg_key \<times> int) list"

definition agg_increment :: "DomainName \<Rightarrow> go_time \<Rightarrow> StatType \<Rightarrow> agg_repo \<Rightarrow> agg_repo" where
  "agg_increment dn ts ty a =
     (let k = (dn_string dn, ts, ty) in
      case map_of a k of Some n \<Rightarrow> AList.update k (n + 1) a | None \<Rightarrow> AList.update k 1 a)"

definition agg_query :: "DomainName \<Rightarrow> TimeRange \<Rightarrow> agg_repo \<Rightarrow> AggregatedStat list" where
  "agg_query dn tr a =
     map (\<lambda>((d, ts, ty), n). \<lparr>as_type = ty, as_stamp = ts, as_count = n\<rparr>)
       (filter (\<lambda>((d, ts, ty), n). d = dn_string dn \<and> \<not> (ts < tr_start tr \<or> \<not> ts < tr_stop tr)) a)"

definition sql_agg_query :: "DomainName \<Rightarrow> TimeRange \<Rightarrow> agg_repo \<Rightarrow> AggregatedStat list" where
  "sql_agg_query dn tr a =
     sort_key (\<lambda>s. (as_stamp s, type_string (as_type s)))
       (map (\<lambda>((d, ts, ty), n). \<lparr>as_type = ty, as_stamp = ts, as_count = n\<rparr>)
         (filter (\<lambda>((d, ts, ty), n). d = dn_string dn \<and> pg_timestamp (tr_start tr) \<le> ts \<and> ts < pg_timestamp (tr_stop tr)) a))"

section \<open>The service\<close>

record stats_service =
  sv_repo :: stats_table
  sv_agg :: "agg_repo option"

text \<open>\<open>avail\<close> says whether the database answers; a statement that is not answered changes nothing.\<close>

definition InsertStat :: "bool \<Rightarrow> Stat \<Rightarrow> stats_service \<Rightarrow> bool \<times> stats_service" where
  "InsertStat avail stat s =
     (if avail then (True, s\<lparr>sv_repo := sql_insert stat (sv_repo s)\<rparr>) else (False, s))"

definition QueryStats ::
  "unicode \<Rightarrow> (stat_row list \<Rightarrow> stat_row list) \<Rightarrow> ctx \<Rightarrow> DomainName \<Rightarrow> TimeRange \<Rightarrow> Pagination \<Rightarrow> Decision list \<Rightarrow>
     stats_service \<Rightarrow> (stats_error guarded_error + Stat list \<times> int) \<times> Decision list \<times> stats_service" where
  "QueryStats U ord c dn tr page =
     Guard c List (StatsR dn)
       (\<lambda>s. (bindR (sql_query U ord dn tr page (sv_repo s)) (\<lambda>ss. Inr (ss, sql_count dn tr (sv_repo s))), s))"

definition QueryTimeline ::
  "ctx \<Rightarrow> DomainName \<Rightarrow> TimeRange \<Rightarrow> Decision list \<Rightarrow> stats_service \<Rightarrow>
     (stats_error guarded_error + AggregatedStat list) \<times> Decision list \<times> stats_service" where
  "QueryTimeline c dn tr = Guard c Read (StatsR dn) (\<lambda>s. (Inr (sql_timeline dn tr (sv_repo s)), s))"

definition IncrementAggregatedStat ::
  "bool \<Rightarrow> DomainName \<Rightarrow> go_time \<Rightarrow> StatType \<Rightarrow> stats_service \<Rightarrow> bool \<times> stats_service" where
  "IncrementAggregatedStat avail dn ts ty s =
     (case sv_agg s of
        None \<Rightarrow> (False, s)
      | Some a \<Rightarrow>
          if avail then (True, s\<lparr>sv_agg := Some (agg_increment dn (truncate_hour ts) ty a)\<rparr>) else (False, s))"

definition QueryAggregatedStats ::
  "ctx \<Rightarrow> DomainName \<Rightarrow> TimeRange \<Rightarrow> Decision list \<Rightarrow> stats_service \<Rightarrow>
     (stats_error guarded_error + AggregatedStat list) \<times> Decision list \<times> stats_service" where
  "QueryAggregatedStats c dn tr =
     Guard c Read (AggregatedStatsR dn)
       (\<lambda>s. (case sv_agg s of None \<Rightarrow> Inl ErrNoAggregatedRepo | Some a \<Rightarrow> Inr (sql_agg_query dn tr a), s))"

definition Cleanup :: "go_time \<Rightarrow> go_time \<Rightarrow> stats_service \<Rightarrow> int \<times> stats_service" where
  "Cleanup now retention s =
     (case sql_delete (now - retention) (sv_repo s) of (n, t) \<Rightarrow> (n, s\<lparr>sv_repo := t\<rparr>))"

section \<open>Both repositories keep each event once\<close>

definition mem_key :: "Stat \<Rightarrow> string \<times> string \<times> DomainName \<times> StatType \<times> go_time" where
  "mem_key s = (st_email s, st_message s, st_domain s, st_type s, st_time s)"

definition strip_id :: "Stat \<Rightarrow> Stat" where
  "strip_id s = s\<lparr>st_id := 0\<rparr>"

lemma sameEvent_key: "sameEvent a b \<longleftrightarrow> mem_key a = mem_key b"
  by (auto simp: sameEvent_def mem_key_def)

lemma mem_key_id [simp]: "mem_key (s\<lparr>st_id := i\<rparr>) = mem_key s"
  by (simp add: mem_key_def)

interpretation mem_log: event_log "\<lambda>_. True" "\<lambda>r. map strip_id (mr_stats r)" strip_id mem_key mem_insert
proof unfold_locales
  fix x and r :: mem_repo
  have "mem_key (strip_id x) \<in> mem_key ` set (map strip_id (mr_stats r)) \<longleftrightarrow>
      list_ex (\<lambda>s. sameEvent s x) (mr_stats r)"
    by (auto simp: list_ex_iff sameEvent_key strip_id_def image_image intro: rev_image_eqI)
  then show "map strip_id (mr_stats (mem_insert x r)) =
      (if mem_key (strip_id x) \<in> mem_key ` set (map strip_id (mr_stats r)) then map strip_id (mr_stats r)
       else map strip_id (mr_stats r) @ [strip_id x])"
    by (simp add: mem_insert_def strip_id_def)
qed simp

definition row_strip :: "stat_row \<Rightarrow> stat_row" where
  "row_strip r = r\<lparr>sr_id := 0\<rparr>"

lemma row_event_strip [simp]: "row_event (row_strip r) = row_event r"
  by (simp add: row_event_def row_strip_def)

lemma row_event_to_row: "row_event (stat_to_row i s) = row_event (stat_to_row 0 s)"
  by (simp add: row_event_def stat_to_row_def)

lemma row_strip_to_row: "row_strip (stat_to_row i s) = stat_to_row 0 s"
  by (simp add: row_strip_def stat_to_row_def)

interpretation sql_log: event_log "\<lambda>_. True" "\<lambda>t. map row_strip (sr_rows t)" "stat_to_row 0" row_event sql_insert
proof unfold_locales
  fix x and t :: stats_table
  have "row_event (stat_to_row 0 x) \<in> row_event ` set (map row_strip (sr_rows t)) \<longleftrightarrow>
      list_ex (\<lambda>r. row_event r = row_event (stat_to_row 0 x)) (sr_rows t)"
    by (auto simp: list_ex_iff image_image intro: rev_image_eqI)
  then show "map row_strip (sr_rows (sql_insert x t)) =
      (if row_event (stat_to_row 0 x) \<in> row_event ` set (map row_strip (sr_rows t)) then map row_strip (sr_rows t)
       else map row_strip (sr_rows t) @ [stat_to_row 0 x])"
    unfolding sql_insert_def Let_def row_event_to_row [of "sr_next t"] by (simp add: row_strip_to_row)
qed simp

section \<open>Properties\<close>

text \<open>
  A Stat is recorded once, however often its event is delivered.  Inserting any sequence of Stats,
  repetitions included, leaves the table with each event key exactly once, the keys being those that
  were there and those inserted; inserting one of them again changes no row.  The in-memory repository
  satisfies the same law.
\<close>

theorem stats_recorded_once:
  assumes "distinct (map row_event (sr_rows t))" and "distinct (map mem_key (mr_stats r))"
    and "t' = fold sql_insert xs t" and "r' = fold mem_insert xs r" and "x \<in> set xs"
  shows "distinct (map row_event (sr_rows t')) \<and>
     row_event ` set (sr_rows t') = row_event ` set (sr_rows t) \<union> (\<lambda>x. row_event (stat_to_row 0 x)) ` set xs \<and>
     map row_strip (sr_rows (sql_insert x t')) = map row_strip (sr_rows t') \<and>
     distinct (map mem_key (mr_stats r')) \<and>
     mem_key ` set (mr_stats r') = mem_key ` set (mr_stats r) \<union> mem_key ` set xs \<and>
     map strip_id (mr_stats (mem_insert x r')) = map strip_id (mr_stats r')"
proof -
  have strip: "map mem_key (map strip_id ss) = map mem_key ss" "mem_key ` strip_id ` set ss = mem_key ` set ss" for ss
    by (simp_all add: strip_id_def image_image)
  have rstrip: "map row_event (map row_strip rs) = map row_event rs"
    "row_event ` row_strip ` set rs = row_event ` set rs" for rs
    by (simp_all add: image_image)
  note S = sql_log.ins_all_distinct [OF TrueI, of t xs] sql_log.ins_all_keys [OF TrueI, of xs t]
    sql_log.ins_again [OF TrueI, of x xs t]
  note M = mem_log.ins_all_distinct [OF TrueI, of r xs] mem_log.ins_all_keys [OF TrueI, of xs r]
    mem_log.ins_again [OF TrueI, of x xs r]
  have keys: "(\<lambda>x. mem_key (strip_id x)) ` set xs = mem_key ` set xs" by (simp add: strip_id_def)
  show ?thesis
    using S M assms(1,2,5) unfolding assms(3,4) strip rstrip set_map keys by simp
qed

definition example_stat :: "go_time \<Rightarrow> Stat" where
  "example_stat ts = NewStat ''r@x.org'' ''msg_c@k.dev'' (DomainName ''k.dev'') ts Delivered"

lemma stats_recorded_once_witness:
  "length (sr_rows (fold sql_insert [example_stat 5000, example_stat 9000, example_stat 5000] \<lparr>sr_rows = [], sr_next = 1\<rparr>)) = 2 \<and>
   distinct (map row_event (sr_rows (fold sql_insert [example_stat 5000, example_stat 9000, example_stat 5000]
     \<lparr>sr_rows = [], sr_next = 1\<rparr>)))"
proof -
  let ?xs = "[example_stat 5000, example_stat 9000, example_stat 5000]"
  have "length (sr_rows (fold sql_insert ?xs \<lparr>sr_rows = [], sr_next = 1\<rparr>)) = 2"
    by (simp add: sql_insert_def Let_def row_event_def stat_to_row_def example_stat_def NewStat_def pg_timestamp_def)
  then show ?thesis
    using stats_recorded_once [of "\<lparr>sr_rows = [], sr_next = 1\<rparr>" NewInMemRepository _ ?xs, OF _ _ refl refl,
        of "example_stat 5000"]
    by (simp add: NewInMemRepository_def)
qed

lemma mem_filter_alt:
  "mem_filter dn tr r =
     filter (\<lambda>s. st_domain s = dn \<and> tr_start tr \<le> st_time s \<and> st_time s < tr_stop tr) (mr_stats r)"
  by (auto simp: mem_filter_def not_less intro: filter_cong)

text \<open>Rows that read back, and the abstraction to the in-memory form.\<close>

definition row_stat :: "stat_row \<Rightarrow> Stat" where
  "row_stat r = LoadStat (sr_id r) (sr_type r) (sr_email r) (sr_message r) (DomainName (sr_domain r)) (sr_time r)
     (StatsData_Outcome (sr_data r))"

definition rows_ok :: "stats_table \<Rightarrow> bool" where
  "rows_ok t \<longleftrightarrow> list_all (\<lambda>r. canonical (sr_domain r)) (sr_rows t)"

text \<open>A Stat whose time is a whole number of microseconds and whose outcome the package built.\<close>

definition storable :: "Stat \<Rightarrow> bool" where
  "storable s \<longleftrightarrow> pg_timestamp (st_time s) = st_time s \<and> canonical_name (st_domain s) \<and> built (st_outcome s)"

definition abs_stats :: "stats_table \<Rightarrow> Stat list" where
  "abs_stats t = map (\<lambda>r. strip_id (row_stat r)) (sr_rows t)"

lemma toDomainStat_ok: "canonical (sr_domain r) \<Longrightarrow> toDomainStat U r = Inr (row_stat r)"
  by (simp add: toDomainStat_def parse_canonical row_stat_def)

lemma load_all_ok: "list_all (\<lambda>r. canonical (sr_domain r)) rs \<Longrightarrow> load_all U rs = Inr (map row_stat rs)"
  by (induction rs) (simp_all add: toDomainStat_ok)

lemma row_stat_to_row: "storable s \<Longrightarrow> strip_id (row_stat (stat_to_row i s)) = strip_id s"
  by (cases s) (auto simp: row_stat_def stat_to_row_def LoadStat_def strip_id_def storable_def
      StatsData_roundtrip intro: DomainName.expand)

lemma row_event_key: "mem_key (row_stat r) = mem_key (row_stat q) \<longleftrightarrow> row_event r = row_event q"
  by (auto simp: mem_key_def row_stat_def LoadStat_def row_event_def)

lemma rows_ok_insert: "rows_ok t \<Longrightarrow> canonical_name (st_domain s) \<Longrightarrow> rows_ok (sql_insert s t)"
  by (auto simp: rows_ok_def sql_insert_def Let_def stat_to_row_def canonical_name_def)

text \<open>
  C33. The SQL repository implements the in-memory one.  On Stats whose time is a whole number of
  microseconds, under canonical Domains and with outcomes the package built, an insert into the table
  is the in-memory insert on what the table reads back as, ids aside; counting over a range aligned to
  microseconds and deleting what is older than an aligned instant agree as well.
\<close>

theorem sql_refines_memory:
  assumes "abs_stats t = map strip_id (mr_stats r)" and "storable s"
    and "pg_timestamp (tr_start tr) = tr_start tr" and "pg_timestamp (tr_stop tr) = tr_stop tr"
    and "pg_timestamp before = before"
  shows "abs_stats (sql_insert s t) = map strip_id (mr_stats (mem_insert s r)) \<and>
     sql_count dn tr t = mem_count dn tr r \<and>
     fst (sql_delete before t) = fst (mem_delete before r) \<and>
     abs_stats (snd (sql_delete before t)) = map strip_id (mr_stats (snd (mem_delete before r)))"
proof -
  have dup: "list_ex (\<lambda>q. row_event q = row_event (stat_to_row i s)) (sr_rows t) \<longleftrightarrow>
      list_ex (\<lambda>q. sameEvent q s) (mr_stats r)" for i
  proof -
    have key: "mem_key (row_stat (stat_to_row i s)) = mem_key s"
      using arg_cong [OF row_stat_to_row [OF assms(2)], of mem_key] by (simp add: strip_id_def)
    have "mem_key ` set (map strip_id (mr_stats r)) = mem_key ` set (mr_stats r)"
      by (simp add: strip_id_def image_image)
    then have "mem_key ` set (mr_stats r) = (\<lambda>q. mem_key (row_stat q)) ` set (sr_rows t)"
      unfolding assms(1) [symmetric] by (simp add: abs_stats_def strip_id_def image_image)
    then have "mem_key s \<in> mem_key ` set (mr_stats r) \<longleftrightarrow> mem_key s \<in> (\<lambda>q. mem_key (row_stat q)) ` set (sr_rows t)"
      by simp
    then show ?thesis
      unfolding list_ex_iff sameEvent_key row_event_key [symmetric] key image_iff by (metis (no_types))
  qed
  have count: "length (filter (\<lambda>q. P (st_domain (row_stat q)) (st_time (row_stat q))) (sr_rows t)) =
      length (filter (\<lambda>q. P (st_domain q) (st_time q)) (mr_stats r))" for P
  proof -
    have "length (filter (\<lambda>q. P (st_domain q) (st_time q)) (abs_stats t)) =
        length (filter (\<lambda>q. P (st_domain q) (st_time q)) (map strip_id (mr_stats r)))"
      using assms(1) by simp
    then show ?thesis by (simp add: abs_stats_def filter_map comp_def strip_id_def)
  qed
  have "sql_count dn tr t = mem_count dn tr r"
    using count [of "\<lambda>d ts. d = dn \<and> tr_start tr \<le> ts \<and> ts < tr_stop tr"] assms(3,4)
    by (cases dn) (simp add: sql_count_def mem_count_def sql_select_def mem_filter_alt row_stat_def LoadStat_def)
  moreover have "abs_stats (sql_insert s t) = map strip_id (mr_stats (mem_insert s r))"
    using assms(1) dup by (simp add: sql_insert_def mem_insert_def Let_def abs_stats_def row_stat_to_row [OF assms(2)])
      (simp add: strip_id_def)
  moreover have "fst (sql_delete before t) = fst (mem_delete before r)"
    using count [of "\<lambda>d ts. ts < before"] assms(5)
    by (simp add: sql_delete_def mem_delete_def row_stat_def LoadStat_def)
  moreover have "abs_stats (snd (sql_delete before t)) = map strip_id (mr_stats (snd (mem_delete before r)))"
  proof -
    have "filter (\<lambda>q. \<not> st_time q < before) (abs_stats t) =
        filter (\<lambda>q. \<not> st_time q < before) (map strip_id (mr_stats r))"
      using assms(1) by simp
    then show ?thesis
      using assms(5) by (simp add: abs_stats_def sql_delete_def mem_delete_def filter_map comp_def strip_id_def
          row_stat_def LoadStat_def)
  qed
  ultimately show ?thesis by blast
qed

lemma sql_refines_memory_witness:
  "abs_stats (sql_insert (example_stat 5000) \<lparr>sr_rows = [], sr_next = 1\<rparr>) =
     map strip_id (mr_stats (mem_insert (example_stat 5000) NewInMemRepository))"
proof -
  have s: "storable (example_stat 5000)"
    by (simp add: storable_def example_stat_def NewStat_def pg_timestamp_def canonical_name_def) code_simp
  show ?thesis
    using sql_refines_memory [OF _ s, of "\<lparr>sr_rows = [], sr_next = 1\<rparr>" NewInMemRepository
        "\<lparr>tr_start = 0, tr_stop = 0\<rparr>" 0]
    by (simp add: abs_stats_def NewInMemRepository_def pg_timestamp_def)
qed

text \<open>
  A Domain's Stats are read only by who may list them, and only that Domain's.  When \<open>QueryStats\<close>
  answers, the caller may List the Domain's stats, every Stat returned is the reading of a row of that
  Domain in the range, newest first, the page holds as many as the limit allows past the offset, and
  the total is the number of such rows; a refused caller learns nothing, whatever is stored.
\<close>

lemma query_isolated:
  assumes "rows_ok t" and "order_ok ord" and "sv_repo s = t"
    and "0 \<le> pg_offset page" and "pg_offset page < 2 ^ 31" and "0 \<le> pg_limit page" and "pg_limit page < 2 ^ 31"
    and "QueryStats U ord c dn tr page recs s = (res, recs', s')"
  shows "s' = s \<and>
     (if permitted c List (StatsR dn) then
        \<exists>ss. res = Inr (ss, int (length (sql_select (dn_string dn) tr t))) \<and>
          (\<forall>x\<in>set ss. st_domain x = dn \<and> pg_timestamp (tr_start tr) \<le> st_time x \<and> st_time x < pg_timestamp (tr_stop tr)) \<and>
          sorted_wrt (\<lambda>a b. st_time b \<le> st_time a) ss \<and>
          int (length ss) = min (pg_limit page) (max 0 (int (length (sql_select (dn_string dn) tr t)) - pg_offset page))
      else res = Inl (AuthzError (if c_principal c = None then ErrNoPrincipal else ErrForbidden)))"
proof (cases "permitted c List (StatsR dn)")
  case False
  then show ?thesis using assms(8) by (simp add: QueryStats_def Guard_cases)
next
  case True
  have i32: "int32 x = x" if "0 \<le> x" "x < 2 ^ 31" for x
    unfolding int32_def using that by (intro signed_take_bit_int_eq_self) (rule order_trans [of _ 0], simp_all)
  let ?sel = "sql_select (dn_string dn) tr t"
  let ?page = "take (nat (pg_limit page)) (drop (nat (pg_offset page)) (ord ?sel))"
  have ord: "mset (ord ?sel) = mset ?sel" "sorted_wrt (\<lambda>a b. sr_time b \<le> sr_time a) (ord ?sel)"
    using assms(2) by (simp_all add: order_ok_def)
  have set_ord: "set (ord ?sel) = set ?sel" using ord(1) by (metis set_mset_mset)
  have len: "length (ord ?sel) = length ?sel" using ord(1) by (metis size_mset)
  have mem: "x \<in> set ?sel" if "x \<in> set ?page" for x
    using that set_ord by (auto dest: in_set_takeD in_set_dropD)
  have sel: "sr_domain x = dn_string dn \<and> canonical (sr_domain x) \<and> pg_timestamp (tr_start tr) \<le> sr_time x \<and>
      sr_time x < pg_timestamp (tr_stop tr)" if "x \<in> set ?sel" for x
    using that assms(1) by (auto simp: sql_select_def rows_ok_def list_all_iff)
  have "list_all (\<lambda>r. canonical (sr_domain r)) ?page"
    unfolding list_all_iff using mem sel by (metis (no_types, lifting))
  then have q: "sql_query U ord dn tr page t = Inr (map row_stat ?page)"
    using assms(4-7) by (simp add: sql_query_def Let_def i32 load_all_ok)
  have "sorted_wrt (\<lambda>a b. sr_time b \<le> sr_time a) ?page"
    using ord(2) by (intro sorted_wrt_take sorted_wrt_drop)
  then have "sorted_wrt (\<lambda>a b. st_time b \<le> st_time a) (map row_stat ?page)"
    by (simp add: sorted_wrt_map row_stat_def LoadStat_def)
  moreover have "\<forall>x\<in>set (map row_stat ?page). st_domain x = dn \<and> pg_timestamp (tr_start tr) \<le> st_time x \<and>
      st_time x < pg_timestamp (tr_stop tr)"
    using mem sel by (fastforce simp: row_stat_def LoadStat_def)
  moreover have "int (length (map row_stat ?page)) =
      min (pg_limit page) (max 0 (int (length ?sel) - pg_offset page))"
  proof -
    obtain m n where "pg_offset page = int m" "pg_limit page = int n"
      using assms(4,6) by (metis nonneg_int_cases)
    then show ?thesis by (auto simp: len min_def max_def)
  qed
  moreover have "res = Inr (map row_stat ?page, int (length ?sel))" "s' = s"
    using assms(3,8) True q by (simp_all add: QueryStats_def Guard_cases sql_count_def)
  ultimately show ?thesis
    unfolding if_P [OF True] by (intro conjI exI [of _ "map row_stat ?page"])
qed

definition newest_first :: "stat_row list \<Rightarrow> stat_row list" where
  "newest_first rs = rev (sort_key sr_time rs)"

lemma newest_first_ok: "order_ok newest_first"
proof -
  have "sorted_wrt (\<lambda>a b. sr_time b \<le> sr_time a) (rev (sort_key sr_time rs))" for rs
    using sorted_sort_key [of sr_time rs] by (simp add: sorted_wrt_rev sorted_wrt_map)
  then show ?thesis unfolding order_ok_def newest_first_def by (metis mset_rev mset_sort)
qed

definition example_table :: stats_table where
  "example_table = sql_insert (example_stat 5000) \<lparr>sr_rows = [], sr_next = 1\<rparr>"

lemma example_table_ok: "rows_ok example_table"
  by (simp add: rows_ok_def example_table_def sql_insert_def Let_def stat_to_row_def example_stat_def NewStat_def) code_simp

section \<open>Counters\<close>

lemma agg_increment_lookup:
  "map_of (agg_increment dn ts ty a) k =
     (if k = (dn_string dn, ts, ty) then Some (case map_of a k of Some n \<Rightarrow> n + 1 | None \<Rightarrow> 1) else map_of a k)"
  by (auto simp: agg_increment_def Let_def update_conv' split: option.split)

text \<open>The counter of a key, where an absent one is zero.\<close>

definition agg_count :: "agg_key \<Rightarrow> agg_repo \<Rightarrow> int" where
  "agg_count k a = (case map_of a k of Some n \<Rightarrow> n | None \<Rightarrow> 0)"

lemma agg_count_increment:
  "agg_count k (agg_increment dn ts ty a) = agg_count k a + (if k = (dn_string dn, ts, ty) then 1 else 0)"
  by (auto simp: agg_count_def agg_increment_lookup split: option.split)

lemma truncate_hour_le: "truncate_hour t \<le> t \<and> t < truncate_hour t + hour_ns"
proof -
  have "t = t div hour_ns * hour_ns + t mod hour_ns" by simp
  moreover have "0 \<le> t mod hour_ns" "t mod hour_ns < hour_ns" by (simp_all add: hour_ns_def)
  ultimately show ?thesis unfolding truncate_hour_def by linarith
qed

lemma truncate_hour_idem [simp]: "truncate_hour (truncate_hour t) = truncate_hour t"
  by (simp add: truncate_hour_def hour_ns_def)

end
