(* ===== verification/Stream.thy ===== *)
theory Stream
  imports Delivery
begin

text \<open>
  What the workers share of NATS JetStream and of \<open>internal/utils\<close>: what a handler tells the server to do
  with a message, how a call to another process can turn out, the ack deadline curve of a consumer
  (\<open>utils.go\<close>) and the creation of a stream with retries (\<open>stream.go\<close>).
\<close>

datatype disposition = MsgAck | MsgTerm | MsgNak | MsgNakWithDelay go_time

text \<open>
  A call that leaves the process is answered, refused (an error, and nothing happened), or answered with
  an error although it took effect, because only the reply was lost.
\<close>

datatype reply = Answered | Refused | LostReply

definition remote :: "reply \<Rightarrow> 'e \<Rightarrow> ('s \<Rightarrow> ('e + 'a) \<times> 's) \<Rightarrow> 's \<Rightarrow> ('e + 'a) \<times> 's" where
  "remote a e f s = (case a of Answered \<Rightarrow> f s | Refused \<Rightarrow> (Inl e, s) | LostReply \<Rightarrow> (Inl e, snd (f s)))"

lemma remote_state: "snd (remote a e f s) \<in> {s, snd (f s)}"
  by (cases a) (simp_all add: remote_def)

lemma remote_Inr: "remote a e f s = (Inr x, s') \<Longrightarrow> f s = (Inr x, s') \<and> a = Answered"
  by (cases a) (simp_all add: remote_def)

lemma remote_simps [simp]:
  "remote Answered e f s = f s" "remote Refused e f s = (Inl e, s)" "remote LostReply e f s = (Inl e, snd (f s))"
  by (simp_all add: remote_def)

section \<open>Ack policies\<close>

definition second :: duration where "second = 1000000000"

definition consumerMaxDeliver :: nat where "consumerMaxDeliver = 100"

type_synonym AckPolicy = "duration list"

text \<open>\<open>p[0]\<close> panics on an empty policy: \<open>None\<close>.\<close>

definition FirstDeadline :: "AckPolicy \<Rightarrow> duration option" where
  "FirstDeadline p = (case p of [] \<Rightarrow> None | d # _ \<Rightarrow> Some d)"

record ConsumerConfig =
  cc_ack_wait :: duration
  cc_backoff :: AckPolicy
  cc_max_deliver :: nat

definition applyTo :: "AckPolicy \<Rightarrow> ConsumerConfig \<Rightarrow> ConsumerConfig option" where
  "applyTo p cfg =
     (case FirstDeadline p of None \<Rightarrow> None | Some d \<Rightarrow> Some (cfg\<lparr>cc_ack_wait := d, cc_backoff := p\<rparr>))"

definition DefaultAckPolicy :: AckPolicy where
  "DefaultAckPolicy = [1 * second, 5 * second, 30 * second, 1 * minute, 5 * minute]"

definition WithAckPolicy :: "AckPolicy \<Rightarrow> AckPolicy \<Rightarrow> AckPolicy" where
  "WithAckPolicy p ack = (if length p = 0 then ack else p)"

definition consumer_config :: "AckPolicy list \<Rightarrow> ConsumerConfig option" where
  "consumer_config opts =
     applyTo (fold WithAckPolicy opts DefaultAckPolicy)
       \<lparr>cc_ack_wait = 0, cc_backoff = [], cc_max_deliver = consumerMaxDeliver\<rparr>"

definition sendAckPolicy :: AckPolicy where
  "sendAckPolicy = [2 * minute, 5 * minute, 15 * minute]"

text \<open>
  The server's documented reading of the curve: entry \<open>i\<close> is the deadline of attempt \<open>i + 1\<close>, and the last
  entry governs the rest.
\<close>

definition deadline :: "AckPolicy \<Rightarrow> nat \<Rightarrow> duration" where
  "deadline p i = p ! min i (length p - 1)"

text \<open>Instant, from its first delivery, at which attempt \<open>n + 1\<close> of a message nobody settles goes out.\<close>

definition redelivery_at :: "AckPolicy \<Rightarrow> nat \<Rightarrow> int" where
  "redelivery_at p n = sum_list (map (\<lambda>i. sint (deadline p i)) [0..<n])"

lemma fold_WithAckPolicy_nonempty: "p \<noteq> [] \<Longrightarrow> fold WithAckPolicy opts p \<noteq> []"
  by (induction opts arbitrary: p) (simp_all add: WithAckPolicy_def)

text \<open>
  Every consumer is created with a deadline it really gets: whatever policies are asked for, empty ones
  included, the configuration exists, its ack wait is the first entry of its backoff curve (which is
  never empty), and its deliveries are capped at 100; the curve of the sending consumer gives a first
  attempt two minutes, and an Envelope nobody settles is still being redelivered past the hour for which
  a send is remembered, from its sixth attempt on.
\<close>

theorem consumer_deadlines:
  shows "(\<exists>cfg d ds. consumer_config opts = Some cfg \<and> cc_backoff cfg = d # ds \<and> cc_ack_wait cfg = d \<and>
       cc_max_deliver cfg = 100) \<and>
     consumer_config [sendAckPolicy, []] = consumer_config [sendAckPolicy] \<and>
     sint (deadline sendAckPolicy 0) = 120 * 1000000000 \<and>
     sint hour < redelivery_at sendAckPolicy 6 \<and> redelivery_at sendAckPolicy 5 < sint hour"
proof -
  have "fold WithAckPolicy opts DefaultAckPolicy \<noteq> []"
    by (rule fold_WithAckPolicy_nonempty) (simp add: DefaultAckPolicy_def)
  then obtain d ds where "fold WithAckPolicy opts DefaultAckPolicy = d # ds"
    by (cases "fold WithAckPolicy opts DefaultAckPolicy") simp_all
  then have "\<exists>cfg d ds. consumer_config opts = Some cfg \<and> cc_backoff cfg = d # ds \<and> cc_ack_wait cfg = d \<and>
       cc_max_deliver cfg = 100"
    by (simp add: consumer_config_def applyTo_def FirstDeadline_def consumerMaxDeliver_def)
  moreover have "consumer_config [sendAckPolicy, []] = consumer_config [sendAckPolicy]"
    by (simp add: consumer_config_def WithAckPolicy_def)
  moreover have "sint (deadline sendAckPolicy 0) = 120 * 1000000000" by code_simp
  moreover have "sint hour < redelivery_at sendAckPolicy 6" by code_simp
  moreover have "redelivery_at sendAckPolicy 5 < sint hour" by code_simp
  ultimately show ?thesis by blast
qed

section \<open>Creating a stream\<close>

datatype stream_result = StreamReady | StreamCancelled | StreamFailed nat

text \<open>
  The retry loop, with \<open>n\<close> attempts left: whether attempt \<open>i\<close> succeeds and whether the context ends during
  the wait after it are the arguments \<open>create\<close> and \<open>done\<close>.  The result comes with the waits begun.
\<close>

fun configure_loop ::
  "(nat \<Rightarrow> bool) \<Rightarrow> (nat \<Rightarrow> bool) \<Rightarrow> nat \<Rightarrow> duration \<Rightarrow> nat \<Rightarrow> stream_result \<times> duration list" where
  "configure_loop create cancelled attempts baseDelay 0 = (StreamFailed attempts, [])"
| "configure_loop create cancelled attempts baseDelay (Suc n) =
     (let attempt = attempts - Suc n in
      if create attempt then (StreamReady, [])
      else if attempt = attempts - 1 then (StreamFailed attempts, [])
      else (let delay = baseDelay * push_bit attempt 1 in
            if cancelled attempt then (StreamCancelled, [delay])
            else (let (r, ds) = configure_loop create cancelled attempts baseDelay n in (r, delay # ds))))"

definition configureStreamWithRetry ::
  "(nat \<Rightarrow> bool) \<Rightarrow> (nat \<Rightarrow> bool) \<Rightarrow> nat \<Rightarrow> duration \<Rightarrow> stream_result \<times> duration list" where
  "configureStreamWithRetry create cancelled attempts baseDelay =
     configure_loop create cancelled attempts baseDelay attempts"

definition configureStreamAttempts :: nat where "configureStreamAttempts = 5"
definition configureStreamBaseDelay :: duration where "configureStreamBaseDelay = 1 * second"

definition ConfigureStream :: "(nat \<Rightarrow> bool) \<Rightarrow> (nat \<Rightarrow> bool) \<Rightarrow> stream_result \<times> duration list" where
  "ConfigureStream create cancelled =
     configureStreamWithRetry create cancelled configureStreamAttempts configureStreamBaseDelay"

lemma ConfigureStream_unfold:
  "ConfigureStream create cancelled =
     (if create 0 then (StreamReady, []) else if cancelled 0 then (StreamCancelled, [1 * second])
      else if create 1 then (StreamReady, [1 * second]) else if cancelled 1 then (StreamCancelled, [1 * second, 2 * second])
      else if create 2 then (StreamReady, [1 * second, 2 * second])
      else if cancelled 2 then (StreamCancelled, [1 * second, 2 * second, 4 * second])
      else if create 3 then (StreamReady, [1 * second, 2 * second, 4 * second])
      else if cancelled 3 then (StreamCancelled, [1 * second, 2 * second, 4 * second, 8 * second])
      else if create 4 then (StreamReady, [1 * second, 2 * second, 4 * second, 8 * second])
      else (StreamFailed 5, [1 * second, 2 * second, 4 * second, 8 * second]))"
proof -
  note step = configure_loop.simps(2) [of create cancelled 5 "1 * second", simplified Let_def]
  note run = step [of 0, simplified] step [of 1, unfolded Suc_1, simplified] step [of 2, simplified] step [of 3, simplified]
    step [of 4, simplified]
  have "push_bit 0 (1 :: duration) = 1" "push_bit (Suc 0) (1 :: duration) = 2"
    "push_bit 2 (1 :: duration) = 4" "push_bit 3 (1 :: duration) = 8"
    by code_simp+
  then show ?thesis
    by (simp add: ConfigureStream_def configureStreamWithRetry_def configureStreamAttempts_def
        configureStreamBaseDelay_def run mult.commute)
qed

lemma below_five: "(\<exists>i<5. P i) = (P 0 \<or> P 1 \<or> P 2 \<or> P 3 \<or> P (4::nat))"
  "(\<forall>i<5. P i) = (P 0 \<and> P 1 \<and> P 2 \<and> P 3 \<and> P (4::nat))" "(\<forall>i<4. P i) = (P 0 \<and> P 1 \<and> P 2 \<and> P (3::nat))"
  "(\<forall>i<3. P i) = (P 0 \<and> P 1 \<and> P (2::nat))" "(\<forall>i<2. P i) = (P 0 \<and> P (1::nat))"
  by (auto simp: numeral_eq_Suc less_Suc_eq)

text \<open>
  Creating a stream rides out an outage of bounded length.  The stream is ready exactly when one of
  the five attempts succeeds and the context was not cancelled during a wait before it; the failure is
  reported after the fifth; and the waits begun are a prefix of 1, 2, 4 and 8 seconds, 15 in all.
\<close>

theorem ConfigureStream_bounded:
  shows "(fst (ConfigureStream create cancelled) = StreamReady) =
       (\<exists>i<5. create i \<and> (\<forall>j<i. \<not> create j \<and> \<not> cancelled j)) \<and>
     (fst (ConfigureStream create cancelled) = StreamFailed 5) =
       ((\<forall>i<5. \<not> create i) \<and> (\<forall>j<4. \<not> cancelled j)) \<and>
     (\<exists>k\<le>4. snd (ConfigureStream create cancelled) = take k [1 * second, 2 * second, 4 * second, 8 * second])"
proof (intro conjI)
  show "(fst (ConfigureStream create cancelled) = StreamReady) =
       (\<exists>i<5. create i \<and> (\<forall>j<i. \<not> create j \<and> \<not> cancelled j))"
    unfolding below_five ConfigureStream_unfold by auto
  show "(fst (ConfigureStream create cancelled) = StreamFailed 5) =
       ((\<forall>i<5. \<not> create i) \<and> (\<forall>j<4. \<not> cancelled j))"
    unfolding below_five ConfigureStream_unfold by auto
  let ?ds = "[1 * second, 2 * second, 4 * second, 8 * second]"
  have "snd (ConfigureStream create cancelled) \<in> (\<lambda>k. take k ?ds) ` {0, 1, 2, 3, 4}"
    unfolding ConfigureStream_unfold by simp
  then obtain k :: nat where e: "snd (ConfigureStream create cancelled) = take k ?ds" and "k \<in> {0, 1, 2, 3, 4}"
    by (rule imageE)
  then have "k \<le> 4" by (elim insertE emptyE) simp_all
  with e show "\<exists>k\<le>4. snd (ConfigureStream create cancelled) = take k ?ds" by (intro exI conjI)
qed

lemma ConfigureStream_bounded_witness:
  "fst (ConfigureStream (\<lambda>i. i = 2) (\<lambda>_. False)) = StreamReady"
  by (rule ConfigureStream_bounded [THEN conjunct1, THEN iffD2]) (rule exI [of _ 2], simp)

end
