(* ===== verification/StatsWorker.thy ===== *)
theory StatsWorker
  imports StatsStore Stream
begin

text \<open>
  \<open>pkg/stats/stats.go\<close>: the two consumers of the stats stream, one writing a row per event, one counting
  per hour.  A handler is a function of the message bytes, of whether the database answers, and of the
  service's state; it returns what it told the stream to do with the message.
\<close>

definition retention_default :: go_time where
  "retention_default = 8760 * hour_ns"

definition setDefaults :: "go_time \<Rightarrow> go_time" where
  "setDefaults retention = (if retention \<le> 0 then retention_default else retention)"

definition decodeEvent :: "('b \<Rightarrow> wire_stats option) \<Rightarrow> 'b \<Rightarrow> Event option" where
  "decodeEvent unm b = UnmarshalEvent unm b"

definition eventDomain :: "unicode \<Rightarrow> Event \<Rightarrow> DomainName option" where
  "eventDomain U e = (case parse U (ev_domain e) of Inl _ \<Rightarrow> None | Inr dn \<Rightarrow> Some dn)"

definition handleAggregatedStatsMsg ::
  "unicode \<Rightarrow> ('b \<Rightarrow> wire_stats option) \<Rightarrow> bool \<Rightarrow> 'b \<Rightarrow> stats_service \<Rightarrow> disposition \<times> stats_service" where
  "handleAggregatedStatsMsg U unm avail b s =
     (case decodeEvent unm b of
        None \<Rightarrow> (MsgTerm, s)
      | Some event \<Rightarrow>
          (case eventDomain U event of
             None \<Rightarrow> (MsgTerm, s)
           | Some dn \<Rightarrow>
               (case IncrementAggregatedStat avail dn (ev_time event) (outcome_type (ev_outcome event)) s of
                  (False, s') \<Rightarrow> (MsgNak, s')
                | (True, s') \<Rightarrow> (MsgAck, s'))))"

definition handleStatsMsg ::
  "unicode \<Rightarrow> ('b \<Rightarrow> wire_stats option) \<Rightarrow> bool \<Rightarrow> 'b \<Rightarrow> stats_service \<Rightarrow> disposition \<times> stats_service" where
  "handleStatsMsg U unm avail b s =
     (case decodeEvent unm b of
        None \<Rightarrow> (MsgTerm, s)
      | Some event \<Rightarrow>
          (case eventDomain U event of
             None \<Rightarrow> (MsgTerm, s)
           | Some dn \<Rightarrow>
               (let stat = NewStat (ev_email event) (ev_message event) dn (ev_time event) (ev_outcome event) in
                if ev_mode event = ModeAnonymous then (MsgAck, s)
                else if NamesNobody U (ev_email event) (ev_domain event) then (MsgTerm, s)
                else (case InsertStat avail stat s of
                        (False, s') \<Rightarrow> (MsgNak, s')
                      | (True, s') \<Rightarrow> (MsgAck, s')))))"

text \<open>One round of the cleanup loop, when both statements are answered.\<close>

definition cleanup_cycle :: "go_time \<Rightarrow> go_time \<Rightarrow> stats_service \<Rightarrow> stats_service" where
  "cleanup_cycle now retention s = snd (Cleanup now retention s)"

section \<open>What the consumers do\<close>

definition event_stat :: "DomainName \<Rightarrow> Event \<Rightarrow> Stat" where
  "event_stat dn e = NewStat (ev_email e) (ev_message e) dn (ev_time e) (ev_outcome e)"

lemma handleStatsMsg_eq:
  assumes "decodeEvent unm b = Some e" and "eventDomain U e = Some dn"
  shows "handleStatsMsg U unm avail b s =
     (if ev_mode e = ModeAnonymous then (MsgAck, s)
      else if NamesNobody U (ev_email e) (ev_domain e) then (MsgTerm, s)
      else if avail then (MsgAck, s\<lparr>sv_repo := sql_insert (event_stat dn e) (sv_repo s)\<rparr>)
      else (MsgNak, s))"
  using assms by (simp add: handleStatsMsg_def InsertStat_def event_stat_def Let_def)

lemma sql_insert_rows: "r \<in> set (sr_rows (sql_insert x t)) \<Longrightarrow>
    r \<in> set (sr_rows t) \<or> r = stat_to_row (sr_next t) x"
  by (auto simp: sql_insert_def Let_def split: if_splits)


definition example_pseudonymous :: Event where
  "example_pseudonymous =
     \<lparr>ev_message = ''msg_c@k.dev'', ev_domain = ''k.dev'', ev_email = ''0aff@track.k.dev'', ev_time = 5000,
      ev_outcome = Opened '''' '''', ev_mode = ModePseudonymous\<rparr>"

definition empty_service :: stats_service where
  "empty_service = \<lparr>sv_repo = \<lparr>sr_rows = [], sr_next = 1\<rparr>, sv_agg = Some []\<rparr>"

lemma example_domain: "eventDomain no_unicode example_pseudonymous = Some (DomainName ''k.dev'')"
  by code_simp


text \<open>The key a message is counted under, when it is counted.\<close>

definition counted_key :: "unicode \<Rightarrow> ('b \<Rightarrow> wire_stats option) \<Rightarrow> 'b \<Rightarrow> agg_key option" where
  "counted_key U unm b =
     (case decodeEvent unm b of None \<Rightarrow> None
      | Some e \<Rightarrow> map_option (\<lambda>dn. (dn_string dn, truncate_hour (ev_time e), outcome_type (ev_outcome e))) (eventDomain U e))"

lemma handleAggregated_count:
  "sv_agg s = Some a \<Longrightarrow>
     \<exists>a'. sv_agg (snd (handleAggregatedStatsMsg U unm True b s)) = Some a' \<and>
       sv_repo (snd (handleAggregatedStatsMsg U unm True b s)) = sv_repo s \<and>
       agg_count k a' = agg_count k a + (if counted_key U unm b = Some k then 1 else 0)"
  by (auto simp: handleAggregatedStatsMsg_def counted_key_def IncrementAggregatedStat_def agg_count_increment
      split: option.split)

text \<open>
  The hourly counters count every Mode alike.  Over any sequence of messages, while the database
  answers, the counter of a Domain, hour and type grows by exactly the number of messages that decode to
  an event of that Domain, hour and type (whoever it names and whatever its Tracking Mode) and no
  per-recipient row is written; the hour holds the instant it counts.
\<close>

theorem counters_count_every_mode:
  assumes "sv_agg s = Some a"
  shows "\<exists>a'. sv_agg (fold (\<lambda>b s. snd (handleAggregatedStatsMsg U unm True b s)) bs s) = Some a' \<and>
     sv_repo (fold (\<lambda>b s. snd (handleAggregatedStatsMsg U unm True b s)) bs s) = sv_repo s \<and>
     agg_count k a' = agg_count k a + int (length (filter (\<lambda>b. counted_key U unm b = Some k) bs)) \<and>
     truncate_hour t \<le> t \<and> t < truncate_hour t + hour_ns"
  using assms
proof (induction bs arbitrary: s a)
  case Nil
  then show ?case using truncate_hour_le by simp
next
  case (Cons b bs)
  obtain a1 where a1: "sv_agg (snd (handleAggregatedStatsMsg U unm True b s)) = Some a1"
    "sv_repo (snd (handleAggregatedStatsMsg U unm True b s)) = sv_repo s"
    "agg_count k a1 = agg_count k a + (if counted_key U unm b = Some k then 1 else 0)"
    using handleAggregated_count [OF Cons.prems, of U unm b k] by (elim exE conjE)
  from Cons.IH [OF a1(1)] a1(2,3) show ?case by auto
qed

lemma counters_count_every_mode_witness:
  "\<exists>a'. sv_agg (fold (\<lambda>b s. snd (handleAggregatedStatsMsg no_unicode (\<lambda>_. Some (FromEvent example_pseudonymous)) True b s))
      [(), ()] empty_service) = Some a' \<and> agg_count (''k.dev'', 0, TypeOpened) a' = 2"
proof -
  let ?unm = "\<lambda>_ :: unit. Some (FromEvent example_pseudonymous)"
  have d: "decodeEvent ?unm () = Some example_pseudonymous"
    by (simp add: decodeEvent_def UnmarshalEvent_def ToEvent_def FromEvent_def example_pseudonymous_def
        ToMode_def ToOutcome_FromOutcome)
  have k: "counted_key no_unicode ?unm () = Some (''k.dev'', 0, TypeOpened)"
    unfolding counted_key_def d option.case example_domain
    by (simp add: example_pseudonymous_def truncate_hour_def hour_ns_def)
  have a: "sv_agg empty_service = Some []" by (simp add: empty_service_def)
  from counters_count_every_mode [OF a, of no_unicode ?unm "[(), ()]" "(''k.dev'', 0, TypeOpened)"]
  show ?thesis by (auto simp: k agg_count_def)
qed

end
