(* ===== verification/Dispatcher.thy ===== *)
theory Dispatcher
  imports StatsWorker DeliveryStore
begin

text \<open>
  \<open>internal/envelope/envelope.go\<close>, \<open>internal/envelopepb\<close>, \<open>internal/publisher\<close>, \<open>internal/pool\<close> and
  \<open>pkg/dispatcher\<close>: the Envelope and its wire form, the two publishing functions, the Claimer, and the
  Dispatcher's cycle and consumers.  The state is the \<open>world\<close>: the Pool table and what was published on
  the two streams.  A handler takes, for every call it may make, how that call turns out.
\<close>

section \<open>Envelopes and publishing\<close>

record Envelope =
  en_email_id :: string
  en_from :: string
  en_to :: string
  en_return_path :: string
  en_body :: string
  en_should_retry :: bool

record EmailToSend =
  ws_email_id :: string
  ws_from :: string
  ws_to :: string
  ws_return_path :: string
  ws_body :: string
  ws_should_retry :: bool

definition FromEnvelope :: "Envelope \<Rightarrow> EmailToSend" where
  "FromEnvelope e =
     \<lparr>ws_email_id = en_email_id e, ws_from = en_from e, ws_to = en_to e, ws_return_path = en_return_path e,
      ws_body = en_body e, ws_should_retry = en_should_retry e\<rparr>"

text \<open>The generated getters of a nil message return zero values.\<close>

definition ToEnvelope :: "EmailToSend option \<Rightarrow> Envelope" where
  "ToEnvelope m =
     (case m of
        None \<Rightarrow> \<lparr>en_email_id = [], en_from = [], en_to = [], en_return_path = [], en_body = [], en_should_retry = False\<rparr>
      | Some w \<Rightarrow> \<lparr>en_email_id = ws_email_id w, en_from = ws_from w, en_to = ws_to w,
          en_return_path = ws_return_path w, en_body = ws_body w, en_should_retry = ws_should_retry w\<rparr>)"

text \<open>The protobuf library, on the two messages the workers exchange.\<close>

record 'b codec =
  marshal_stats :: "wire_stats \<Rightarrow> 'b option"
  unmarshal_stats :: "'b \<Rightarrow> wire_stats option"
  marshal_email :: "EmailToSend \<Rightarrow> 'b option"
  unmarshal_email :: "'b \<Rightarrow> EmailToSend option"

definition codec_ok :: "'b codec \<Rightarrow> bool" where
  "codec_ok cd \<longleftrightarrow>
     (\<forall>m b. marshal_stats cd m = Some b \<longrightarrow> unmarshal_stats cd b = Some m) \<and>
     (\<forall>m b. marshal_email cd m = Some b \<longrightarrow> unmarshal_email cd b = Some m)"

definition MarshalEnvelope :: "'b codec \<Rightarrow> Envelope \<Rightarrow> 'b option" where
  "MarshalEnvelope cd env = marshal_email cd (FromEnvelope env)"

definition UnmarshalEnvelope :: "'b codec \<Rightarrow> 'b \<Rightarrow> Envelope option" where
  "UnmarshalEnvelope cd b = (case unmarshal_email cd b of None \<Rightarrow> None | Some m \<Rightarrow> Some (ToEnvelope (Some m)))"

lemma envelope_roundtrip:
  "codec_ok cd \<Longrightarrow> MarshalEnvelope cd env = Some b \<Longrightarrow> UnmarshalEnvelope cd b = Some env"
  by (simp add: codec_ok_def MarshalEnvelope_def UnmarshalEnvelope_def ToEnvelope_def FromEnvelope_def)

record 'b world =
  w_pool :: pool_table
  w_stats :: "(string \<times> 'b) list"
  w_sending :: "'b list"

datatype worker_error = Claim_error delivery_error | Marshal_error | Publish_error | Not_error_type | Decode_error

definition publish_stat_msg :: "string \<Rightarrow> 'b \<Rightarrow> 'b world \<Rightarrow> (worker_error + unit) \<times> 'b world" where
  "publish_stat_msg subj b w = (Inr (), w\<lparr>w_stats := w_stats w @ [(subj, b)]\<rparr>)"

definition publish_sending_msg :: "'b \<Rightarrow> 'b world \<Rightarrow> (worker_error + unit) \<times> 'b world" where
  "publish_sending_msg b w = (Inr (), w\<lparr>w_sending := w_sending w @ [b]\<rparr>)"

definition SendEmail :: "'b codec \<Rightarrow> reply \<Rightarrow> Envelope \<Rightarrow> 'b world \<Rightarrow> (worker_error + unit) \<times> 'b world" where
  "SendEmail cd a env w =
     (case MarshalEnvelope cd env of
        None \<Rightarrow> (Inl Marshal_error, w)
      | Some msg \<Rightarrow> remote a Publish_error (publish_sending_msg msg) w)"

definition stat_subject :: "StatOutcome \<Rightarrow> string" where
  "stat_subject oc = ''kannon.stats.'' @ type_string (outcome_type oc)"

definition PublishStat :: "'b codec \<Rightarrow> reply \<Rightarrow> Event \<Rightarrow> 'b world \<Rightarrow> (worker_error + unit) \<times> 'b world" where
  "PublishStat cd a e w =
     (let subj = stat_subject (ev_outcome e) in
      case MarshalEvent (marshal_stats cd) e of
        None \<Rightarrow> (Inl Marshal_error, w)
      | Some data \<Rightarrow> remote a Publish_error (publish_stat_msg subj data) w)"

section \<open>The Claimer\<close>

definition dl_key :: "Delivery \<Rightarrow> key" where
  "dl_key d = (dl_batch d, dl_email d)"

text \<open>A statement of the repository as a remote call of a worker on the world.\<close>

definition on_pool ::
  "reply \<Rightarrow> (pool_table \<Rightarrow> (delivery_error + 'a) \<times> pool_table) \<Rightarrow> 'b world \<Rightarrow> (worker_error + 'a) \<times> 'b world" where
  "on_pool a f w =
     (case remote a DeliveryDbError f (w_pool w) of
        (Inl e, t) \<Rightarrow> (Inl (Claim_error e), w\<lparr>w_pool := t\<rparr>)
      | (Inr x, t) \<Rightarrow> (Inr x, w\<lparr>w_pool := t\<rparr>))"

definition ClaimForValidation ::
  "repo \<Rightarrow> planner \<Rightarrow> go_time \<Rightarrow> reply \<Rightarrow> nat \<Rightarrow> 'b world \<Rightarrow> (worker_error + Delivery list) \<times> 'b world" where
  "ClaimForValidation rp sel now a lim =
     on_pool a (\<lambda>t. let (ds, t') = PrepareForValidate rp sel now lim t in (Inr ds, t'))"

definition ClaimForDispatch ::
  "repo \<Rightarrow> planner \<Rightarrow> go_time \<Rightarrow> reply \<Rightarrow> nat \<Rightarrow> 'b world \<Rightarrow> (worker_error + Delivery list) \<times> 'b world" where
  "ClaimForDispatch rp sel now a lim =
     on_pool a (\<lambda>t. let (ds, t') = PrepareForSend rp sel now lim t in (Inr ds, t'))"

definition MarkValidated :: "reply \<Rightarrow> Delivery \<Rightarrow> 'b world \<Rightarrow> (worker_error + unit) \<times> 'b world" where
  "MarkValidated a d = on_pool a (\<lambda>t. (Inr (), SetScheduled (dl_key d) t))"

definition claimer_Reschedule :: "repo \<Rightarrow> reply \<Rightarrow> Delivery \<Rightarrow> 'b world \<Rightarrow> (worker_error + unit) \<times> 'b world" where
  "claimer_Reschedule rp a d = on_pool a (Reschedule rp (dl_key d))"

definition claimer_Drop :: "reply \<Rightarrow> Delivery \<Rightarrow> 'b world \<Rightarrow> (worker_error + unit) \<times> 'b world" where
  "claimer_Drop a d = on_pool a (\<lambda>t. (Inr (), Clean (dl_key d) t))"

definition Lookup :: "repo \<Rightarrow> reply \<Rightarrow> string \<Rightarrow> string \<Rightarrow> 'b world \<Rightarrow> (worker_error + Delivery) \<times> 'b world" where
  "Lookup rp a batchID email = on_pool a (\<lambda>t. (GetDelivery rp (batchID, email) t, t))"

definition claimer_ReclaimStranded ::
  "repo \<Rightarrow> planner \<Rightarrow> go_time \<Rightarrow> reply \<Rightarrow> InFlight \<Rightarrow> go_time \<Rightarrow> nat \<Rightarrow> 'b world \<Rightarrow>
     (worker_error + Delivery list) \<times> 'b world" where
  "claimer_ReclaimStranded rp sel now a f olderThan lim =
     on_pool a (ReclaimStranded rp sel now f olderThan lim)"

section \<open>Reclaiming\<close>

definition reclaimPageSize :: nat where "reclaimPageSize = 1000"

record Reclaimer =
  rc_in_flight :: InFlight
  rc_older_than :: go_time

definition reclaimer_Cycle ::
  "repo \<Rightarrow> planner \<Rightarrow> go_time \<Rightarrow> reply \<Rightarrow> Reclaimer \<Rightarrow> 'b world \<Rightarrow> (worker_error + unit) \<times> 'b world" where
  "reclaimer_Cycle rp sel now a r w =
     (case claimer_ReclaimStranded rp sel now a (rc_in_flight r) (rc_older_than r) reclaimPageSize w of
        (Inl e, w') \<Rightarrow> (Inl e, w')
      | (Inr _, w') \<Rightarrow> (Inr (), w'))"

definition reclaimer_Loop ::
  "repo \<Rightarrow> planner \<Rightarrow> go_time \<Rightarrow> reply \<Rightarrow> Reclaimer \<Rightarrow> 'b world \<Rightarrow> (worker_error + unit) \<times> 'b world" where
  "reclaimer_Loop rp sel now a r w = (case reclaimer_Cycle rp sel now a r w of (_, w') \<Rightarrow> (Inr (), w'))"

definition sendingStrandThreshold :: go_time where "sendingStrandThreshold = hour_ns"

definition dispatcher_reclaimer :: Reclaimer where
  "dispatcher_reclaimer = \<lparr>rc_in_flight = InFlightForDispatch, rc_older_than = sendingStrandThreshold\<rparr>"

definition validatingStrandThreshold :: go_time where "validatingStrandThreshold = 5 * 60 * 1000000000"

definition validator_reclaimer :: Reclaimer where
  "validator_reclaimer = \<lparr>rc_in_flight = InFlightForValidation, rc_older_than = validatingStrandThreshold\<rparr>"

section \<open>The Dispatcher\<close>

definition reasonBudgetSpentDispatching :: string where
  "reasonBudgetSpentDispatching = ''retry budget exhausted while dispatching''"

definition reasonBudgetSpentSending :: string where
  "reasonBudgetSpentSending = ''retry budget exhausted while sending''"

text \<open>How the calls of one handler turn out.\<close>

record calls =
  c_lookup :: reply
  c_reschedule :: reply
  c_drop :: reply
  c_mark :: reply
  c_publish :: reply
  c_send :: reply

definition failed_event :: "go_time \<Rightarrow> Delivery \<Rightarrow> string \<Rightarrow> Event" where
  "failed_event now dlv reason =
     \<lparr>ev_message = dl_batch dlv, ev_domain = dl_domain dlv, ev_email = dl_email dlv, ev_time = now,
      ev_outcome = Failed reason, ev_mode = ModeUnspecified\<rparr>"

definition disp_fail ::
  "'b codec \<Rightarrow> go_time \<Rightarrow> calls \<Rightarrow> Delivery \<Rightarrow> string \<Rightarrow> 'b world \<Rightarrow> (worker_error + unit) \<times> 'b world" where
  "disp_fail cd now c dlv reason w =
     (case PublishStat cd (c_publish c) (failed_event now dlv reason) w of
        (Inl e, w') \<Rightarrow> (Inl e, w')
      | (Inr _, w') \<Rightarrow> claimer_Drop (c_drop c) dlv w')"

definition retryOrFail ::
  "repo \<Rightarrow> 'b codec \<Rightarrow> go_time \<Rightarrow> calls \<Rightarrow> Delivery \<Rightarrow> string \<Rightarrow> 'b world \<Rightarrow> (worker_error + unit) \<times> 'b world" where
  "retryOrFail rp cd now c dlv reason w =
     (if CanRetry dlv then claimer_Reschedule rp (c_reschedule c) dlv w
      else disp_fail cd now c dlv reason w)"

definition disp_reschedule :: "repo \<Rightarrow> 'b codec \<Rightarrow> go_time \<Rightarrow> calls \<Rightarrow> Delivery \<Rightarrow> 'b world \<Rightarrow> 'b world" where
  "disp_reschedule rp cd now c dlv w = snd (retryOrFail rp cd now c dlv reasonBudgetSpentDispatching w)"

text \<open>\<open>bld\<close> is what \<open>envelope.Builder.Build\<close> returned, \<open>None\<close> for its error.\<close>

definition dispatchOne ::
  "repo \<Rightarrow> 'b codec \<Rightarrow> go_time \<Rightarrow> calls \<Rightarrow> Envelope option \<Rightarrow> Delivery \<Rightarrow> 'b world \<Rightarrow> 'b world" where
  "dispatchOne rp cd now c bld dlv w =
     (case bld of
        None \<Rightarrow> disp_reschedule rp cd now c dlv w
      | Some env \<Rightarrow>
          (case SendEmail cd (c_send c) env w of
             (Inl e, w') \<Rightarrow> disp_reschedule rp cd now c dlv w'
           | (Inr _, w') \<Rightarrow> w'))"

definition dispatchClaimSize :: nat where "dispatchClaimSize = 20"

definition DispatchCycle ::
  "repo \<Rightarrow> 'b codec \<Rightarrow> planner \<Rightarrow> go_time \<Rightarrow> reply \<Rightarrow> (Delivery \<Rightarrow> calls) \<Rightarrow> (Delivery \<Rightarrow> Envelope option) \<Rightarrow>
     'b world \<Rightarrow> (worker_error + unit) \<times> 'b world" where
  "DispatchCycle rp cd sel now a c bld w =
     (case ClaimForDispatch rp sel now a dispatchClaimSize w of
        (Inl e, w') \<Rightarrow> (Inl e, w')
      | (Inr emails, w') \<Rightarrow> (Inr (), fold (\<lambda>dlv. dispatchOne rp cd now (c dlv) (bld dlv) dlv) emails w'))"

definition parseErrorsFunc ::
  "repo \<Rightarrow> 'b codec \<Rightarrow> go_time \<Rightarrow> calls \<Rightarrow> Event \<Rightarrow> 'b world \<Rightarrow> (worker_error + unit) \<times> 'b world" where
  "parseErrorsFunc rp cd now c e w =
     (if outcome_type (ev_outcome e) \<noteq> TypeError then (Inl Not_error_type, w)
      else case Lookup rp (c_lookup c) (ev_message e) (ev_email e) w of
        (Inl x, w') \<Rightarrow> (Inl x, w')
      | (Inr dlv, w') \<Rightarrow> retryOrFail rp cd now c dlv reasonBudgetSpentSending w')"

definition parsDeliveredFunc ::
  "repo \<Rightarrow> calls \<Rightarrow> Event \<Rightarrow> 'b world \<Rightarrow> (worker_error + unit) \<times> 'b world" where
  "parsDeliveredFunc rp c e w =
     (case Lookup rp (c_lookup c) (ev_message e) (ev_email e) w of
        (Inl x, w') \<Rightarrow> (Inl x, w')
      | (Inr dlv, w') \<Rightarrow> claimer_Drop (c_drop c) dlv w')"

definition parsBouncedFunc ::
  "repo \<Rightarrow> calls \<Rightarrow> Event \<Rightarrow> 'b world \<Rightarrow> (worker_error + unit) \<times> 'b world" where
  "parsBouncedFunc rp c e w =
     (case Lookup rp (c_lookup c) (ev_message e) (ev_email e) w of
        (Inl x, w') \<Rightarrow> (Inl x, w')
      | (Inr dlv, w') \<Rightarrow> claimer_Drop (c_drop c) dlv w')"

definition nakDelay :: go_time where "nakDelay = 5 * 1000000000"

definition handleWithAck ::
  "('b world \<Rightarrow> (worker_error + unit) \<times> 'b world) \<Rightarrow> 'b world \<Rightarrow> disposition \<times> 'b world" where
  "handleWithAck f w =
     (case f w of
        (Inr _, w') \<Rightarrow> (MsgAck, w')
      | (Inl err, w') \<Rightarrow>
          (if err = Claim_error ErrDeliveryNotFound then (MsgTerm, w') else (MsgNakWithDelay nakDelay, w')))"

definition handleMsg ::
  "'b codec \<Rightarrow> (Event \<Rightarrow> 'b world \<Rightarrow> (worker_error + unit) \<times> 'b world) \<Rightarrow> 'b \<Rightarrow> 'b world \<Rightarrow> disposition \<times> 'b world" where
  "handleMsg cd parse_fn data =
     handleWithAck (\<lambda>w. case UnmarshalEvent (unmarshal_stats cd) data of
       None \<Rightarrow> (Inl Decode_error, w)
     | Some event \<Rightarrow> parse_fn event w)"

definition handleErrors :: "repo \<Rightarrow> 'b codec \<Rightarrow> go_time \<Rightarrow> calls \<Rightarrow> 'b \<Rightarrow> 'b world \<Rightarrow> disposition \<times> 'b world" where
  "handleErrors rp cd now c = handleMsg cd (parseErrorsFunc rp cd now c)"

definition handleDelivers :: "repo \<Rightarrow> 'b codec \<Rightarrow> calls \<Rightarrow> 'b \<Rightarrow> 'b world \<Rightarrow> disposition \<times> 'b world" where
  "handleDelivers rp cd c = handleMsg cd (parsDeliveredFunc rp c)"

definition handleBounced :: "repo \<Rightarrow> 'b codec \<Rightarrow> calls \<Rightarrow> 'b \<Rightarrow> 'b world \<Rightarrow> disposition \<times> 'b world" where
  "handleBounced rp cd c = handleMsg cd (parsBouncedFunc rp c)"

text \<open>The subjects the three consumers subscribe to.\<close>

definition errors_subject :: string where "errors_subject = ''kannon.stats.error''"
definition delivered_subject :: string where "delivered_subject = ''kannon.stats.delivered''"
definition bounced_subject :: string where "bounced_subject = ''kannon.stats.bounced''"

section \<open>What a call does to the world\<close>

definition published :: "'b codec \<Rightarrow> 'b world \<Rightarrow> Event \<Rightarrow> bool" where
  "published cd w e \<longleftrightarrow>
     (case MarshalEvent (marshal_stats cd) e of None \<Rightarrow> False
      | Some data \<Rightarrow> (stat_subject (ev_outcome e), data) \<in> set (w_stats w))"

definition sent :: "'b codec \<Rightarrow> 'b world \<Rightarrow> Envelope option \<Rightarrow> bool" where
  "sent cd w bld \<longleftrightarrow>
     (case bld of None \<Rightarrow> False
      | Some env \<Rightarrow> (case MarshalEnvelope cd env of None \<Rightarrow> False | Some data \<Rightarrow> data \<in> set (w_sending w)))"

text \<open>Later worlds hold every message of earlier ones.\<close>

definition extends :: "'b world \<Rightarrow> 'b world \<Rightarrow> bool" where
  "extends w w' \<longleftrightarrow> set (w_stats w) \<subseteq> set (w_stats w') \<and> set (w_sending w) \<subseteq> set (w_sending w')"

lemma extends_refl [simp]: "extends w w" "extends w (w\<lparr>w_pool := t\<rparr>)" "extends (w\<lparr>w_pool := t\<rparr>) w"
  by (simp_all add: extends_def)

lemma extends_trans: "extends u v \<Longrightarrow> extends v w \<Longrightarrow> extends u w"
  by (auto simp: extends_def)

lemma published_extends: "published cd w e \<Longrightarrow> extends w w' \<Longrightarrow> published cd w' e"
  by (auto simp: published_def extends_def split: option.splits)

lemma sent_extends: "sent cd w bld \<Longrightarrow> extends w w' \<Longrightarrow> sent cd w' bld"
  by (auto simp: sent_def extends_def split: option.splits)

lemma PublishStat_effect:
  assumes "PublishStat cd a e w = (res, w')"
  shows "w_pool w' = w_pool w" and "extends w w'" and "res = Inr () \<Longrightarrow> published cd w' e"
    and "a = Answered \<Longrightarrow> MarshalEvent (marshal_stats cd) e \<noteq> None \<Longrightarrow> res = Inr ()"
  using assms
  by (auto simp: PublishStat_def published_def extends_def remote_def publish_stat_msg_def Let_def
      split: option.splits reply.splits)

lemma SendEmail_effect:
  assumes "SendEmail cd a env w = (res, w')"
  shows "w_pool w' = w_pool w" and "extends w w'" and "res = Inr () \<Longrightarrow> sent cd w' (Some env)"
  using assms
  by (auto simp: SendEmail_def sent_def extends_def remote_def publish_sending_msg_def
      split: option.splits reply.splits)

lemma on_pool_effect:
  assumes "on_pool a f w = (res, w')"
  shows "w_pool w' \<in> {w_pool w, snd (f (w_pool w))}" and "extends w w'" and "w_stats w' = w_stats w"
    and "w_sending w' = w_sending w"
    and "a = Answered \<Longrightarrow> w_pool w' = snd (f (w_pool w))"
    and "res = Inr x \<Longrightarrow> f (w_pool w) = (Inr x, w_pool w')"
  using assms
  by (auto simp: on_pool_def remote_def split: prod.splits sum.splits reply.splits)

section \<open>One claimed Delivery\<close>

text \<open>The row of a Delivery handed back for another attempt.\<close>

definition handed_back :: "repo \<Rightarrow> pool_row \<Rightarrow> pool_row" where
  "handed_back rp r =
     r\<lparr>row_status := Scheduled, row_scheduled := pg_timestamp (NextRetryAt (rowToDelivery rp r)),
       row_attempts := row_attempts r + 1\<rparr>"

definition calls_fine :: "'b codec \<Rightarrow> calls \<Rightarrow> Event \<Rightarrow> bool" where
  "calls_fine cd c e \<longleftrightarrow>
     c_reschedule c = Answered \<and> c_publish c = Answered \<and> c_drop c = Answered \<and>
     MarshalEvent (marshal_stats cd) e \<noteq> None"

text \<open>What became of the Delivery that held row \<open>r\<close>, when giving up publishes \<open>e\<close>.\<close>

definition retried_or_failed ::
  "repo \<Rightarrow> 'b codec \<Rightarrow> Event \<Rightarrow> bool \<Rightarrow> pool_row \<Rightarrow> 'b world \<Rightarrow> bool" where
  "retried_or_failed rp cd e kept r w' \<longleftrightarrow>
     (case GetPool (row_key r) (w_pool w') of
        None \<Rightarrow> \<not> CanRetry (rowToDelivery rp r) \<and> published cd w' e
      | Some r' \<Rightarrow> (r' = r \<and> kept) \<or> (CanRetry (rowToDelivery rp r) \<and> r' = handed_back rp r))"

lemma rowToDelivery_key [simp]: "dl_key (rowToDelivery rp r) = row_key r"
  by (simp add: dl_key_def rowToDelivery_def LoadDelivery_def row_key_def)

lemma retried_or_failed_mono:
  "retried_or_failed rp cd e kept r w \<Longrightarrow> (kept \<Longrightarrow> kept') \<Longrightarrow> extends w w' \<Longrightarrow>
     GetPool (row_key r) (w_pool w') = GetPool (row_key r) (w_pool w) \<Longrightarrow> retried_or_failed rp cd e kept' r w'"
  by (auto simp: retried_or_failed_def dest: published_extends split: option.splits)

text \<open>A worker's step on one key keeps the table well formed, the other rows and the messages.\<close>

definition local_step :: "key \<Rightarrow> 'b world \<Rightarrow> 'b world \<Rightarrow> bool" where
  "local_step k w w' \<longleftrightarrow>
     (pool_inv (w_pool w) \<longrightarrow> pool_inv (w_pool w')) \<and> extends w w' \<and>
     (\<forall>k'. k' \<noteq> k \<longrightarrow> GetPool k' (w_pool w') = GetPool k' (w_pool w))"

lemma local_step_other: "local_step k w w' \<Longrightarrow> k' \<noteq> k \<Longrightarrow> GetPool k' (w_pool w') = GetPool k' (w_pool w)"
  unfolding local_step_def by blast

lemma local_step_same_pool: "w_pool w' = w_pool w \<Longrightarrow> extends w w' \<Longrightarrow> local_step k w w'"
  by (simp add: local_step_def)

lemma local_step_trans: "local_step k u v \<Longrightarrow> local_step k v w \<Longrightarrow> local_step k u w"
  by (auto simp: local_step_def intro: extends_trans)

lemma claimer_local:
  "local_step (dl_key d) w (snd (claimer_Reschedule rp a d w))"
  "local_step (dl_key d) w (snd (claimer_Drop a d w))"
  "local_step (dl_key d) w (snd (MarkValidated a d w))"
  by (auto simp: local_step_def claimer_Reschedule_def claimer_Drop_def MarkValidated_def on_pool_def remote_def
      pool_inv_Reschedule pool_inv_Clean pool_inv_SetScheduled GetPool_Reschedule GetPool_Clean GetPool_SetScheduled
      split: reply.splits prod.splits sum.splits)
     (metis pool_inv_Reschedule snd_conv GetPool_Reschedule)+

lemma disp_fail_effect:
  assumes "disp_fail cd now c (rowToDelivery rp r) reason w = (res, w')"
    and "GetPool (row_key r) (w_pool w) = Some r"
  shows "local_step (row_key r) w w'"
    and "(GetPool (row_key r) (w_pool w') = Some r \<and> \<not> calls_fine cd c (failed_event now (rowToDelivery rp r) reason)) \<or>
         (GetPool (row_key r) (w_pool w') = None \<and> published cd w' (failed_event now (rowToDelivery rp r) reason))"
proof -
  let ?e = "failed_event now (rowToDelivery rp r) reason"
  obtain res1 w1 where p: "PublishStat cd (c_publish c) ?e w = (res1, w1)" by fastforce
  note eff = PublishStat_effect [OF p]
  have l1: "local_step (row_key r) w w1" using eff(1,2) by (rule local_step_same_pool)
  have "local_step (row_key r) w w' \<and>
     ((GetPool (row_key r) (w_pool w') = Some r \<and> \<not> calls_fine cd c ?e) \<or>
      (GetPool (row_key r) (w_pool w') = None \<and> published cd w' ?e))"
  proof (cases res1)
    case (Inl e)
    then have "w' = w1" using assms(1) p by (simp add: disp_fail_def)
    moreover have "\<not> calls_fine cd c ?e"
      using Inl eff(4) by (cases "MarshalEvent (marshal_stats cd) ?e") (auto simp: calls_fine_def)
    ultimately show ?thesis using l1 eff(1) assms(2) by simp
  next
    case (Inr u)
    then have d: "claimer_Drop (c_drop c) (rowToDelivery rp r) w1 = (res, w')" and pub: "published cd w1 ?e"
      using assms(1) p eff(3) by (simp_all add: disp_fail_def)
    note drp = on_pool_effect [OF d [unfolded claimer_Drop_def]]
    have "local_step (row_key r) w1 w'" using claimer_local(2) [of "rowToDelivery rp r" w1 "c_drop c"] d by simp
    moreover have "published cd w' ?e" using pub drp(2) by (rule published_extends)
    moreover have "w_pool w' = w_pool w1 \<and> c_drop c \<noteq> Answered \<or> w_pool w' = Clean (row_key r) (w_pool w1)"
      using drp(1,5) by auto
    moreover have "c_drop c \<noteq> Answered \<Longrightarrow> \<not> calls_fine cd c ?e" by (simp add: calls_fine_def)
    ultimately show ?thesis
      using local_step_trans [OF l1] eff(1) assms(2) by (auto simp: GetPool_Clean)
  qed
  then show "local_step (row_key r) w w'"
    "(GetPool (row_key r) (w_pool w') = Some r \<and> \<not> calls_fine cd c ?e) \<or>
     (GetPool (row_key r) (w_pool w') = None \<and> published cd w' ?e)" by blast+
qed

lemma retryOrFail_effect:
  assumes "retryOrFail rp cd now c (rowToDelivery rp r) reason w = (res, w')"
    and "GetPool (row_key r) (w_pool w) = Some r"
  shows "local_step (row_key r) w w'"
    and "retried_or_failed rp cd (failed_event now (rowToDelivery rp r) reason)
      (\<not> calls_fine cd c (failed_event now (rowToDelivery rp r) reason)) r w'"
proof -
  let ?d = "rowToDelivery rp r"
  have "local_step (row_key r) w w' \<and> retried_or_failed rp cd (failed_event now ?d reason)
      (\<not> calls_fine cd c (failed_event now ?d reason)) r w'"
  proof (cases "CanRetry ?d")
    case True
    then have d: "claimer_Reschedule rp (c_reschedule c) ?d w = (res, w')"
      using assms(1) by (simp add: retryOrFail_def)
    note eff = on_pool_effect [OF d [unfolded claimer_Reschedule_def]]
    have "local_step (row_key r) w w'" using claimer_local(1) [of ?d w rp "c_reschedule c"] d by simp
    moreover have "w_pool w' = w_pool w \<and> c_reschedule c \<noteq> Answered \<or>
        w_pool w' = snd (Reschedule rp (row_key r) (w_pool w))"
      using eff(1,5) by auto
    ultimately show ?thesis
      using True assms(2) by (auto simp: retried_or_failed_def GetPool_Reschedule handed_back_def calls_fine_def)
  next
    case False
    then have d: "disp_fail cd now c ?d reason w = (res, w')" using assms(1) by (simp add: retryOrFail_def)
    show ?thesis
      using disp_fail_effect [OF d assms(2)] False by (auto simp: retried_or_failed_def)
  qed
  then show "local_step (row_key r) w w'" "retried_or_failed rp cd (failed_event now ?d reason)
      (\<not> calls_fine cd c (failed_event now ?d reason)) r w'" by blast+
qed

text \<open>When the row stays as the claim left it: its Envelope is on its way, or a call did not go through.\<close>

definition still_claimed :: "'b codec \<Rightarrow> calls \<Rightarrow> Envelope option \<Rightarrow> Event \<Rightarrow> 'b world \<Rightarrow> bool" where
  "still_claimed cd c bld e w \<longleftrightarrow> sent cd w bld \<or> \<not> calls_fine cd c e"

definition dispatched ::
  "repo \<Rightarrow> 'b codec \<Rightarrow> go_time \<Rightarrow> calls \<Rightarrow> Envelope option \<Rightarrow> pool_row \<Rightarrow> 'b world \<Rightarrow> bool" where
  "dispatched rp cd now c bld r w \<longleftrightarrow>
     (let e = failed_event now (rowToDelivery rp r) reasonBudgetSpentDispatching in
      retried_or_failed rp cd e (still_claimed cd c bld e w) r w)"

lemma dispatchOne_effect:
  assumes "GetPool (row_key r) (w_pool w) = Some r" and "w' = dispatchOne rp cd now c bld (rowToDelivery rp r) w"
  shows "local_step (row_key r) w w'" and "dispatched rp cd now c bld r w'"
proof -
  let ?d = "rowToDelivery rp r" and ?e = "failed_event now (rowToDelivery rp r) reasonBudgetSpentDispatching"
  have handed: "local_step (row_key r) w (disp_reschedule rp cd now c ?d v) \<and>
      dispatched rp cd now c bld r (disp_reschedule rp cd now c ?d v)"
    if v: "w_pool v = w_pool w" "extends w v" for v
  proof -
    obtain res v' where r: "retryOrFail rp cd now c ?d reasonBudgetSpentDispatching v = (res, v')" by fastforce
    have "GetPool (row_key r) (w_pool v) = Some r" using assms(1) v(1) by simp
    note eff = retryOrFail_effect [OF r this]
    have "local_step (row_key r) w v'"
      using local_step_trans [OF local_step_same_pool [OF v] eff(1)] .
    moreover have "dispatched rp cd now c bld r v'"
      unfolding dispatched_def Let_def
      by (rule retried_or_failed_mono [OF eff(2)]) (simp_all add: still_claimed_def)
    ultimately show ?thesis by (simp add: disp_reschedule_def r)
  qed
  have "local_step (row_key r) w w' \<and> dispatched rp cd now c bld r w'"
  proof (cases bld)
    case None
    then show ?thesis using handed [of w] assms(2) by (simp add: dispatchOne_def)
  next
    case (Some env)
    obtain res v where s: "SendEmail cd (c_send c) env w = (res, v)" by fastforce
    note eff = SendEmail_effect [OF s]
    show ?thesis
    proof (cases res)
      case (Inl x)
      then show ?thesis using handed [OF eff(1,2)] assms(2) Some s by (simp add: dispatchOne_def)
    next
      case (Inr u)
      then have "w' = v" "sent cd v bld" using assms(2) Some s eff(3) by (simp_all add: dispatchOne_def)
      then show ?thesis
        using assms(1) eff(1) local_step_same_pool [OF eff(1,2)]
        by (simp add: dispatched_def Let_def retried_or_failed_def still_claimed_def)
    qed
  qed
  then show "local_step (row_key r) w w'" "dispatched rp cd now c bld r w'" by blast+
qed

lemma dispatched_later:
  assumes "dispatched rp cd now c bld r w" and "extends w w'"
    and "GetPool (row_key r) (w_pool w') = GetPool (row_key r) (w_pool w)"
  shows "dispatched rp cd now c bld r w'"
  using assms(1) unfolding dispatched_def Let_def
  by (rule retried_or_failed_mono [OF _ _ assms(2,3)])
     (auto simp: still_claimed_def intro: sent_extends [OF _ assms(2)])

interpretation dispatch_page: page_worker "\<lambda>w :: 'b world. pool_inv (w_pool w)" "\<lambda>w k. GetPool k (w_pool w)" extends row_key
  "\<lambda>r. dispatchOne rp cd now (c (rowToDelivery rp r)) (bld (rowToDelivery rp r)) (rowToDelivery rp r)"
  "\<lambda>r. dispatched rp cd now (c (rowToDelivery rp r)) (bld (rowToDelivery rp r)) r"
  for rp and cd :: "'b codec" and now c bld
proof unfold_locales
  fix u v w w' :: "'b world" and r k
  show "extends w w" by simp
  show "extends u v \<Longrightarrow> extends v w \<Longrightarrow> extends u w" by (rule extends_trans)
  show "dispatched rp cd now (c (rowToDelivery rp r)) (bld (rowToDelivery rp r)) r w \<Longrightarrow> extends w w' \<Longrightarrow>
      GetPool (row_key r) (w_pool w') = GetPool (row_key r) (w_pool w) \<Longrightarrow>
      dispatched rp cd now (c (rowToDelivery rp r)) (bld (rowToDelivery rp r)) r w'"
    by (rule dispatched_later)
  assume r: "GetPool (row_key r) (w_pool w) = Some r"
  note eff = dispatchOne_effect [OF r refl, of rp cd now "c (rowToDelivery rp r)" "bld (rowToDelivery rp r)"]
  let ?w = "dispatchOne rp cd now (c (rowToDelivery rp r)) (bld (rowToDelivery rp r)) (rowToDelivery rp r) w"
  show "pool_inv (w_pool w) \<Longrightarrow> pool_inv (w_pool ?w)" "extends w ?w" using eff(1) by (simp_all add: local_step_def)
  show "k \<noteq> row_key r \<Longrightarrow> GetPool k (w_pool ?w) = GetPool k (w_pool w)" by (rule local_step_other [OF eff(1)])
  show "dispatched rp cd now (c (rowToDelivery rp r)) (bld (rowToDelivery rp r)) r ?w" by (rule eff(2))
qed

lemma ClaimForDispatch_rows:
  assumes "planner_ok sel" and "pool_inv (w_pool w)"
    and "ClaimForDispatch rp sel now Answered n w = (Inr ds, w1)"
  obtains rs where "ds = map (rowToDelivery rp) rs" and "distinct (map row_key rs)" and "pool_inv (w_pool w1)"
    and "\<forall>r\<in>set rs. GetPool (row_key r) (w_pool w1) = Some r \<and> row_status r = Sending \<and> row_claimed r = Some now"
    and "\<forall>k. k \<notin> row_key ` set rs \<longrightarrow> GetPool k (w_pool w1) = GetPool k (w_pool w)"
    and "extends w w1" and "length rs \<le> n"
proof -
  let ?P = "\<lambda>r. row_scheduled r \<le> now \<and> row_status r = Scheduled"
  let ?f = "\<lambda>r. r\<lparr>row_status := Sending, row_claimed := Some now\<rparr>"
  obtain rs t' where tk: "take_rows sel n ?P ?f (w_pool w) = (rs, t')" by fastforce
  have ds: "ds = map (rowToDelivery rp) rs" and w1: "w1 = w\<lparr>w_pool := t'\<rparr>"
    using assms(3) tk by (auto simp: ClaimForDispatch_def on_pool_def PrepareForSend_def sql_take_rows)
  have inv: "pool_inv t'" by (rule take_rows_inv [OF assms(1,2) in_place_ops(2) tk]) simp
  note get = take_rows_GetPool [OF assms(1,2) in_place_ops(2) tk]
  note out = take_rows_out [OF assms(1,2) tk]
  have chosen: "set (sel n (filter ?P (rows (w_pool w)))) \<subseteq> set (rows (w_pool w))"
    using planner_subset [OF assms(1)] by fastforce
  have each: "GetPool (row_key r) t' = Some r \<and> row_status r = Sending \<and> row_claimed r = Some now"
    if "r \<in> set rs" for r
  proof -
    obtain q where q: "q \<in> set (sel n (filter ?P (rows (w_pool w))))" "r = ?f q" using \<open>r \<in> set rs\<close> out(1) by auto
    then have "GetPool (row_key q) (w_pool w) = Some q" using chosen by (intro GetPool_in [OF assms(2)]) blast
    moreover have "row_key r = row_key q" by (simp add: q(2) row_key_def)
    ultimately show ?thesis using q by (simp add: get)
  qed
  have frame: "GetPool k t' = GetPool k (w_pool w)" if "k \<notin> row_key ` set rs" for k
  proof (cases "GetPool k (w_pool w)")
    case (Some q)
    have "q \<notin> set (sel n (filter ?P (rows (w_pool w))))"
    proof
      assume "q \<in> set (sel n (filter ?P (rows (w_pool w))))"
      then have "?f q \<in> set rs" using out(1) by simp
      moreover have "row_key (?f q) = k" using GetPool_Some [OF Some] by (simp add: row_key_def)
      ultimately show False using that by (metis imageI)
    qed
    then show ?thesis by (simp add: get Some)
  qed (simp add: get)
  show thesis
    by (rule that [OF ds]) (use out(2,3) inv each frame in \<open>simp_all add: w1\<close>)
qed

lemma dispatch_cycle_page:
  assumes "planner_ok sel" and "pool_inv (w_pool w)"
    and "DispatchCycle rp cd sel now Answered c bld w = (res, w')"
  obtains rs where "res = Inr ()" and "pool_inv (w_pool w')" and "extends w w'" and "distinct (map row_key rs)" and "length rs \<le> 20"
    and "\<forall>k. k \<notin> row_key ` set rs \<longrightarrow> GetPool k (w_pool w') = GetPool k (w_pool w)"
    and "\<forall>r\<in>set rs. row_status r = Sending \<and> row_claimed r = Some now \<and>
      dispatched rp cd now (c (rowToDelivery rp r)) (bld (rowToDelivery rp r)) r w'"
proof -
  obtain claimed w1 where cl: "ClaimForDispatch rp sel now Answered dispatchClaimSize w = (claimed, w1)" by fastforce
  obtain ds where "claimed = Inr ds"
    using cl by (auto simp: ClaimForDispatch_def on_pool_def split: prod.splits)
  with cl have cl: "ClaimForDispatch rp sel now Answered dispatchClaimSize w = (Inr ds, w1)" by simp
  obtain rs where rs: "ds = map (rowToDelivery rp) rs" "distinct (map row_key rs)" "pool_inv (w_pool w1)"
    "\<forall>r\<in>set rs. GetPool (row_key r) (w_pool w1) = Some r \<and> row_status r = Sending \<and> row_claimed r = Some now"
    "\<forall>k. k \<notin> row_key ` set rs \<longrightarrow> GetPool k (w_pool w1) = GetPool k (w_pool w)" "extends w w1" "length rs \<le> dispatchClaimSize"
    by (rule ClaimForDispatch_rows [OF assms(1,2) cl])
  have w': "w' = fold (\<lambda>dlv. dispatchOne rp cd now (c dlv) (bld dlv) dlv) (map (rowToDelivery rp) rs) w1" "res = Inr ()"
    using assms(3) cl rs(1) by (auto simp: DispatchCycle_def)
  have get: "\<forall>r\<in>set rs. GetPool (row_key r) (w_pool w1) = Some r" using rs(4) by blast
  have w'_fold: "w' = fold (\<lambda>r. dispatchOne rp cd now (c (rowToDelivery rp r)) (bld (rowToDelivery rp r)) (rowToDelivery rp r)) rs w1"
    unfolding w'(1) by (simp add: fold_map comp_def)
  note page = dispatch_page.page [OF rs(2) get, where rp = rp and cd = cd and now = now and c = c and bld = bld, folded w'_fold]
  have inv: "pool_inv (w_pool w')" using page rs(3) by blast
  have ext: "extends w w'" using page rs(6) extends_trans by blast
  have frame: "\<forall>k. k \<notin> row_key ` set rs \<longrightarrow> GetPool k (w_pool w') = GetPool k (w_pool w)"
    using page [THEN conjunct2, THEN conjunct2, THEN conjunct1] rs(5) by simp
  have each: "\<forall>r\<in>set rs. row_status r = Sending \<and> row_claimed r = Some now \<and>
      dispatched rp cd now (c (rowToDelivery rp r)) (bld (rowToDelivery rp r)) r w'"
    using page [THEN conjunct2, THEN conjunct2] rs(4) by blast
  have "length rs \<le> 20" using rs(7) by (simp add: dispatchClaimSize_def)
  then show thesis using that [OF w'(2) inv ext rs(2) _ frame each] by blast
qed

text \<open>
  C18. A dispatch cycle accounts for every Delivery it claimed.  When the claim is answered, at most 20
  Deliveries are claimed, each once, and at the end of the cycle, whichever calls failed for itself or
  for the others, each of them is in exactly one situation: its row is as the claim left it, and then
  its Envelope was published or a call of its own did not go through; it was handed back, with one more
  attempt, at the time its backoff says, its Retry Budget having room; or it is gone, its Retry Budget
  being spent, and the Failed event has been published.  Every other row is untouched.
\<close>

theorem DispatchCycle_accounts:
  assumes "planner_ok sel" and "pool_inv (w_pool w)"
    and "DispatchCycle rp cd sel now Answered c bld w = (res, w')"
  shows "res = Inr () \<and> pool_inv (w_pool w') \<and>
     (\<exists>rs. distinct (map row_key rs) \<and> length rs \<le> 20 \<and>
        (\<forall>k. k \<notin> row_key ` set rs \<longrightarrow> GetPool k (w_pool w') = GetPool k (w_pool w)) \<and>
        (\<forall>r\<in>set rs. row_status r = Sending \<and> row_claimed r = Some now \<and>
          (let d = rowToDelivery rp r; e = failed_event now d reasonBudgetSpentDispatching in
           case GetPool (row_key r) (w_pool w') of
             None \<Rightarrow> \<not> CanRetry d \<and> published cd w' e
           | Some r' \<Rightarrow>
               (r' = r \<and> (sent cd w' (bld d) \<or> \<not> calls_fine cd (c d) e)) \<or>
               (r' = handed_back rp r \<and> CanRetry d))))"
proof -
  obtain rs where rs: "res = Inr ()" "pool_inv (w_pool w')" "extends w w'" "distinct (map row_key rs)" "length rs \<le> 20"
    "\<forall>k. k \<notin> row_key ` set rs \<longrightarrow> GetPool k (w_pool w') = GetPool k (w_pool w)"
    "\<forall>r\<in>set rs. row_status r = Sending \<and> row_claimed r = Some now \<and>
      dispatched rp cd now (c (rowToDelivery rp r)) (bld (rowToDelivery rp r)) r w'"
    by (rule dispatch_cycle_page [OF assms])
  have "row_status r = Sending \<and> row_claimed r = Some now \<and>
      (let d = rowToDelivery rp r; e = failed_event now d reasonBudgetSpentDispatching in
       case GetPool (row_key r) (w_pool w') of
         None \<Rightarrow> \<not> CanRetry d \<and> published cd w' e
       | Some r' \<Rightarrow> (r' = r \<and> (sent cd w' (bld d) \<or> \<not> calls_fine cd (c d) e)) \<or> (r' = handed_back rp r \<and> CanRetry d))"
    if r: "r \<in> set rs" for r
    using rs(7) r by (auto simp: dispatched_def retried_or_failed_def still_claimed_def Let_def split: option.splits)
  then show ?thesis using rs(1,2,4-6) by blast
qed

text \<open>A protobuf library that keeps messages as they are, for the examples.\<close>

definition plain_codec :: "(wire_stats + EmailToSend) codec" where
  "plain_codec =
     \<lparr>marshal_stats = (\<lambda>m. Some (Inl m)), unmarshal_stats = (\<lambda>b. case b of Inl m \<Rightarrow> Some m | Inr _ \<Rightarrow> None),
      marshal_email = (\<lambda>m. Some (Inr m)), unmarshal_email = (\<lambda>b. case b of Inl _ \<Rightarrow> None | Inr m \<Rightarrow> Some m)\<rparr>"

lemma plain_codec_ok: "codec_ok plain_codec"
  by (simp add: codec_ok_def plain_codec_def)

definition all_answered :: calls where
  "all_answered =
     \<lparr>c_lookup = Answered, c_reschedule = Answered, c_drop = Answered, c_mark = Answered,
      c_publish = Answered, c_send = Answered\<rparr>"

definition example_world :: "(wire_stats + EmailToSend) world" where
  "example_world = \<lparr>w_pool = example_pool, w_stats = [], w_sending = []\<rparr>"

lemma DispatchCycle_accounts_witness:
  "fst (DispatchCycle example_repo plain_codec (\<lambda>n cs. take n cs) 5 Answered (\<lambda>_. all_answered) (\<lambda>_. None) example_world) = Inr () \<and>
   pool_inv (w_pool (snd (DispatchCycle example_repo plain_codec (\<lambda>n cs. take n cs) 5 Answered (\<lambda>_. all_answered) (\<lambda>_. None) example_world)))"
proof -
  obtain res w' where d: "DispatchCycle example_repo plain_codec (\<lambda>n cs. take n cs) 5 Answered (\<lambda>_. all_answered)
      (\<lambda>_. None) example_world = (res, w')" by fastforce
  have "pool_inv (w_pool example_world)" using example_pool_inv by (simp add: example_world_def)
  from DispatchCycle_accounts [OF planner_ok_take this d] show ?thesis unfolding d fst_conv snd_conv by blast
qed

section \<open>The consumers\<close>

lemma Lookup_answered:
  "c_lookup c = Answered \<Longrightarrow> Lookup rp (c_lookup c) m em w =
     (case GetPool (m, em) (w_pool w) of
        None \<Rightarrow> (Inl (Claim_error ErrDeliveryNotFound), w)
      | Some r \<Rightarrow> (Inr (rowToDelivery rp r), w))"
  by (simp add: Lookup_def on_pool_def GetDelivery_def split: option.split)

lemma Lookup_state: "snd (Lookup rp a m em w) = w"
  by (cases a) (simp_all add: Lookup_def on_pool_def split: sum.split)

lemma Lookup_Inr: "Lookup rp a m em w = (Inr d, w') \<Longrightarrow> w' = w \<and> (\<exists>r. GetPool (m, em) (w_pool w) = Some r \<and> d = rowToDelivery rp r)"
  by (cases a) (auto simp: Lookup_def on_pool_def GetDelivery_def split: option.splits sum.splits)

lemma Lookup_NotFound:
  "Lookup rp a m em w = (Inl (Claim_error ErrDeliveryNotFound), w') \<Longrightarrow> GetPool (m, em) (w_pool w) = None \<and> w' = w"
  by (cases a) (auto simp: Lookup_def on_pool_def GetDelivery_def split: option.splits sum.splits)

lemma retryOrFail_not_found:
  assumes "GetPool (row_key r) (w_pool w) = Some r"
  shows "fst (retryOrFail rp cd now c (rowToDelivery rp r) reason w) \<noteq> Inl (Claim_error ErrDeliveryNotFound)"
  using assms
  by (cases "c_reschedule c"; cases "c_drop c")
     (auto simp: retryOrFail_def claimer_Reschedule_def disp_fail_def claimer_Drop_def on_pool_def Reschedule_eq
       PublishStat_def remote_def publish_stat_msg_def Let_def split: option.splits reply.splits sum.splits prod.splits)

lemma retryOrFail_done:
  assumes "retryOrFail rp cd now c (rowToDelivery rp r) reason w = (Inr u, w')"
    and "GetPool (row_key r) (w_pool w) = Some r"
  shows "retried_or_failed rp cd (failed_event now (rowToDelivery rp r) reason) False r w'"
proof (cases "CanRetry (rowToDelivery rp r)")
  case True
  then have "on_pool (c_reschedule c) (Reschedule rp (row_key r)) w = (Inr u, w')"
    using assms(1) by (simp add: retryOrFail_def claimer_Reschedule_def)
  from on_pool_effect(6) [OF this, of u] have "w_pool w' = snd (Reschedule rp (row_key r) (w_pool w))" by simp
  then show ?thesis using True assms(2) by (simp add: retried_or_failed_def GetPool_Reschedule handed_back_def)
next
  case False
  obtain res1 w1 where p: "PublishStat cd (c_publish c) (failed_event now (rowToDelivery rp r) reason) w = (res1, w1)"
    by fastforce
  have "res1 = Inr ()" and d: "on_pool (c_drop c) (\<lambda>t. (Inr (), Clean (row_key r) t)) w1 = (Inr u, w')"
    using assms(1) False p by (auto simp: retryOrFail_def disp_fail_def claimer_Drop_def split: sum.splits)
  then have "published cd w1 (failed_event now (rowToDelivery rp r) reason)" using PublishStat_effect(3) [OF p] by simp
  then have "published cd w' (failed_event now (rowToDelivery rp r) reason)"
    using on_pool_effect(2) [OF d] by (rule published_extends)
  moreover have "GetPool (row_key r) (w_pool w') = None"
    using on_pool_effect(6) [OF d, of u] by (auto simp: GetPool_Clean dest: sym)
  ultimately show ?thesis using False by (simp add: retried_or_failed_def)
qed

text \<open>
  What the feedback of a send does to the Pool.  A delivered or bounced event, when the calls are
  answered, is acknowledged and removes exactly the Delivery it names, or is terminated when there is
  none, as on any redelivery; an error event is acknowledged only once its Delivery was handed back
  within its Retry Budget or, the budget being spent, removed with the Failed event published; whatever
  the calls do, an event is terminated only if its Delivery is not in the Pool, and then changes nothing;
  and an event that is not an error, or bytes that do not decode, is put back with nothing changed.
\<close>

theorem feedback_settles:
  assumes "UnmarshalEvent (unmarshal_stats cd) data = Some e" and "k = (ev_message e, ev_email e)"
    and "UnmarshalEvent (unmarshal_stats cd) junk = None"
  shows "handleDelivers rp cd all_answered data w =
       (if GetPool k (w_pool w) = None then (MsgTerm, w) else (MsgAck, w\<lparr>w_pool := Clean k (w_pool w)\<rparr>)) \<and>
     handleBounced rp cd all_answered data w = handleDelivers rp cd all_answered data w \<and>
     handleDelivers rp cd all_answered data (w\<lparr>w_pool := Clean k (w_pool w)\<rparr>) = (MsgTerm, w\<lparr>w_pool := Clean k (w_pool w)\<rparr>) \<and>
     (fst (handleDelivers rp cd c data w) = MsgTerm \<longrightarrow> GetPool k (w_pool w) = None \<and> snd (handleDelivers rp cd c data w) = w) \<and>
     (fst (handleErrors rp cd now c data w) = MsgTerm \<longrightarrow> GetPool k (w_pool w) = None \<and> snd (handleErrors rp cd now c data w) = w) \<and>
     (fst (handleErrors rp cd now c data w) = MsgAck \<longrightarrow>
        (\<exists>r. GetPool k (w_pool w) = Some r \<and>
           retried_or_failed rp cd (failed_event now (rowToDelivery rp r) reasonBudgetSpentSending) False r
             (snd (handleErrors rp cd now c data w)))) \<and>
     (outcome_type (ev_outcome e) \<noteq> TypeError \<longrightarrow> handleErrors rp cd now c data w = (MsgNakWithDelay nakDelay, w)) \<and>
     handleErrors rp cd now c junk w = (MsgNakWithDelay nakDelay, w)"
proof (intro conjI)
  have aa: "c_lookup all_answered = Answered" "c_drop all_answered = Answered" by (simp_all add: all_answered_def)
  show d: "handleDelivers rp cd all_answered data v =
       (if GetPool k (w_pool v) = None then (MsgTerm, v) else (MsgAck, v\<lparr>w_pool := Clean k (w_pool v)\<rparr>))" for v
  proof (cases "GetPool k (w_pool v)")
    case None
    then show ?thesis
      using assms(2) by (simp add: handleDelivers_def handleMsg_def handleWithAck_def assms(1) parsDeliveredFunc_def
          Lookup_answered [OF aa(1)])
  next
    case (Some r)
    then have "row_key r = k" using GetPool_Some by blast
    then show ?thesis
      using Some assms(2) by (simp add: handleDelivers_def handleMsg_def handleWithAck_def assms(1)
          parsDeliveredFunc_def Lookup_answered [OF aa(1)] claimer_Drop_def on_pool_def aa(2))
  qed
  show "handleBounced rp cd all_answered data w = handleDelivers rp cd all_answered data w"
    by (simp add: handleBounced_def handleDelivers_def parsBouncedFunc_def [abs_def] parsDeliveredFunc_def [abs_def])
  show "handleDelivers rp cd all_answered data (w\<lparr>w_pool := Clean k (w_pool w)\<rparr>) = (MsgTerm, w\<lparr>w_pool := Clean k (w_pool w)\<rparr>)"
    by (simp add: d GetPool_Clean)
  show "fst (handleDelivers rp cd c data w) = MsgTerm \<longrightarrow> GetPool k (w_pool w) = None \<and> snd (handleDelivers rp cd c data w) = w"
    by (cases "c_drop c")
       (auto simp: handleDelivers_def handleMsg_def handleWithAck_def assms(1,2) parsDeliveredFunc_def claimer_Drop_def
          on_pool_def split: sum.splits prod.splits if_splits dest: Lookup_NotFound)
  show "handleErrors rp cd now c junk w = (MsgNakWithDelay nakDelay, w)"
    by (simp add: handleErrors_def handleMsg_def handleWithAck_def assms(3))
  show "outcome_type (ev_outcome e) \<noteq> TypeError \<longrightarrow> handleErrors rp cd now c data w = (MsgNakWithDelay nakDelay, w)"
    by (simp add: handleErrors_def handleMsg_def handleWithAck_def assms(1) parseErrorsFunc_def)
  show "fst (handleErrors rp cd now c data w) = MsgTerm \<longrightarrow> GetPool k (w_pool w) = None \<and> snd (handleErrors rp cd now c data w) = w"
  proof
    assume t: "fst (handleErrors rp cd now c data w) = MsgTerm"
    obtain res w' where pe: "parseErrorsFunc rp cd now c e w = (res, w')" by fastforce
    then have res: "res = Inl (Claim_error ErrDeliveryNotFound)" and h: "snd (handleErrors rp cd now c data w) = w'"
      using t by (auto simp: handleErrors_def handleMsg_def handleWithAck_def assms(1) split: sum.splits if_splits)
    obtain lr lw where l: "Lookup rp (c_lookup c) (ev_message e) (ev_email e) w = (lr, lw)" by fastforce
    show "GetPool k (w_pool w) = None \<and> snd (handleErrors rp cd now c data w) = w"
    proof (cases lr)
      case (Inl x)
      then have "lr = Inl (Claim_error ErrDeliveryNotFound)" "lw = w'"
        using pe res l by (simp_all add: parseErrorsFunc_def split: if_splits)
      with l have "GetPool k (w_pool w) = None \<and> w' = w" unfolding assms(2) by (intro Lookup_NotFound) simp
      then show ?thesis using h by simp
    next
      case (Inr dlv)
      then obtain r where r: "GetPool k (w_pool w) = Some r" "dlv = rowToDelivery rp r" "lw = w"
        using Lookup_Inr l assms(2) by metis
      have "row_key r = k" using GetPool_Some [OF r(1)] by simp
      then show ?thesis
        using pe res l Inr r retryOrFail_not_found [of r w rp cd now c reasonBudgetSpentSending]
        by (auto simp: parseErrorsFunc_def split: if_splits)
    qed
  qed
  show "fst (handleErrors rp cd now c data w) = MsgAck \<longrightarrow>
      (\<exists>r. GetPool k (w_pool w) = Some r \<and>
         retried_or_failed rp cd (failed_event now (rowToDelivery rp r) reasonBudgetSpentSending) False r
           (snd (handleErrors rp cd now c data w)))"
  proof
    assume t: "fst (handleErrors rp cd now c data w) = MsgAck"
    obtain res w' where pe: "parseErrorsFunc rp cd now c e w = (res, w')" by fastforce
    then have res: "res = Inr ()" and h: "snd (handleErrors rp cd now c data w) = w'"
      using t by (auto simp: handleErrors_def handleMsg_def handleWithAck_def assms(1) split: sum.splits if_splits)
    obtain dlv where l: "Lookup rp (c_lookup c) (ev_message e) (ev_email e) w = (Inr dlv, w)"
      and f: "retryOrFail rp cd now c dlv reasonBudgetSpentSending w = (Inr (), w')"
      using pe res Lookup_state [of rp "c_lookup c" "ev_message e" "ev_email e" w]
      by (auto simp: parseErrorsFunc_def split: if_splits sum.splits prod.splits)
    obtain r where r: "GetPool k (w_pool w) = Some r" "dlv = rowToDelivery rp r" using Lookup_Inr [OF l] assms(2) by blast
    have "row_key r = k" using GetPool_Some [OF r(1)] by simp
    then show "\<exists>r. GetPool k (w_pool w) = Some r \<and>
         retried_or_failed rp cd (failed_event now (rowToDelivery rp r) reasonBudgetSpentSending) False r
           (snd (handleErrors rp cd now c data w))"
      using retryOrFail_done [of rp cd now c r reasonBudgetSpentSending w "()" w'] f r h by blast
  qed
qed

definition example_feedback :: "StatOutcome \<Rightarrow> wire_stats + EmailToSend" where
  "example_feedback oc =
     Inl (FromEvent \<lparr>ev_message = ''msg_c@k.dev'', ev_domain = ''k.dev'', ev_email = ''c@x'', ev_time = 7,
       ev_outcome = oc, ev_mode = ModeUnspecified\<rparr>)"

lemma feedback_settles_witness:
  "handleDelivers example_repo plain_codec all_answered (example_feedback Delivered) example_world =
     (MsgAck, example_world\<lparr>w_pool := Clean (''msg_c@k.dev'', ''c@x'') example_pool\<rparr>)"
proof -
  let ?data = "example_feedback Delivered" and ?k = "(''msg_c@k.dev'', ''c@x'')"
  let ?e = "\<lparr>ev_message = ''msg_c@k.dev'', ev_domain = ''k.dev'', ev_email = ''c@x'', ev_time = 7,
       ev_outcome = Delivered, ev_mode = ModeUnspecified\<rparr>"
  have u: "UnmarshalEvent (unmarshal_stats plain_codec) ?data = Some ?e"
    by (simp add: UnmarshalEvent_def plain_codec_def example_feedback_def ToEvent_def FromEvent_def
        ToOutcome_FromOutcome ToMode_FromMode known_mode_def on_scale_def mode_defs)
  have k: "?k = (ev_message ?e, ev_email ?e)" by simp
  have j: "UnmarshalEvent (unmarshal_stats plain_codec) (Inr undefined) = None"
    by (simp add: UnmarshalEvent_def plain_codec_def)
  have g: "\<not> GetPool ?k (w_pool example_world) = None"
    by (simp add: GetPool_def example_world_def example_pool_def example_row_def row_key_def)
  have p: "w_pool example_world = example_pool" by (simp add: example_world_def)
  from feedback_settles [OF u k j, of example_repo example_world, THEN conjunct1, unfolded if_not_P [OF g]]
  show ?thesis unfolding p .
qed

end
