(* ===== verification/Regex.thy ===== *)
theory Regex
  imports Prelude
begin

text \<open>
  The regular expressions the program compiles, read byte by byte: a matcher by derivatives that
  evaluates, and the language it decides.  Bytes above 127 occur in no class used here, so reading runes
  as the Go engine does makes no difference to an unanchored search.
\<close>

datatype re =
    Zero
  | One
  | Cls "(nat \<times> nat) list"
  | Alt re re
  | Cat re re
  | Rep re

definition in_class :: "(nat \<times> nat) list \<Rightarrow> char \<Rightarrow> bool" where
  "in_class rs c \<longleftrightarrow> list_ex (\<lambda>(lo, hi). lo \<le> code c \<and> code c \<le> hi) rs"

inductive_set star :: "string set \<Rightarrow> string set" for L where
  star_Nil: "[] \<in> star L"
| star_append: "u \<in> L \<Longrightarrow> v \<in> star L \<Longrightarrow> u @ v \<in> star L"

fun lang :: "re \<Rightarrow> string set" where
  "lang Zero = {}"
| "lang One = {[]}"
| "lang (Cls rs) = {[c] | c. in_class rs c}"
| "lang (Alt r s) = lang r \<union> lang s"
| "lang (Cat r s) = {u @ v | u v. u \<in> lang r \<and> v \<in> lang s}"
| "lang (Rep r) = star (lang r)"

fun mkAlt :: "re \<Rightarrow> re \<Rightarrow> re" where
  "mkAlt Zero s = s"
| "mkAlt r Zero = r"
| "mkAlt r s = Alt r s"

fun mkCat :: "re \<Rightarrow> re \<Rightarrow> re" where
  "mkCat Zero s = Zero"
| "mkCat One s = s"
| "mkCat r s = Cat r s"

fun nullable :: "re \<Rightarrow> bool" where
  "nullable Zero \<longleftrightarrow> False"
| "nullable One \<longleftrightarrow> True"
| "nullable (Cls rs) \<longleftrightarrow> False"
| "nullable (Alt r s) \<longleftrightarrow> nullable r \<or> nullable s"
| "nullable (Cat r s) \<longleftrightarrow> nullable r \<and> nullable s"
| "nullable (Rep r) \<longleftrightarrow> True"

fun deriv :: "char \<Rightarrow> re \<Rightarrow> re" where
  "deriv c Zero = Zero"
| "deriv c One = Zero"
| "deriv c (Cls rs) = (if in_class rs c then One else Zero)"
| "deriv c (Alt r s) = mkAlt (deriv c r) (deriv c s)"
| "deriv c (Cat r s) =
     (if nullable r then mkAlt (mkCat (deriv c r) s) (deriv c s) else mkCat (deriv c r) s)"
| "deriv c (Rep r) = mkCat (deriv c r) (Rep r)"

fun match_prefix :: "re \<Rightarrow> string \<Rightarrow> bool" where
  "match_prefix r [] \<longleftrightarrow> nullable r"
| "match_prefix r (c # cs) \<longleftrightarrow> nullable r \<or> match_prefix (deriv c r) cs"

fun search :: "re \<Rightarrow> string \<Rightarrow> bool" where
  "search r [] \<longleftrightarrow> nullable r"
| "search r (c # cs) \<longleftrightarrow> match_prefix r (c # cs) \<or> search r cs"

abbreviation plus_re :: "re \<Rightarrow> re" where "plus_re r \<equiv> Cat r (Rep r)"
abbreviation opt_re :: "re \<Rightarrow> re" where "opt_re r \<equiv> Alt One r"
abbreviation chr_re :: "nat \<Rightarrow> re" where "chr_re n \<equiv> Cls [(n, n)]"

definition seq_re :: "nat list \<Rightarrow> re" where
  "seq_re ns = foldr (\<lambda>n r. mkCat (chr_re n) r) ns One"

section \<open>The matcher decides the language\<close>

lemma nullable_lang: "nullable r \<longleftrightarrow> [] \<in> lang r"
  by (induction r) (auto intro: star_Nil)

lemma lang_mkAlt [simp]: "lang (mkAlt r s) = lang r \<union> lang s"
  by (cases "(r, s)" rule: mkAlt.cases) auto

lemma lang_mkCat [simp]: "lang (mkCat r s) = {u @ v | u v. u \<in> lang r \<and> v \<in> lang s}"
  by (cases "(r, s)" rule: mkCat.cases) auto

lemma star_Cons: "c # w \<in> star L \<longleftrightarrow> (\<exists>u v. c # u \<in> L \<and> v \<in> star L \<and> w = u @ v)"
proof
  show "c # w \<in> star L \<Longrightarrow> \<exists>u v. c # u \<in> L \<and> v \<in> star L \<and> w = u @ v"
  proof (induction "c # w" arbitrary: w rule: star.induct)
    case (star_append u v)
    then show ?case by (cases u) auto
  qed
  assume "\<exists>u v. c # u \<in> L \<and> v \<in> star L \<and> w = u @ v"
  then show "c # w \<in> star L" using star.star_append by fastforce
qed

lemma cat_Cons:
  "(\<exists>u v. c # w = u @ v \<and> u \<in> A \<and> v \<in> B) \<longleftrightarrow>
     (\<exists>u v. w = u @ v \<and> c # u \<in> A \<and> v \<in> B) \<or> ([] \<in> A \<and> c # w \<in> B)"
proof
  assume "\<exists>u v. c # w = u @ v \<and> u \<in> A \<and> v \<in> B"
  then obtain u v where "c # w = u @ v" "u \<in> A" "v \<in> B" by blast
  then show "(\<exists>u v. w = u @ v \<and> c # u \<in> A \<and> v \<in> B) \<or> ([] \<in> A \<and> c # w \<in> B)" by (cases u) auto
next
  assume "(\<exists>u v. w = u @ v \<and> c # u \<in> A \<and> v \<in> B) \<or> ([] \<in> A \<and> c # w \<in> B)"
  then show "\<exists>u v. c # w = u @ v \<and> u \<in> A \<and> v \<in> B"
  proof
    assume "\<exists>u v. w = u @ v \<and> c # u \<in> A \<and> v \<in> B"
    then obtain u v where "w = u @ v" "c # u \<in> A" "v \<in> B" by blast
    then have "c # w = (c # u) @ v" by simp
    then show ?thesis using \<open>c # u \<in> A\<close> \<open>v \<in> B\<close> by blast
  next
    assume "[] \<in> A \<and> c # w \<in> B"
    then have "c # w = [] @ (c # w)" "[] \<in> A" "c # w \<in> B" by simp_all
    then show ?thesis by blast
  qed
qed

lemma deriv_lang: "w \<in> lang (deriv c r) \<longleftrightarrow> c # w \<in> lang r"
proof (induction r arbitrary: w)
  case (Cat r s)
  have "w \<in> lang (deriv c (Cat r s)) \<longleftrightarrow>
      (\<exists>u v. w = u @ v \<and> c # u \<in> lang r \<and> v \<in> lang s) \<or> ([] \<in> lang r \<and> c # w \<in> lang s)"
    using Cat by (auto simp: nullable_lang)
  also have "\<dots> \<longleftrightarrow> c # w \<in> lang (Cat r s)" by (simp only: cat_Cons [symmetric]) simp
  finally show ?case .
next
  case (Rep r)
  then show ?case by (auto simp: star_Cons)
qed auto

lemma match_prefix_lang: "match_prefix r s \<longleftrightarrow> (\<exists>u v. s = u @ v \<and> u \<in> lang r)"
proof (induction s arbitrary: r)
  case (Cons c s)
  have "match_prefix r (c # s) \<longleftrightarrow> [] \<in> lang r \<or> (\<exists>u v. s = u @ v \<and> c # u \<in> lang r)"
    by (simp add: Cons.IH deriv_lang nullable_lang)
  also have "\<dots> \<longleftrightarrow> (\<exists>u v. c # s = u @ v \<and> u \<in> lang r \<and> v \<in> UNIV)"
    by (subst cat_Cons) auto
  finally show ?case by simp
qed (auto simp: nullable_lang)

theorem search_lang: "search r s \<longleftrightarrow> (\<exists>a m b. s = a @ m @ b \<and> m \<in> lang r)"
proof (induction s)
  case (Cons c s)
  show ?case
  proof
    assume "search r (c # s)"
    then consider "match_prefix r (c # s)" | "search r s" by auto
    then show "\<exists>a m b. c # s = a @ m @ b \<and> m \<in> lang r"
    proof cases
      case 1
      then show ?thesis unfolding match_prefix_lang by (metis append_Nil)
    next
      case 2
      then show ?thesis using Cons.IH by (metis append_Cons)
    qed
  next
    assume "\<exists>a m b. c # s = a @ m @ b \<and> m \<in> lang r"
    then obtain a m b where e: "c # s = a @ m @ b" "m \<in> lang r" by blast
    show "search r (c # s)"
    proof (cases a)
      case Nil
      then have "match_prefix r (c # s)" using e unfolding match_prefix_lang by auto
      then show ?thesis by simp
    next
      case (Cons x a')
      then have "search r s" using e Cons.IH by auto
      then show ?thesis by simp
    qed
  qed
qed (auto simp: nullable_lang)

lemma lang_chr: "code c = n \<Longrightarrow> lang (chr_re n) = {[c]}"
proof -
  assume n: "code c = n"
  have "in_class [(n, n)] d \<longleftrightarrow> d = c" for d
  proof -
    have "in_class [(n, n)] d \<longleftrightarrow> code d = code c" using n by (auto simp: in_class_def)
    then show ?thesis by simp
  qed
  then show ?thesis by simp
qed

lemma lang_at: "lang (chr_re 64) = {''@''}"
  by (rule lang_chr) simp

section \<open>Whole matches\<close>

fun full_match :: "re \<Rightarrow> string \<Rightarrow> bool" where
  "full_match r [] \<longleftrightarrow> nullable r"
| "full_match r (c # cs) \<longleftrightarrow> full_match (deriv c r) cs"

lemma full_match_lang: "full_match r s \<longleftrightarrow> s \<in> lang r"
  by (induction s arbitrary: r) (simp_all add: nullable_lang deriv_lang)

lemma lang_seq: "lang (seq_re (map code s)) = {s}"
proof (induction s)
  case (Cons c s)
  have "lang (chr_re (code c)) = {[c]}" by (rule lang_chr) simp
  then show ?case using Cons by (simp add: seq_re_def del: lang.simps(3))
qed (simp add: seq_re_def)

lemma lang_class_star: "lang (Rep (Cls rs)) = {s. list_all (in_class rs) s}"
proof (intro set_eqI iffI)
  fix s
  assume "s \<in> lang (Rep (Cls rs))"
  then have "s \<in> star {[c] |c. in_class rs c}" by simp
  then have "list_all (in_class rs) s" by (induction rule: star.induct) auto
  then show "s \<in> {s. list_all (in_class rs) s}" by simp
next
  fix s
  assume "s \<in> {s. list_all (in_class rs) s}"
  then show "s \<in> lang (Rep (Cls rs))"
  proof (induction s)
    case (Cons c s)
    then have "[c] @ s \<in> star {[c] |c. in_class rs c}" by (intro star_append) auto
    then show ?case by simp
  qed (simp add: star_Nil)
qed

lemma lang_class_Cat: "lang (Cat (Cls rs) r) = {c # v | c v. in_class rs c \<and> v \<in> lang r}"
proof (intro set_eqI iffI)
  fix s
  assume "s \<in> lang (Cat (Cls rs) r)"
  then show "s \<in> {c # v | c v. in_class rs c \<and> v \<in> lang r}" by auto
next
  fix s
  assume "s \<in> {c # v | c v. in_class rs c \<and> v \<in> lang r}"
  then obtain c v where "s = [c] @ v" "in_class rs c" "v \<in> lang r" by auto
  then show "s \<in> lang (Cat (Cls rs) r)" by (simp only: lang.simps) blast
qed

end
