(* ===== verification/Validator.thy ===== *)
theory Validator
  imports Dispatcher Regex
begin

text \<open>
  \<open>pkg/validator/validator.go\<close>: the address check, and the cycle that claims Deliveries and either marks
  them validated or drops them as Rejected.  The regular expression is the one the Go literal denotes
  after the literal's own escapes: the bytes \<open>[\x23-\x5b\x5d-\x7f]\<close> reach the engine raw, so the class
  ends at the raw \<open>]\<close>, and \<open>\\[\<close> is an escaped bracket that opens no class.
\<close>

section \<open>The address check\<close>

definition lower_digit :: re where "lower_digit = Cls [(97, 122), (48, 57)]"
definition lower_digit_hyphen :: re where "lower_digit_hyphen = Cls [(97, 122), (48, 57), (45, 45)]"

text \<open>\<open>[a-z0-9!#$%&'*+/=?^_`{|}~-]\<close>\<close>

definition atom_char :: re where
  "atom_char =
     Cls [(97, 122), (48, 57), (33, 33), (35, 39), (42, 43), (47, 47), (61, 61), (63, 63), (94, 96), (123, 126), (45, 45)]"

text \<open>\<open>\[\x01-\x09\x0b\x0c\x0e-\x7f]\<close>: a sequence of literal bytes.\<close>

definition bracket_literal :: re where
  "bracket_literal = seq_re [91, 1, 45, 9, 11, 12, 14, 45, 127, 93]"

definition unquoted_local :: re where
  "unquoted_local = Cat (plus_re atom_char) (Rep (Cat (chr_re 46) (plus_re atom_char)))"

definition quoted_local :: re where
  "quoted_local =
     Cat (chr_re 34)
       (Cat (Rep (Alt (Cat (Cls [(1, 8), (11, 11), (12, 12), (14, 31), (33, 33), (35, 91)]) (seq_re [45, 127, 93]))
                      bracket_literal))
            (chr_re 34))"

definition label_re :: re where
  "label_re = Cat lower_digit (opt_re (Cat (Rep lower_digit_hyphen) lower_digit))"

definition octet_re :: re where
  "octet_re =
     Alt (Cat (seq_re [50, 53]) (Cls [(48, 53)]))
         (Alt (Cat (chr_re 50) (Cat (Cls [(48, 52)]) (Cls [(48, 57)])))
              (Cat (opt_re (Cls [(48, 49)])) (Cat (Cls [(48, 57)]) (opt_re (Cls [(48, 57)])))))"

definition literal_tail :: re where
  "literal_tail =
     Cat (Rep lower_digit_hyphen)
       (Cat lower_digit
         (Cat (chr_re 58)
           (plus_re (Alt (Cls [(1, 8), (11, 11), (12, 12), (14, 31), (33, 90), (83, 127)]) bracket_literal))))"

definition domain_re :: re where
  "domain_re =
     Alt (Cat (plus_re (Cat label_re (chr_re 46))) label_re)
         (Cat (chr_re 91)
           (Cat (Cat octet_re (chr_re 46)) (Cat (Cat octet_re (chr_re 46)) (Cat (Cat octet_re (chr_re 46))
             (Cat (Alt octet_re literal_tail) (chr_re 93))))))"

definition emailReg :: re where
  "emailReg = Cat (Alt unquoted_local quoted_local) (Cat (chr_re 64) domain_re)"

definition reasonInvalid :: string where "reasonInvalid = '' is not a valid email''"

definition validateEmail :: "string \<Rightarrow> string + unit" where
  "validateEmail email =
     (if has_suffix ''@localhost'' email then Inr ()
      else if search emailReg email then Inr ()
      else Inl reasonInvalid)"

definition validateDelivery :: "Delivery \<Rightarrow> string + unit" where
  "validateDelivery d = validateEmail (dl_email d)"

section \<open>The cycle\<close>

definition validation_event :: "go_time \<Rightarrow> Delivery \<Rightarrow> StatOutcome \<Rightarrow> Event" where
  "validation_event now dlv oc =
     \<lparr>ev_message = dl_batch dlv, ev_domain = dl_domain dlv, ev_email = dl_email dlv, ev_time = now,
      ev_outcome = oc, ev_mode = ModeUnspecified\<rparr>"

definition handleDelivery ::
  "'b codec \<Rightarrow> go_time \<Rightarrow> calls \<Rightarrow> Delivery \<Rightarrow> 'b world \<Rightarrow> (worker_error + unit) \<times> 'b world" where
  "handleDelivery cd now c dlv w =
     (case validateDelivery dlv of
        Inl err \<Rightarrow>
          (case claimer_Drop (c_drop c) dlv w of
             (Inl e, w') \<Rightarrow> (Inl e, w')
           | (Inr _, w') \<Rightarrow> PublishStat cd (c_publish c) (validation_event now dlv (Rejected err)) w')
      | Inr _ \<Rightarrow>
          (case MarkValidated (c_mark c) dlv w of
             (Inl e, w') \<Rightarrow> (Inl e, w')
           | (Inr _, w') \<Rightarrow> PublishStat cd (c_publish c) (validation_event now dlv Accepted) w'))"

definition validationClaimSize :: nat where "validationClaimSize = 100"

definition validator_Cycle ::
  "repo \<Rightarrow> 'b codec \<Rightarrow> planner \<Rightarrow> go_time \<Rightarrow> reply \<Rightarrow> (Delivery \<Rightarrow> calls) \<Rightarrow> 'b world \<Rightarrow>
     (worker_error + unit) \<times> 'b world" where
  "validator_Cycle rp cd sel now a c w =
     (case ClaimForValidation rp sel now a validationClaimSize w of
        (Inl e, w') \<Rightarrow> (Inl e, w')
      | (Inr emails, w') \<Rightarrow> (Inr (), fold (\<lambda>dlv w. snd (handleDelivery cd now (c dlv) dlv w)) emails w'))"

section \<open>What the address check accepts\<close>

lemma validateEmail_iff:
  "validateEmail e = Inr () \<longleftrightarrow>
     has_suffix ''@localhost'' e \<or> (\<exists>a m b. e = a @ m @ b \<and> m \<in> lang emailReg)"
  by (simp add: validateEmail_def search_lang)

lemma emailReg_split:
  "m \<in> lang emailReg \<Longrightarrow>
     \<exists>l d. m = l @ ''@'' @ d \<and> l \<in> lang (Alt unquoted_local quoted_local) \<and> d \<in> lang domain_re"
  unfolding emailReg_def lang.simps(5) [of "Alt unquoted_local quoted_local"] lang.simps(5) [of "chr_re 64"] lang_at
  by blast

lemma lang_nonempty_local: "u \<in> lang (Alt unquoted_local quoted_local) \<Longrightarrow> u \<noteq> []"
  by (auto simp: unquoted_local_def quoted_local_def atom_char_def)

lemma lang_nonempty_domain: "v \<in> lang domain_re \<Longrightarrow> v \<noteq> []"
  by (auto simp: domain_re_def label_re_def lower_digit_def)



section \<open>What a cycle does\<close>

definition verdict_event :: "repo \<Rightarrow> go_time \<Rightarrow> pool_row \<Rightarrow> Event" where
  "verdict_event rp now r =
     (let d = rowToDelivery rp r in
      validation_event now d (case validateDelivery d of Inl err \<Rightarrow> Rejected err | Inr _ \<Rightarrow> Accepted))"

text \<open>
  The row of a claimed Delivery after its turn: an address that passes is scheduled or, a call having
  failed, still claimed; one that fails is gone or still claimed.  A verdict that was recorded is published
  unless that call failed or the event could not be encoded.
\<close>

definition validated :: "repo \<Rightarrow> 'b codec \<Rightarrow> go_time \<Rightarrow> calls \<Rightarrow> pool_row \<Rightarrow> 'b world \<Rightarrow> bool" where
  "validated rp cd now c r w \<longleftrightarrow>
     (let e = verdict_event rp now r;
          told = (published cd w e \<or> c_publish c \<noteq> Answered \<or> MarshalEvent (marshal_stats cd) e = None) in
      case validateEmail (row_email r) of
        Inl _ \<Rightarrow>
          (GetPool (row_key r) (w_pool w) = None \<and> (told \<or> c_drop c = LostReply)) \<or>
          (GetPool (row_key r) (w_pool w) = Some r \<and> c_drop c \<noteq> Answered)
      | Inr _ \<Rightarrow>
          (GetPool (row_key r) (w_pool w) = Some (r\<lparr>row_status := Scheduled\<rparr>) \<and> (told \<or> c_mark c = LostReply)) \<or>
          (GetPool (row_key r) (w_pool w) = Some r \<and> c_mark c \<noteq> Answered))"

lemma validateDelivery_row: "validateDelivery (rowToDelivery rp r) = validateEmail (row_email r)"
  by (simp add: validateDelivery_def rowToDelivery_def LoadDelivery_def)

lemma handleDelivery_effect:
  assumes "GetPool (row_key r) (w_pool w) = Some r"
    and "w' = snd (handleDelivery cd now c (rowToDelivery rp r) w)"
  shows "local_step (row_key r) w w'" and "validated rp cd now c r w'"
proof -
  let ?d = "rowToDelivery rp r"
  have pub: "local_step k w1 (snd (PublishStat cd (c_publish c) e w1)) \<and>
      w_pool (snd (PublishStat cd (c_publish c) e w1)) = w_pool w1 \<and>
      (published cd (snd (PublishStat cd (c_publish c) e w1)) e \<or> c_publish c \<noteq> Answered \<or>
        MarshalEvent (marshal_stats cd) e = None)" for k w1 e
  proof -
    obtain res v where p: "PublishStat cd (c_publish c) e w1 = (res, v)" by fastforce
    note eff = PublishStat_effect [OF p]
    show ?thesis using local_step_same_pool [OF eff(1,2)] eff(1,3,4) p by auto
  qed
  have "local_step (row_key r) w w' \<and> validated rp cd now c r w'"
  proof (cases "validateEmail (row_email r)")
    case (Inl err)
    obtain res w1 where d: "claimer_Drop (c_drop c) ?d w = (res, w1)" by fastforce
    have l1: "local_step (row_key r) w w1" using claimer_local(2) [of ?d w "c_drop c"] d by simp
    have row: "GetPool (row_key r) (w_pool w1) = None \<and> c_drop c \<noteq> Refused \<or>
        GetPool (row_key r) (w_pool w1) = Some r \<and> c_drop c \<noteq> Answered"
      using d assms(1) by (cases "c_drop c") (auto simp: claimer_Drop_def on_pool_def GetPool_Clean)
    show ?thesis
    proof (cases res)
      case l: (Inl x)
      then have "w' = w1" using assms(2) d Inl by (simp add: handleDelivery_def validateDelivery_row)
      moreover have "c_drop c \<noteq> Answered"
        using l d by (cases "c_drop c") (auto simp: claimer_Drop_def on_pool_def)
      ultimately show ?thesis using l1 row Inl by (cases "c_drop c") (auto simp: validated_def Let_def)
    next
      case (Inr u)
      then have w': "w' = snd (PublishStat cd (c_publish c) (verdict_event rp now r) w1)"
        using assms(2) d Inl by (simp add: handleDelivery_def validateDelivery_row verdict_event_def Let_def)
      show ?thesis
        using pub [of "row_key r" w1 "verdict_event rp now r", folded w'] local_step_trans [OF l1] row Inl
        by (auto simp: validated_def Let_def)
    qed
  next
    case (Inr ok)
    obtain res w1 where d: "MarkValidated (c_mark c) ?d w = (res, w1)" by fastforce
    have l1: "local_step (row_key r) w w1" using claimer_local(3) [of ?d w "c_mark c"] d by simp
    have row: "GetPool (row_key r) (w_pool w1) = Some (r\<lparr>row_status := Scheduled\<rparr>) \<and> c_mark c \<noteq> Refused \<or>
        GetPool (row_key r) (w_pool w1) = Some r \<and> c_mark c \<noteq> Answered"
      using d assms(1) by (cases "c_mark c") (auto simp: MarkValidated_def on_pool_def GetPool_SetScheduled)
    show ?thesis
    proof (cases res)
      case (Inl x)
      then have "w' = w1" using assms(2) d Inr by (simp add: handleDelivery_def validateDelivery_row)
      moreover have "c_mark c \<noteq> Answered"
        using Inl d by (cases "c_mark c") (auto simp: MarkValidated_def on_pool_def)
      ultimately show ?thesis using l1 row Inr by (cases "c_mark c") (auto simp: validated_def Let_def)
    next
      case r2: (Inr u)
      then have w': "w' = snd (PublishStat cd (c_publish c) (verdict_event rp now r) w1)"
        using assms(2) d Inr by (simp add: handleDelivery_def validateDelivery_row verdict_event_def Let_def)
      show ?thesis
        using pub [of "row_key r" w1 "verdict_event rp now r", folded w'] local_step_trans [OF l1] row Inr
        by (auto simp: validated_def Let_def)
    qed
  qed
  then show "local_step (row_key r) w w'" "validated rp cd now c r w'" by blast+
qed

lemma validated_later:
  assumes "validated rp cd now c r w" and "extends w w'"
    and "GetPool (row_key r) (w_pool w') = GetPool (row_key r) (w_pool w)"
  shows "validated rp cd now c r w'"
  using assms(1) published_extends [OF _ assms(2)]
  unfolding validated_def Let_def assms(3) by (auto split: sum.splits)

interpretation validate_page: page_worker "\<lambda>w :: 'b world. pool_inv (w_pool w)" "\<lambda>w k. GetPool k (w_pool w)" extends row_key
  "\<lambda>r w. snd (handleDelivery cd now (c (rowToDelivery rp r)) (rowToDelivery rp r) w)"
  "\<lambda>r. validated rp cd now (c (rowToDelivery rp r)) r"
  for rp and cd :: "'b codec" and now c
proof unfold_locales
  fix u v w w' :: "'b world" and r k
  show "extends w w" by simp
  show "extends u v \<Longrightarrow> extends v w \<Longrightarrow> extends u w" by (rule extends_trans)
  show "validated rp cd now (c (rowToDelivery rp r)) r w \<Longrightarrow> extends w w' \<Longrightarrow>
      GetPool (row_key r) (w_pool w') = GetPool (row_key r) (w_pool w) \<Longrightarrow>
      validated rp cd now (c (rowToDelivery rp r)) r w'"
    by (rule validated_later)
  assume r: "GetPool (row_key r) (w_pool w) = Some r"
  note eff = handleDelivery_effect [OF r refl, where rp = rp and cd = cd and now = now and c = "c (rowToDelivery rp r)"]
  let ?w = "snd (handleDelivery cd now (c (rowToDelivery rp r)) (rowToDelivery rp r) w)"
  show "pool_inv (w_pool w) \<Longrightarrow> pool_inv (w_pool ?w)" "extends w ?w" using eff(1) by (simp_all add: local_step_def)
  show "k \<noteq> row_key r \<Longrightarrow> GetPool k (w_pool ?w) = GetPool k (w_pool w)" by (rule local_step_other [OF eff(1)])
  show "validated rp cd now (c (rowToDelivery rp r)) r ?w" by (rule eff(2))
qed

lemma ClaimForValidation_rows:
  assumes "planner_ok sel" and "pool_inv (w_pool w)"
    and "ClaimForValidation rp sel now Answered n w = (Inr ds, w1)"
  obtains rs where "ds = map (rowToDelivery rp) rs" and "distinct (map row_key rs)" and "pool_inv (w_pool w1)"
    and "\<forall>r\<in>set rs. GetPool (row_key r) (w_pool w1) = Some r \<and> row_status r = Validating \<and> row_claimed r = Some now"
    and "\<forall>k. k \<notin> row_key ` set rs \<longrightarrow> GetPool k (w_pool w1) = GetPool k (w_pool w)"
    and "length rs \<le> n"
proof -
  obtain rs t' where cl: "claim_validate (sel, now, n) (w_pool w) = (rs, t')" by fastforce
  have ds: "ds = map (rowToDelivery rp) rs" and w1: "w1 = w\<lparr>w_pool := t'\<rparr>"
    using assms(3) cl by (auto simp: ClaimForValidation_def on_pool_def PrepareForValidate_def claim_validate_def
        split: prod.splits)
  have ok: "claim_ok (sel, now, n)" using assms(1) by (simp add: claim_ok_def)
  note taken = validate_claims.claim_inv [OF ok assms(2) cl] validate_claims.claim_distinct [OF ok assms(2) cl]
    validate_claims.claim_out [OF ok assms(2) cl] validate_claims.claim_frame [OF ok assms(2) cl]
  note tk = cl [unfolded claim_validate_def prod.case sql_take_rows]
  have each: "row_status r = Validating \<and> row_claimed r = Some now" if "r \<in> set rs" for r
    using that take_rows_out(1) [OF assms(1,2) tk] by auto
  have len: "length rs \<le> n" by (rule take_rows_out(2) [OF assms(1,2) tk])
  show thesis
    by (rule that [OF ds taken(2)]) (use taken(1,3,4) each len in \<open>auto simp: w1\<close>)
qed

lemma validator_cycle_page:
  assumes "planner_ok sel" and "pool_inv (w_pool w)"
    and "validator_Cycle rp cd sel now Answered c w = (res, w')"
  obtains rs where "res = Inr ()" and "pool_inv (w_pool w')" and "extends w w'" and "distinct (map row_key rs)" and "length rs \<le> 100"
    and "\<forall>k. k \<notin> row_key ` set rs \<longrightarrow> GetPool k (w_pool w') = GetPool k (w_pool w)"
    and "\<forall>r\<in>set rs. row_status r = Validating \<and> validated rp cd now (c (rowToDelivery rp r)) r w'"
proof -
  obtain claimed w1 where cl: "ClaimForValidation rp sel now Answered validationClaimSize w = (claimed, w1)" by fastforce
  obtain ds where "claimed = Inr ds"
    using cl by (auto simp: ClaimForValidation_def on_pool_def split: prod.splits)
  with cl have cl: "ClaimForValidation rp sel now Answered validationClaimSize w = (Inr ds, w1)" by simp
  have ext1: "extends w w1" using cl on_pool_effect(2) unfolding ClaimForValidation_def by blast
  obtain rs where rs: "ds = map (rowToDelivery rp) rs" "distinct (map row_key rs)" "pool_inv (w_pool w1)"
    "\<forall>r\<in>set rs. GetPool (row_key r) (w_pool w1) = Some r \<and> row_status r = Validating \<and> row_claimed r = Some now"
    "\<forall>k. k \<notin> row_key ` set rs \<longrightarrow> GetPool k (w_pool w1) = GetPool k (w_pool w)" "length rs \<le> validationClaimSize"
    by (rule ClaimForValidation_rows [OF assms(1,2) cl])
  have w': "res = Inr ()" and fold: "w' = fold (\<lambda>r w. snd (handleDelivery cd now (c (rowToDelivery rp r)) (rowToDelivery rp r) w)) rs w1"
    using assms(3) cl rs(1) by (auto simp: validator_Cycle_def fold_map comp_def)
  have get: "\<forall>r\<in>set rs. GetPool (row_key r) (w_pool w1) = Some r" using rs(4) by blast
  note page = validate_page.page [OF rs(2) get, where rp = rp and cd = cd and now = now and c = c, folded fold]
  have inv: "pool_inv (w_pool w')" using page rs(3) by blast
  have ext: "extends w w'" using page ext1 extends_trans by blast
  have frame: "\<forall>k. k \<notin> row_key ` set rs \<longrightarrow> GetPool k (w_pool w') = GetPool k (w_pool w)"
    using page [THEN conjunct2, THEN conjunct2, THEN conjunct1] rs(5) by simp
  have each: "\<forall>r\<in>set rs. row_status r = Validating \<and> validated rp cd now (c (rowToDelivery rp r)) r w'"
    using page [THEN conjunct2, THEN conjunct2] rs(4) by blast
  have "length rs \<le> 100" using rs(6) by (simp add: validationClaimSize_def)
  then show thesis using that [OF w' inv ext rs(2) _ frame each] by blast
qed

text \<open>
  C19. A validation cycle settles every Delivery it claimed by its address alone.  When the claim is
  answered, each of the at most 100 Deliveries claimed ends scheduled with nothing else of it changed if
  its address passes the check, and out of the Pool if it does not, unless the very call that settles it
  failed; no passing address is dropped and no failing one scheduled, whatever fails; the verdict is
  published unless a call failed or the event cannot be encoded; and every other row is untouched.
\<close>

theorem validator_Cycle_settles:
  assumes "planner_ok sel" and "pool_inv (w_pool w)"
    and "validator_Cycle rp cd sel now Answered c w = (res, w')"
  shows "res = Inr () \<and> pool_inv (w_pool w') \<and>
     (\<exists>rs. distinct (map row_key rs) \<and> length rs \<le> 100 \<and>
        (\<forall>k. k \<notin> row_key ` set rs \<longrightarrow> GetPool k (w_pool w') = GetPool k (w_pool w)) \<and>
        (\<forall>r\<in>set rs. row_status r = Validating \<and>
          (let c = c (rowToDelivery rp r); e = verdict_event rp now r; row = GetPool (row_key r) (w_pool w');
               told = (published cd w' e \<or> c_publish c \<noteq> Answered \<or> MarshalEvent (marshal_stats cd) e = None) in
           if is_ok (validateEmail (row_email r))
           then (row = Some (r\<lparr>row_status := Scheduled\<rparr>) \<and> (told \<or> c_mark c = LostReply)) \<or> (row = Some r \<and> c_mark c \<noteq> Answered)
           else (row = None \<and> (told \<or> c_drop c = LostReply)) \<or> (row = Some r \<and> c_drop c \<noteq> Answered))))"
proof -
  obtain rs where rs: "res = Inr ()" "pool_inv (w_pool w')" "extends w w'" "distinct (map row_key rs)" "length rs \<le> 100"
    "\<forall>k. k \<notin> row_key ` set rs \<longrightarrow> GetPool k (w_pool w') = GetPool k (w_pool w)"
    "\<forall>r\<in>set rs. row_status r = Validating \<and> validated rp cd now (c (rowToDelivery rp r)) r w'"
    by (rule validator_cycle_page [OF assms])
  have "row_status r = Validating \<and>
      (let c = c (rowToDelivery rp r); e = verdict_event rp now r; row = GetPool (row_key r) (w_pool w');
           told = (published cd w' e \<or> c_publish c \<noteq> Answered \<or> MarshalEvent (marshal_stats cd) e = None) in
       if is_ok (validateEmail (row_email r))
       then (row = Some (r\<lparr>row_status := Scheduled\<rparr>) \<and> (told \<or> c_mark c = LostReply)) \<or> (row = Some r \<and> c_mark c \<noteq> Answered)
       else (row = None \<and> (told \<or> c_drop c = LostReply)) \<or> (row = Some r \<and> c_drop c \<noteq> Answered))"
    if r: "r \<in> set rs" for r
    using rs(7) r by (cases "validateEmail (row_email r)") (auto simp: validated_def Let_def)
  then show ?thesis using rs(1,2,4-6) by blast
qed

definition fresh_pool :: pool_table where
  "fresh_pool = \<lparr>rows = [example_row 1 ''no at sign'' ToValidate, example_row 2 ''a@b.co'' ToValidate], next_id = 3\<rparr>"

lemma fresh_pool_inv: "pool_inv fresh_pool"
  by (simp add: pool_inv_def fresh_pool_def example_row_def row_key_def in_flight_def)

definition fresh_world :: "(wire_stats + EmailToSend) world" where
  "fresh_world = \<lparr>w_pool = fresh_pool, w_stats = [], w_sending = []\<rparr>"

lemma validator_Cycle_settles_witness:
  "fst (validator_Cycle example_repo plain_codec (\<lambda>n cs. take n cs) 5 Answered (\<lambda>_. all_answered) fresh_world) = Inr () \<and>
   pool_inv (w_pool (snd (validator_Cycle example_repo plain_codec (\<lambda>n cs. take n cs) 5 Answered (\<lambda>_. all_answered) fresh_world)))"
proof -
  obtain res w' where d: "validator_Cycle example_repo plain_codec (\<lambda>n cs. take n cs) 5 Answered (\<lambda>_. all_answered)
      fresh_world = (res, w')" by fastforce
  have "pool_inv (w_pool fresh_world)" using fresh_pool_inv by (simp add: fresh_world_def)
  from validator_Cycle_settles [OF planner_ok_take this d] show ?thesis unfolding d fst_conv snd_conv by blast
qed

text \<open>
  The order of the two calls of a rejection decides what a failure loses.  When the stream refuses the
  event, a Delivery the Validator rejects is gone from the Pool and nothing was published about it, and a
  second claim cannot find it; the Dispatcher, which publishes before it drops, in the same situation
  keeps the row.
\<close>

theorem rejection_lost_without_stream:
  assumes "GetPool (row_key r) (w_pool w) = Some r" and "\<not> is_ok (validateEmail (row_email r))"
    and "c_drop c = Answered" and "c_publish c = Refused" and "\<not> CanRetry (rowToDelivery rp r)"
  shows "GetPool (row_key r) (w_pool (snd (handleDelivery cd now c (rowToDelivery rp r) w))) = None \<and>
     w_stats (snd (handleDelivery cd now c (rowToDelivery rp r) w)) = w_stats w \<and>
     snd (retryOrFail rp cd now c (rowToDelivery rp r) reason w) = w"
proof -
  obtain err where v: "validateEmail (row_email r) = Inl err" using assms(2) by (cases "validateEmail (row_email r)") simp_all
  have p: "snd (PublishStat cd Refused e x) = x" "fst (PublishStat cd Refused e x) \<noteq> Inr ()" for e x
    by (simp_all add: PublishStat_def Let_def split: option.split)
  have "handleDelivery cd now c (rowToDelivery rp r) w =
      PublishStat cd Refused (validation_event now (rowToDelivery rp r) (Rejected err)) (w\<lparr>w_pool := Clean (row_key r) (w_pool w)\<rparr>)"
    by (simp add: handleDelivery_def validateDelivery_row v claimer_Drop_def on_pool_def assms(3,4))
  moreover have "snd (retryOrFail rp cd now c (rowToDelivery rp r) reason w) = w"
    using p [of "failed_event now (rowToDelivery rp r) reason" w] assms(4,5)
    by (auto simp: retryOrFail_def disp_fail_def split: sum.splits prod.splits)
  ultimately show ?thesis by (simp add: p GetPool_Clean)
qed

lemma rejection_lost_without_stream_witness:
  "GetPool (''msg_c@k.dev'', ''no at sign'')
     (w_pool (snd (handleDelivery plain_codec 5 (all_answered\<lparr>c_publish := Refused\<rparr>)
       (rowToDelivery example_repo ((example_row 1 ''no at sign'' ToValidate)\<lparr>row_attempts := 12\<rparr>))
       (fresh_world\<lparr>w_pool := \<lparr>rows = [(example_row 1 ''no at sign'' ToValidate)\<lparr>row_attempts := 12\<rparr>], next_id = 2\<rparr>\<rparr>)))) = None"
proof -
  let ?r = "(example_row 1 ''no at sign'' ToValidate)\<lparr>row_attempts := 12\<rparr>"
  let ?w = "fresh_world\<lparr>w_pool := \<lparr>rows = [?r], next_id = 2\<rparr>\<rparr>"
  have k: "row_key ?r = (''msg_c@k.dev'', ''no at sign'')" by (simp add: example_row_def row_key_def)
  have g: "GetPool (row_key ?r) (w_pool ?w) = Some ?r" by (simp add: GetPool_def)
  have v: "\<not> is_ok (validateEmail (row_email ?r))" by code_simp
  have c: "c_drop (all_answered\<lparr>c_publish := Refused\<rparr>) = Answered" "c_publish (all_answered\<lparr>c_publish := Refused\<rparr>) = Refused"
    by (simp_all add: all_answered_def)
  have b: "\<not> CanRetry (rowToDelivery example_repo ?r)" by code_simp
  show ?thesis
    using rejection_lost_without_stream [OF g v c b, of plain_codec 5, THEN conjunct1] unfolding k .
qed

end
