(* ===== verification/Smtp.thy ===== *)
theory Smtp
  imports Stream Utf8
begin

text \<open>
  \<open>internal/smtp\<close>: the address check before sending, the choice of relays, one SMTP transaction, and the
  demo sender.  The network is a parameter: what the resolver answers, and how each command of a
  transaction with a relay turns out.  Besides its result, a transmission returns the relays that
  accepted the message, in order, which is what the recipient will receive.
\<close>

section \<open>Addresses\<close>

definition address_char :: "char \<Rightarrow> bool" where
  "address_char c \<longleftrightarrow> c \<noteq> CHR ''@'' \<and> c \<noteq> CHR '' '' \<and> c \<noteq> CHR 0x09 \<and> c \<noteq> CHR 0x0D \<and> c \<noteq> CHR 0x0A"

text \<open>\<open>^[^@ \t\r\n]+@[^@ \t\r\n]+\.[^@ \t\r\n]{2,}$\<close>: the two characters after the dot are runes.\<close>

definition Validate :: "string \<Rightarrow> bool" where
  "Validate addr \<longleftrightarrow>
     (case split_char CHR ''@'' addr of
        [l, d] \<Rightarrow> l \<noteq> [] \<and> list_all address_char l \<and> list_all address_char d \<and>
          list_ex (\<lambda>i. d ! i = CHR ''.'' \<and> 0 < i \<and> 2 \<le> length (runes (drop (Suc i) d))) [0..<length d]
      | _ \<Rightarrow> False)"

definition SplitEmail :: "string \<Rightarrow> (string \<times> string) option" where
  "SplitEmail addr =
     (if \<not> Validate addr then None
      else case cut_char CHR ''@'' addr of (l, d, found) \<Rightarrow> if found then Some (l, d) else None)"

definition GetEmailDomain :: "string \<Rightarrow> string option" where
  "GetEmailDomain addr = map_option snd (SplitEmail addr)"

section \<open>Errors\<close>

text \<open>An error of the SMTP library: a reply of the relay with its code, or anything else.\<close>

datatype smtp_failure = Reply nat string | Transport string

fun failure_text :: "smtp_failure \<Rightarrow> string" where
  "failure_text (Reply n t) = t"
| "failure_text (Transport t) = t"

record smtpError =
  se_err :: string
  se_permanent :: bool
  se_code :: "32 word"

definition newSMTPError :: "string \<Rightarrow> bool \<Rightarrow> 32 word \<Rightarrow> smtpError" where
  "newSMTPError err permanent cd = \<lparr>se_err = err, se_permanent = permanent, se_code = cd\<rparr>"

definition newSMTPErrorFromSTMP :: "smtp_failure \<Rightarrow> smtpError" where
  "newSMTPErrorFromSTMP err =
     (case err of
        Transport t \<Rightarrow> newSMTPError t False 0
      | Reply n t \<Rightarrow> newSMTPError t (500 \<le> n \<and> n < 600) (of_nat n))"

section \<open>One transaction\<close>

text \<open>How each step of a transaction turns out, \<open>None\<close> being success.\<close>

record session =
  ss_dial :: "smtp_failure option"
  ss_deadline :: "smtp_failure option"
  ss_client :: "smtp_failure option"
  ss_hello :: "smtp_failure option"
  ss_starttls :: bool
  ss_tls :: "smtp_failure option"
  ss_mail :: "smtp_failure option"
  ss_rcpt :: "smtp_failure option"
  ss_data :: "smtp_failure option"
  ss_write :: "smtp_failure option"
  ss_close :: "smtp_failure option"
  ss_quit :: "smtp_failure option"

type_synonym network = "string \<Rightarrow> bool \<Rightarrow> session" \<comment> \<open>by relay, and whether certificates go unchecked\<close>

definition connection_error :: "smtp_failure \<Rightarrow> smtpError" where
  "connection_error err = newSMTPError (failure_text err) False 111"

definition transaction :: "session \<Rightarrow> string \<Rightarrow> smtpError option \<times> string list" where
  "transaction s mx =
     (case ss_mail s of Some err \<Rightarrow> (Some (newSMTPErrorFromSTMP err), []) | None \<Rightarrow>
      case ss_rcpt s of Some err \<Rightarrow> (Some (newSMTPErrorFromSTMP err), []) | None \<Rightarrow>
      case ss_data s of Some err \<Rightarrow> (Some (newSMTPErrorFromSTMP err), []) | None \<Rightarrow>
      case ss_write s of Some err \<Rightarrow> (Some (newSMTPErrorFromSTMP err), []) | None \<Rightarrow>
      case ss_close s of Some err \<Rightarrow> (Some (newSMTPErrorFromSTMP err), []) | None \<Rightarrow>
      case ss_quit s of Some err \<Rightarrow> (Some (newSMTPErrorFromSTMP err), [mx]) | None \<Rightarrow> (None, [mx]))"

function deliver :: "network \<Rightarrow> string \<Rightarrow> bool \<Rightarrow> smtpError option \<times> string list" where
  "deliver net mx insecure =
     (let s = net mx insecure in
      case ss_dial s of Some err \<Rightarrow> (Some (connection_error err), []) | None \<Rightarrow>
      case ss_deadline s of Some err \<Rightarrow> (Some (connection_error err), []) | None \<Rightarrow>
      case ss_client s of Some err \<Rightarrow> (Some (connection_error err), []) | None \<Rightarrow>
      case ss_hello s of Some err \<Rightarrow> (Some (connection_error err), []) | None \<Rightarrow>
      if ss_starttls s then
        (case ss_tls s of
           Some err \<Rightarrow> if insecure then (Some (connection_error err), []) else deliver net mx True
         | None \<Rightarrow> transaction s mx)
      else transaction s mx)"
  by auto
termination
  by (relation "measure (\<lambda>(net, mx, insecure). if insecure then 0 else 1)") auto

declare deliver.simps [simp del]

section \<open>Relays\<close>

text \<open>What \<open>net.LookupMX\<close> answers; a resolver error says whether it is a not-found or temporary one.\<close>

datatype mx_answer = Records "string list" | DnsNotFound | DnsError string bool | OtherLookupError

record resolver =
  rv_to_ascii :: "string \<Rightarrow> string + string"
  rv_lookup :: "string \<Rightarrow> mx_answer"

definition lookupMXs :: "resolver \<Rightarrow> string \<Rightarrow> smtpError + string list" where
  "lookupMXs rv dmn =
     (case rv_to_ascii rv dmn of
        Inl err \<Rightarrow> Inl (newSMTPError err True 512)
      | Inr a \<Rightarrow>
          (case rv_lookup rv a of
             DnsError err temporary \<Rightarrow> Inl (newSMTPError err (\<not> temporary) 512)
           | OtherLookupError \<Rightarrow> Inl (newSMTPError ''lookup : '' True 512)
           | DnsNotFound \<Rightarrow> Inr [a]
           | Records hosts \<Rightarrow> Inr (if 5 < length hosts then take 5 hosts else hosts)))"

fun send_loop :: "network \<Rightarrow> string list \<Rightarrow> smtpError option \<Rightarrow> smtpError option \<times> string list" where
  "send_loop net [] lastErr =
     (case lastErr of None \<Rightarrow> (None, [])
      | Some err \<Rightarrow> (Some (newSMTPError (''all MXs failed, last error: '' @ se_err err) False (se_code err)), []))"
| "send_loop net (mx # mxs) lastErr =
     (case deliver net mx False of
        (None, acc) \<Rightarrow> (None, acc)
      | (Some err, acc) \<Rightarrow>
          if 200 < se_code err then (Some err, acc)
          else (case send_loop net mxs (Some err) of (r, acc') \<Rightarrow> (r, acc @ acc')))"

definition Send :: "network \<Rightarrow> resolver \<Rightarrow> string \<Rightarrow> smtpError option \<times> string list" where
  "Send net rv to =
     (case GetEmailDomain to of
        None \<Rightarrow> (Some (newSMTPError ''mta: invalid mail address'' True 510), [])
      | Some toDomain \<Rightarrow>
          (case lookupMXs rv toDomain of
             Inl lerr \<Rightarrow> (Some lerr, [])
           | Inr mxs \<Rightarrow>
               (if length mxs = 0 then (Some (newSMTPError ''recipient domain has null MX'' True 550), [])
                else send_loop net mxs None)))"

definition demo_Send :: "string \<Rightarrow> smtpError option" where
  "demo_Send to = (if contains ''error'' to then Some (newSMTPError ''error sending email'' True 512) else None)"

section \<open>What a transmission does\<close>

text \<open>A transaction the relay answered a QUIT in, whenever it had accepted the message.\<close>

definition quits_cleanly :: "network \<Rightarrow> bool" where
  "quits_cleanly net \<longleftrightarrow> (\<forall>mx ins. ss_quit (net mx ins) = None)"

lemma transaction_cases:
  "fst (transaction s mx) = None \<Longrightarrow> snd (transaction s mx) = [mx]"
  "ss_quit s = None \<Longrightarrow> fst (transaction s mx) \<noteq> None \<Longrightarrow> snd (transaction s mx) = []"
  "length (snd (transaction s mx)) \<le> 1"
  "set (snd (transaction s mx)) \<subseteq> {mx}"
  by (auto simp: transaction_def split: option.splits)

text \<open>Each way a delivery to one relay ends: before the transaction, or with it, checked or not.\<close>

lemma deliver_cases:
  obtains err where "deliver net mx ins = (Some (connection_error err), [])"
  | ins' where "deliver net mx ins = transaction (net mx ins') mx"
proof -
  have insecure: "(\<exists>err. deliver net mx True = (Some (connection_error err), [])) \<or>
      deliver net mx True = transaction (net mx True) mx"
    by (subst (1 2) deliver.simps) (auto simp: Let_def split: option.splits)
  have "(\<exists>err. deliver net mx ins = (Some (connection_error err), [])) \<or>
      (\<exists>ins'. deliver net mx ins = transaction (net mx ins') mx)"
  proof (cases ins)
    case False
    have "(\<exists>err. deliver net mx False = (Some (connection_error err), [])) \<or>
        deliver net mx False = transaction (net mx False) mx \<or> deliver net mx False = deliver net mx True"
      by (subst (1 2 3) deliver.simps) (auto simp: Let_def split: option.splits)
    then show ?thesis using insecure False by metis
  qed (use insecure in auto)
  then show ?thesis using that by blast
qed

lemma deliver_None: "deliver net mx ins = (None, acc) \<Longrightarrow> acc = [mx]"
  using transaction_cases(1) by (metis deliver_cases fst_conv option.distinct(1) snd_conv)

lemma reply_permanent:
  "se_permanent (newSMTPErrorFromSTMP f) \<Longrightarrow>
     500 \<le> se_code (newSMTPErrorFromSTMP f) \<and> se_code (newSMTPErrorFromSTMP f) < 600"
proof (cases f)
  case (Reply n t)
  assume "se_permanent (newSMTPErrorFromSTMP f)"
  then have n: "500 \<le> n" "n < 600" using Reply by (simp_all add: newSMTPErrorFromSTMP_def newSMTPError_def)
  then have "n mod 2 ^ 32 = n" by simp
  then have "unat (of_nat n :: 32 word) = n" by (simp add: unat_of_nat)
  then show ?thesis
    using n Reply by (simp add: newSMTPErrorFromSTMP_def newSMTPError_def word_le_nat_alt word_less_nat_alt)
qed (simp add: newSMTPErrorFromSTMP_def newSMTPError_def)

lemma transaction_error:
  "fst (transaction s mx) = Some e \<Longrightarrow> \<exists>f. e = newSMTPErrorFromSTMP f"
  by (auto simp: transaction_def split: option.splits)

lemma deliver_error:
  assumes "deliver net mx ins = (Some err, acc)"
  shows "set acc \<subseteq> {mx}" and "length acc \<le> 1" and "quits_cleanly net \<Longrightarrow> acc = []"
    and "se_permanent err \<Longrightarrow> 500 \<le> se_code err \<and> se_code err < 600"
proof -
  have "set acc \<subseteq> {mx} \<and> length acc \<le> 1 \<and> (quits_cleanly net \<longrightarrow> acc = []) \<and>
      (se_permanent err \<longrightarrow> 500 \<le> se_code err \<and> se_code err < 600)"
  proof (cases rule: deliver_cases [of net mx ins])
    case (1 e)
    then show ?thesis using assms by (auto simp: connection_error_def newSMTPError_def)
  next
    case (2 ins')
    then have t: "transaction (net mx ins') mx = (Some err, acc)" using assms by simp
    have "quits_cleanly net \<Longrightarrow> acc = []"
      using transaction_cases(2) [of "net mx ins'" mx] unfolding t by (simp add: quits_cleanly_def)
    moreover have "se_permanent err \<Longrightarrow> 500 \<le> se_code err \<and> se_code err < 600"
      using transaction_error [of "net mx ins'" mx err] reply_permanent unfolding t by auto
    ultimately show ?thesis using transaction_cases(3,4) [of "net mx ins'" mx] unfolding t by simp
  qed
  then show "set acc \<subseteq> {mx}" "length acc \<le> 1" "quits_cleanly net \<Longrightarrow> acc = []"
    "se_permanent err \<Longrightarrow> 500 \<le> se_code err \<and> se_code err < 600" by blast+
qed

definition loop_ok :: "network \<Rightarrow> string list \<Rightarrow> smtpError option \<times> string list \<Rightarrow> bool" where
  "loop_ok net mxs out \<longleftrightarrow>
     (case out of (res, acc) \<Rightarrow>
        set acc \<subseteq> set mxs \<and> length acc \<le> length mxs \<and> (res = None \<longrightarrow> acc \<noteq> []) \<and>
        (quits_cleanly net \<longrightarrow> (case res of None \<Rightarrow> length acc = 1 | Some _ \<Rightarrow> acc = [])) \<and>
        (\<forall>err. res = Some err \<and> se_permanent err \<longrightarrow> 500 \<le> se_code err \<and> se_code err < 600))"

lemma send_loop_ok: "mxs \<noteq> [] \<or> lastErr \<noteq> None \<Longrightarrow> loop_ok net mxs (send_loop net mxs lastErr)"
proof (induction mxs arbitrary: lastErr)
  case Nil
  then show ?case by (auto simp: loop_ok_def newSMTPError_def)
next
  case (Cons mx mxs)
  obtain res acc where d: "deliver net mx False = (res, acc)" by fastforce
  show ?case
  proof (cases res)
    case None
    then show ?thesis using d deliver_None [of net mx False acc] by (simp add: loop_ok_def)
  next
    case (Some err)
    note eff = deliver_error [OF d [unfolded Some]]
    show ?thesis
    proof (cases "200 < se_code err")
      case True
      then show ?thesis using d Some eff by (auto simp: loop_ok_def)
    next
      case False
      obtain r acc' where l: "send_loop net mxs (Some err) = (r, acc')" by fastforce
      have "loop_ok net mxs (r, acc')" using Cons.IH [of "Some err"] l by simp
      then show ?thesis using d Some False l eff(1-3) by (auto simp: loop_ok_def split: option.splits)
    qed
  qed
qed


definition good_session :: session where
  "good_session =
     \<lparr>ss_dial = None, ss_deadline = None, ss_client = None, ss_hello = None, ss_starttls = False, ss_tls = None,
      ss_mail = None, ss_rcpt = None, ss_data = None, ss_write = None, ss_close = None, ss_quit = None\<rparr>"

definition two_relays :: resolver where
  "two_relays = \<lparr>rv_to_ascii = Inr, rv_lookup = (\<lambda>_. Records [''mx1'', ''mx2''])\<rparr>"

lemma example_address: "GetEmailDomain ''r@x.org'' = Some ''x.org''"
  by code_simp


text \<open>
  A relay that accepts the message and drops the connection instead of answering QUIT makes the sender
  deliver it again: the failed QUIT is reported with code 0, which the loop over the relays takes for a
  relay that could not be tried, so the next relay gets the message too; with a single relay the copy
  that was accepted is reported as a temporary failure.
\<close>

theorem quit_failure_duplicates:
  assumes "GetEmailDomain to = Some d" and "net mx1 False = good_session\<lparr>ss_quit := Some (Transport t)\<rparr>"
    and "net mx2 False = good_session"
  shows "(lookupMXs rv d = Inr [mx1, mx2] \<longrightarrow> Send net rv to = (None, [mx1, mx2])) \<and>
     (lookupMXs rv d = Inr [mx1] \<longrightarrow>
        Send net rv to = (Some (newSMTPError (''all MXs failed, last error: '' @ t) False 0), [mx1]))"
  using assms(1)
  by (simp add: Send_def deliver.simps assms(2,3) good_session_def transaction_def newSMTPErrorFromSTMP_def newSMTPError_def)

definition rude_net :: network where
  "rude_net mx ins = (if mx = ''mx1'' then good_session\<lparr>ss_quit := Some (Transport ''EOF'')\<rparr> else good_session)"

lemma quit_failure_duplicates_witness:
  "Send rude_net two_relays ''r@x.org'' = (None, [''mx1'', ''mx2''])"
proof -
  have n: "rude_net ''mx1'' False = good_session\<lparr>ss_quit := Some (Transport ''EOF'')\<rparr>" "rude_net ''mx2'' False = good_session"
    by (simp_all add: rude_net_def)
  have l: "lookupMXs two_relays ''x.org'' = Inr [''mx1'', ''mx2'']" by (simp add: lookupMXs_def two_relays_def)
  show ?thesis by (rule quit_failure_duplicates [where net = rude_net, OF example_address n, THEN conjunct1, THEN mp, OF l])
qed

end
