(* ===== verification/Messages.thy ===== *)
theory Messages
  imports Batch Utf8
begin

text \<open>
  \<open>internal/utils/message.go\<close>, \<open>obfuscate.go\<close> and the identifiers built by \<open>internal/envelope/message.go\<close>:
  the Email-ID of an Envelope and its Return-Path both carry the recipient's address in URL-safe base64
  beside the Batch id, and are parsed back by greedy regular expressions.  The expressions are written
  out: \<open>.\<close> is any byte but a newline, and their delimiters are ASCII, so bytes and runes agree.
\<close>

section \<open>URL-safe base64\<close>

text \<open>The alphabet A-Z, a-z, 0-9, hyphen and underscore, by position.\<close>

definition b64_char :: "nat \<Rightarrow> char" where
  "b64_char n =
     char_of (if n < 26 then n + 65 else if n < 52 then n + 71 else if n < 62 then n - 4
              else if n = 62 then 45 else 95)"

definition b64_value :: "char \<Rightarrow> nat option" where
  "b64_value c =
     (let n = code c in
      if 65 \<le> n \<and> n \<le> 90 then Some (n - 65)
      else if 97 \<le> n \<and> n \<le> 122 then Some (n - 71)
      else if 48 \<le> n \<and> n \<le> 57 then Some (n + 4)
      else if n = 45 then Some 62
      else if n = 95 then Some 63
      else None)"

fun b64_encode :: "string \<Rightarrow> string" where
  "b64_encode [] = []"
| "b64_encode [a] = [b64_char (code a div 4), b64_char (code a mod 4 * 16), CHR ''='', CHR ''='']"
| "b64_encode [a, b] =
     [b64_char (code a div 4), b64_char (code a mod 4 * 16 + code b div 16),
      b64_char (code b mod 16 * 4), CHR ''='']"
| "b64_encode (a # b # c # s) =
     b64_char (code a div 4) # b64_char (code a mod 4 * 16 + code b div 16) #
     b64_char (code b mod 16 * 4 + code c div 64) # b64_char (code c mod 64) # b64_encode s"

fun b64_quanta :: "string \<Rightarrow> string option" where
  "b64_quanta [] = Some []"
| "b64_quanta (a # b # c # d # s) =
     (case (b64_value a, b64_value b) of
        (Some x, Some y) \<Rightarrow>
          if c = CHR ''='' then
            (if d = CHR ''='' \<and> s = [] then Some [char_of (x * 4 + y div 16)] else None)
          else (case b64_value c of
             None \<Rightarrow> None
           | Some z \<Rightarrow>
               if d = CHR ''='' then
                 (if s = [] then Some [char_of (x * 4 + y div 16), char_of (y mod 16 * 16 + z div 4)] else None)
               else (case (b64_value d, b64_quanta s) of
                  (Some w, Some r) \<Rightarrow>
                    Some (char_of (x * 4 + y div 16) # char_of (y mod 16 * 16 + z div 4) #
                          char_of (z mod 4 * 64 + w) # r)
                | _ \<Rightarrow> None))
      | _ \<Rightarrow> None)"
| "b64_quanta s = None"

text \<open>\<open>DecodeString\<close> skips carriage returns and newlines.\<close>

definition b64_decode :: "string \<Rightarrow> string option" where
  "b64_decode s = b64_quanta (filter (\<lambda>c. code c \<noteq> 10 \<and> code c \<noteq> 13) s)"

section \<open>Identifiers\<close>

definition buildEmailID :: "string \<Rightarrow> string \<Rightarrow> string" where
  "buildEmailID to messageID = ''<'' @ b64_encode to @ ''/'' @ messageID @ ''>''"

definition buildReturnPath :: "string \<Rightarrow> string \<Rightarrow> string" where
  "buildReturnPath to messageID = ''bump_'' @ b64_encode to @ ''+'' @ messageID"

abbreviation newline :: char where "newline \<equiv> CHR 0x0A"

fun last_index :: "char \<Rightarrow> string \<Rightarrow> nat option" where
  "last_index c [] = None"
| "last_index c (x # xs) =
     (case last_index c xs of Some i \<Rightarrow> Some (Suc i) | None \<Rightarrow> if x = c then Some 0 else None)"

text \<open>\<open>.+@(.+)\<close> inside one line: greedy, so up to the last at sign that something follows.\<close>

definition line_domain :: "string \<Rightarrow> string option" where
  "line_domain l =
     (case last_index CHR ''@'' (butlast l) of
        None \<Rightarrow> None
      | Some j \<Rightarrow> if 1 \<le> j then Some (drop (Suc j) l) else None)"

fun first_some :: "('a \<Rightarrow> 'b option) \<Rightarrow> 'a list \<Rightarrow> 'b option" where
  "first_some f [] = None"
| "first_some f (x # xs) = (case f x of Some y \<Rightarrow> Some y | None \<Rightarrow> first_some f xs)"

definition ExtractDomainFromMessageID :: "string \<Rightarrow> string option" where
  "ExtractDomainFromMessageID messageID = first_some line_domain (split_char newline messageID)"

text \<open>\<open><.+/(.+)>\<close> after an opening bracket, inside one line: the last closing bracket, then the last slash.\<close>

definition line_msgid :: "string \<Rightarrow> string option" where
  "line_msgid l =
     (case last_index CHR ''>'' l of
        None \<Rightarrow> None
      | Some k \<Rightarrow>
          (case last_index CHR ''/'' (take (k - 1) l) of
             None \<Rightarrow> None
           | Some j \<Rightarrow> if 1 \<le> j then Some (drop (Suc j) (take k l)) else None))"

fun find_msgid :: "string \<Rightarrow> string option" where
  "find_msgid [] = None"
| "find_msgid (c # cs) =
     (if c = CHR ''<'' then
        (case line_msgid (takeWhile (\<lambda>x. x \<noteq> newline) cs) of Some m \<Rightarrow> Some m | None \<Rightarrow> find_msgid cs)
      else find_msgid cs)"

definition ExtractMsgIDAndDomainFromEmailID :: "string \<Rightarrow> (string \<times> string) option" where
  "ExtractMsgIDAndDomainFromEmailID emailID =
     (case find_msgid emailID of
        None \<Rightarrow> None
      | Some msgID \<Rightarrow> map_option (Pair msgID) (ExtractDomainFromMessageID msgID))"

text \<open>\<open>bump_([^+]*)\+(.*)\<close>: the leftmost prefix that a plus sign follows.\<close>

fun find_bump :: "string \<Rightarrow> (string \<times> string) option" where
  "find_bump [] = None"
| "find_bump (c # cs) =
     (let rest = drop 5 (c # cs) in
      if has_prefix ''bump_'' (c # cs) \<and> CHR ''+'' \<in> set rest
      then Some (takeWhile (\<lambda>x. x \<noteq> CHR ''+'') rest,
                 takeWhile (\<lambda>x. x \<noteq> newline) (tl (dropWhile (\<lambda>x. x \<noteq> CHR ''+'') rest)))
      else find_bump cs)"

datatype bounce_path = NotBounce | InvalidBounce | BouncePath string string string

definition ParseBounceReturnPath :: "string \<Rightarrow> bounce_path" where
  "ParseBounceReturnPath returnPath =
     (case find_bump returnPath of
        None \<Rightarrow> NotBounce
      | Some (emailHash, messageID) \<Rightarrow>
          (case b64_decode emailHash of
             None \<Rightarrow> InvalidBounce
           | Some email \<Rightarrow>
               (case ExtractDomainFromMessageID messageID of
                  None \<Rightarrow> InvalidBounce
                | Some domain \<Rightarrow> BouncePath email messageID domain)))"

definition ObfuscateEmail :: "string \<Rightarrow> string" where
  "ObfuscateEmail email =
     (case last_index CHR ''@'' email of
        None \<Rightarrow> email
      | Some at0 \<Rightarrow>
          if at0 = 0 then email
          else [hd email] @ replicate (at0 - 1) CHR ''*'' @ ''@'' @ drop (Suc at0) email)"

section \<open>Round trips\<close>

lemma code_b64_char:
  "n < 64 \<Longrightarrow> code (b64_char n) =
     (if n < 26 then n + 65 else if n < 52 then n + 71 else if n < 62 then n - 4 else if n = 62 then 45 else 95)"
  by (simp add: b64_char_def)

lemma b64_value_char: "n < 64 \<Longrightarrow> b64_value (b64_char n) = Some n"
  by (auto simp: b64_value_def code_b64_char Let_def)

text \<open>The characters of the alphabet, by code.\<close>

definition b64_safe :: "char \<Rightarrow> bool" where
  "b64_safe c \<longleftrightarrow> (65 \<le> code c \<and> code c \<le> 90) \<or> (97 \<le> code c \<and> code c \<le> 122) \<or>
     (48 \<le> code c \<and> code c \<le> 57) \<or> code c \<in> {45, 61, 95}"

lemma b64_char_safe: "n < 64 \<Longrightarrow> b64_safe (b64_char n)"
  by (auto simp: b64_safe_def code_b64_char)

lemma b64_char_not_pad: "n < 64 \<Longrightarrow> b64_char n \<noteq> CHR ''=''"
  using b64_value_char [of n] by (auto simp: b64_value_def)

lemma pack: "q < k \<Longrightarrow> (m * k + q) div k = m \<and> (m * k + q) mod k = (q :: nat)"
  by simp

lemma quantum_bounds:
  "code a div 4 < 64" "code a mod 4 * 16 < 64" "code a mod 4 * 16 + code b div 16 < 64"
  "code b mod 16 * 4 < 64" "code b mod 16 * 4 + code c div 64 < 64" "code c mod 64 < 64"
proof -
  have "code a div 4 < 64" "code b div 16 < 16" "code c div 64 < 4"
    using code_lt [of a] code_lt [of b] code_lt [of c] by (simp_all add: less_mult_imp_div_less)
  moreover have "code a mod 4 < 4" "code b mod 16 < 16" by simp_all
  ultimately show "code a div 4 < 64" "code a mod 4 * 16 < 64" "code a mod 4 * 16 + code b div 16 < 64"
    "code b mod 16 * 4 < 64" "code b mod 16 * 4 + code c div 64 < 64" "code c mod 64 < 64"
    by simp_all
qed

lemma quantum_bytes:
  "code a div 4 * 4 + (code a mod 4 * 16) div 16 = code a"
  "code a div 4 * 4 + (code a mod 4 * 16 + code b div 16) div 16 = code a"
  "(code a mod 4 * 16 + code b div 16) mod 16 * 16 + (code b mod 16 * 4) div 4 = code b"
  "(code a mod 4 * 16 + code b div 16) mod 16 * 16 + (code b mod 16 * 4 + code c div 64) div 4 = code b"
  "(code b mod 16 * 4 + code c div 64) mod 4 * 64 + code c mod 64 = code c"
proof -
  have b: "code b div 16 < 16" and c: "code c div 64 < 4"
    using code_lt [of b] code_lt [of c] by (simp_all add: less_mult_imp_div_less)
  note P = pack [OF b, of "code a mod 4"] pack [OF c, of "code b mod 16"]
  show "code a div 4 * 4 + (code a mod 4 * 16) div 16 = code a"
    "code a div 4 * 4 + (code a mod 4 * 16 + code b div 16) div 16 = code a"
    "(code a mod 4 * 16 + code b div 16) mod 16 * 16 + (code b mod 16 * 4) div 4 = code b"
    "(code a mod 4 * 16 + code b div 16) mod 16 * 16 + (code b mod 16 * 4 + code c div 64) div 4 = code b"
    "(code b mod 16 * 4 + code c div 64) mod 4 * 64 + code c mod 64 = code c"
    by (simp_all only: P div_mult_mod_eq nonzero_mult_div_cancel_right numeral_neq_zero not_False_eq_True zero_neq_numeral)
qed

lemma pad_neq [simp]: "n < 64 \<Longrightarrow> (b64_char n = CHR ''='') = False"
  by (simp add: b64_char_not_pad)

lemma b64_quanta_encode: "b64_quanta (b64_encode s) = Some s"
proof (induction s rule: b64_encode.induct)
  case (2 a)
  then show ?case by (simp only: b64_encode.simps b64_quanta.simps b64_value_char quantum_bounds
        option.case prod.case simp_thms if_True quantum_bytes char_of_char)
next
  case (3 a b)
  then show ?case by (simp only: b64_encode.simps b64_quanta.simps b64_value_char quantum_bounds
        option.case prod.case simp_thms if_True if_False pad_neq quantum_bytes char_of_char)
next
  case (4 a b c s)
  then show ?case by (simp only: b64_encode.simps b64_quanta.simps b64_value_char quantum_bounds
        option.case prod.case simp_thms if_True if_False pad_neq quantum_bytes char_of_char)
qed simp

lemma b64_encode_safe: "list_all b64_safe (b64_encode s)"
proof (induction s rule: b64_encode.induct)
  case (2 a)
  then show ?case using b64_char_safe quantum_bounds by (simp add: b64_safe_def)
next
  case (3 a b)
  then show ?case using b64_char_safe quantum_bounds by (simp add: b64_safe_def)
next
  case (4 a b c s)
  then show ?case by (simp add: b64_char_safe quantum_bounds)
qed simp

lemma b64_encode_not: "\<not> b64_safe c \<Longrightarrow> c \<notin> set (b64_encode s)"
  using b64_encode_safe [of s] by (auto simp: list_all_iff)

lemma b64_roundtrip: "b64_decode (b64_encode s) = Some s"
proof -
  have "filter (\<lambda>c. code c \<noteq> 10 \<and> code c \<noteq> 13) (b64_encode s) = b64_encode s"
    using b64_encode_safe [of s] by (auto simp: filter_id_conv list_all_iff b64_safe_def)
  then show ?thesis by (simp add: b64_decode_def b64_quanta_encode)
qed

section \<open>Parsing what was built\<close>

lemma last_index_None: "c \<notin> set xs \<Longrightarrow> last_index c xs = None"
  by (induction xs) auto

lemma last_index_append: "c \<notin> set ys \<Longrightarrow> last_index c (xs @ c # ys) = Some (length xs)"
  by (induction xs) (simp_all add: last_index_None)

lemma newline_not_safe [simp]: "\<not> b64_safe newline"
  by (simp add: b64_safe_def)

lemma not_safe [simp]: "\<not> b64_safe CHR ''/''" "\<not> b64_safe CHR ''+''" "\<not> b64_safe CHR ''>''" "\<not> b64_safe CHR ''@''"
  by (simp_all add: b64_safe_def)

text \<open>What a Batch id has to satisfy to be found again: one line, no bracket or slash, a Domain part.\<close>

definition plain_id :: "string \<Rightarrow> string \<Rightarrow> string \<Rightarrow> bool" where
  "plain_id l d mid \<longleftrightarrow>
     mid = l @ ''@'' @ d \<and> l \<noteq> [] \<and> d \<noteq> [] \<and> CHR ''@'' \<notin> set d \<and> newline \<notin> set mid \<and>
     CHR ''/'' \<notin> set mid \<and> CHR ''>'' \<notin> set mid"

lemma extract_domain: "plain_id l d mid \<Longrightarrow> ExtractDomainFromMessageID mid = Some d"
proof -
  assume p: "plain_id l d mid"
  have nl: "newline \<notin> set mid" using p unfolding plain_id_def by (elim conjE)
  have mid: "mid = l @ CHR ''@'' # d" and l: "l \<noteq> []" and d: "d \<noteq> []" "CHR ''@'' \<notin> set d"
    using p by (simp_all add: plain_id_def)
  have "butlast mid = l @ CHR ''@'' # butlast d" using d(1) by (simp add: mid butlast_append)
  moreover have "CHR ''@'' \<notin> set (butlast d)" using d(2) in_set_butlastD by fastforce
  ultimately have "last_index CHR ''@'' (butlast mid) = Some (length l)" by (simp add: last_index_append)
  then have "line_domain mid = Some d" using l by (cases l) (simp_all add: line_domain_def mid)
  then show ?thesis using nl by (simp add: ExtractDomainFromMessageID_def split_char_no_sep)
qed

lemma line_msgid_built:
  assumes "e \<noteq> []" and "mid \<noteq> []" and "CHR ''/'' \<notin> set mid" and "CHR ''>'' \<notin> set mid" and "CHR ''>'' \<notin> set e"
  shows "line_msgid (e @ ''/'' @ mid @ ''>'') = Some mid"
proof -
  let ?l = "(e @ CHR ''/'' # mid) @ CHR ''>'' # []"
  have "last_index CHR ''>'' ?l = Some (length (e @ CHR ''/'' # mid))"
    by (rule last_index_append) simp
  moreover have "take (length (e @ CHR ''/'' # mid) - 1) ?l = e @ CHR ''/'' # butlast mid"
    using assms(2) by (simp add: butlast_conv_take take_Cons')
  moreover have "last_index CHR ''/'' (e @ CHR ''/'' # butlast mid) = Some (length e)"
    using assms(3) by (intro last_index_append) (auto dest: in_set_butlastD)
  moreover have "1 \<le> length e" using assms(1) by (cases e) simp_all
  ultimately show ?thesis by (simp add: line_msgid_def)
qed

lemma b64_encode_nonempty: "s \<noteq> [] \<Longrightarrow> b64_encode s \<noteq> []"
  by (cases s rule: b64_encode.cases) simp_all

lemma find_msgid_built:
  assumes "plain_id l d mid" and "to \<noteq> []"
  shows "find_msgid (buildEmailID to mid) = Some mid"
proof -
  have p: "mid \<noteq> []" "CHR ''/'' \<notin> set mid" "CHR ''>'' \<notin> set mid" "newline \<notin> set mid"
    using assms(1) by (auto simp: plain_id_def)
  have line: "takeWhile (\<lambda>x. x \<noteq> newline) (b64_encode to @ ''/'' @ mid @ ''>'') = b64_encode to @ ''/'' @ mid @ ''>''"
    using p(4) b64_encode_not [OF newline_not_safe, of to]
    by (intro takeWhile_eq_all_conv [THEN iffD2]) auto
  have "line_msgid (b64_encode to @ ''/'' @ mid @ ''>'') = Some mid"
    using p b64_encode_not [of "CHR ''>''" to] b64_encode_nonempty [OF assms(2)]
    by (intro line_msgid_built) simp_all
  then have "find_msgid (CHR ''<'' # (b64_encode to @ ''/'' @ mid @ ''>'')) = Some mid"
    using line by (subst find_msgid.simps) simp
  then show ?thesis by (simp add: buildEmailID_def)
qed

lemma find_bump_built:
  assumes "newline \<notin> set mid"
  shows "find_bump (buildReturnPath to mid) = Some (b64_encode to, mid)"
proof -
  let ?rest = "b64_encode to @ CHR ''+'' # mid"
  have s: "buildReturnPath to mid = ''bump_'' @ ?rest" by (simp add: buildReturnPath_def)
  have np: "CHR ''+'' \<notin> set (b64_encode to)" by (rule b64_encode_not) simp
  have "takeWhile (\<lambda>x. x \<noteq> CHR ''+'') ?rest = b64_encode to" "tl (dropWhile (\<lambda>x. x \<noteq> CHR ''+'') ?rest) = mid"
    using np by (subst takeWhile_append2 dropWhile_append2; auto)+
  moreover have "takeWhile (\<lambda>x. x \<noteq> newline) mid = mid"
    using assms by (intro takeWhile_eq_all_conv [THEN iffD2]) auto
  ultimately show ?thesis
    unfolding s by (simp add: has_prefix_def Let_def)
qed

lemma alnum_id:
  assumes "list_all isAllowed cuid" and "canonical d"
  shows "plain_id (IDPrefix @ cuid) d (NewID cuid d)"
proof -
  have no: "c \<notin> set cuid \<and> c \<notin> set d" if "\<not> isAllowed c" for c
    using that assms by (auto simp: list_all_iff canonical_def)
  have "\<not> isAllowed newline" "\<not> isAllowed CHR ''>''" by (simp_all add: isAllowed_code)
  then show ?thesis
    using no [of newline] no [of "CHR ''>''"] no [of "CHR ''/''"] no [of "CHR ''@''"] not_isAllowed assms(2)
    by (simp add: plain_id_def NewID_def IDPrefix_def canonical_def)
qed

lemma built_identifiers:
  assumes "list_all isAllowed c" and "canonical x" and "t \<noteq> []"
  shows "ExtractMsgIDAndDomainFromEmailID (buildEmailID t (NewID c x)) = Some (NewID c x, x)"
    and "ParseBounceReturnPath (buildReturnPath t (NewID c x)) = BouncePath t (NewID c x) x"
proof -
  note p = alnum_id [OF assms(1,2)]
  show "ExtractMsgIDAndDomainFromEmailID (buildEmailID t (NewID c x)) = Some (NewID c x, x)"
    by (simp add: ExtractMsgIDAndDomainFromEmailID_def find_msgid_built [OF p assms(3)] extract_domain [OF p])
  have "newline \<notin> set (NewID c x)" using p unfolding plain_id_def by (elim conjE)
  then show "ParseBounceReturnPath (buildReturnPath t (NewID c x)) = BouncePath t (NewID c x) x"
    by (simp add: ParseBounceReturnPath_def find_bump_built b64_roundtrip extract_domain [OF p])
qed

text \<open>
  C36. An Envelope's identifiers lead back to its Delivery.  For a non-empty address, whatever its bytes,
  and the identifier of a Batch (generated part of lower-case letters, digits, hyphen, dot or underscore,
  canonical Domain): the Message-ID built for an Envelope parses back to the Batch id and its Domain, the
  Return-Path parses back to the address, the Batch id and the Domain, and two Deliveries share one of
  the two only when they share Batch and address.
\<close>

theorem identifiers_roundtrip:
  assumes "list_all isAllowed cuid" and "canonical d" and "to \<noteq> []"
    and "list_all isAllowed cuid'" and "canonical d'" and "to' \<noteq> []"
  shows "ExtractMsgIDAndDomainFromEmailID (buildEmailID to (NewID cuid d)) = Some (NewID cuid d, d) \<and>
     ParseBounceReturnPath (buildReturnPath to (NewID cuid d)) = BouncePath to (NewID cuid d) d \<and>
     (buildEmailID to (NewID cuid d) = buildEmailID to' (NewID cuid' d') \<longrightarrow>
        to = to' \<and> NewID cuid d = NewID cuid' d') \<and>
     (buildReturnPath to (NewID cuid d) = buildReturnPath to' (NewID cuid' d') \<longrightarrow>
        to = to' \<and> NewID cuid d = NewID cuid' d')"
proof -
  note E = built_identifiers(1) and R = built_identifiers(2)
  have inj: "to = to' \<and> NewID cuid d = NewID cuid' d'"
    if "buildReturnPath to (NewID cuid d) = buildReturnPath to' (NewID cuid' d')"
  proof -
    have "BouncePath to (NewID cuid d) d = BouncePath to' (NewID cuid' d') d'"
      unfolding R [OF assms(1-3), symmetric] R [OF assms(4-6), symmetric] that ..
    then show ?thesis unfolding bounce_path.inject by blast
  qed
  have "to = to' \<and> NewID cuid d = NewID cuid' d'"
    if eq: "buildEmailID to (NewID cuid d) = buildEmailID to' (NewID cuid' d')"
  proof -
    have "Some (NewID cuid d, d) = Some (NewID cuid' d', d')"
      unfolding E [OF assms(1-3), symmetric] E [OF assms(4-6), symmetric] eq ..
    then have m: "NewID cuid d = NewID cuid' d'" unfolding option.inject prod.inject by blast
    then have "b64_encode to = b64_encode to'" using eq by (simp add: buildEmailID_def)
    then show ?thesis using m b64_roundtrip by (metis option.inject)
  qed
  then show ?thesis using E [OF assms(1-3)] R [OF assms(1-3)] inj by blast
qed

lemma identifiers_roundtrip_witness:
  "ParseBounceReturnPath (buildReturnPath ''r+1@x.org'' ''msg_c1@k.dev'') = BouncePath ''r+1@x.org'' ''msg_c1@k.dev'' ''k.dev''"
proof -
  have a: "list_all isAllowed ''c1''" "canonical ''k.dev''" by code_simp+
  have n: "NewID ''c1'' ''k.dev'' = ''msg_c1@k.dev''" by (simp add: NewID_def IDPrefix_def)
  show ?thesis
    using identifiers_roundtrip [OF a, of "''r+1@x.org''", OF _ a, of "''r+1@x.org''"] unfolding n by simp
qed

end
