(* ===== verification/Sender.thy ===== *)
theory Sender
  imports Smtp Dispatcher Messages
begin

text \<open>
  \<open>pkg/smtpsender\<close>: the worker that takes Envelopes off the sending stream, claims each stored message in
  the guard's key/value bucket, transmits it and reports the outcome.  The guard's bucket is a map from
  key to the instant of the claim; an entry is gone once its time to live has passed, as the server
  documents.  The digest in a guard key is the parameter \<open>digest\<close> (the URL-safe base64 of eight bytes of
  a SHA-256).  The state records every transmission started.
\<close>

definition sendGuardTTL :: go_time where "sendGuardTTL = hour_ns"

definition sender_setDefaults :: "nat \<Rightarrow> nat" where
  "sender_setDefaults maxJobs = (if maxJobs = 0 then 10 else maxJobs)"

text \<open>A message as the consumer holds it: the sequence of its metadata, \<open>None\<close> for its error, and its bytes.\<close>

record 'b stored_msg =
  sm_seq :: "nat option"
  sm_data :: 'b

record 'b sender_state =
  sn_world :: "'b world"
  sn_guard :: "string \<rightharpoonup> go_time"
  sn_sends :: "(nat option \<times> Envelope) list"

text \<open>How the calls of one handling turn out, and when it runs; \<open>h_result\<close> is what the relay said.\<close>

record handling =
  h_now :: go_time
  h_wired :: bool
  h_guard :: reply
  h_publish :: reply
  h_result :: "smtpError option"

fun format_uint :: "nat \<Rightarrow> string" where
  "format_uint n = (if n < 10 then [char_of (48 + n)] else format_uint (n div 10) @ [char_of (48 + n mod 10)])"

declare format_uint.simps [simp del]

definition sendKey :: "(string \<Rightarrow> string) \<Rightarrow> 'b stored_msg \<Rightarrow> string \<Rightarrow> string option" where
  "sendKey digest msg emailID =
     (case sm_seq msg of None \<Rightarrow> None | Some n \<Rightarrow> Some (format_uint n @ ''.'' @ digest emailID))"

definition kv_create :: "go_time \<Rightarrow> string \<Rightarrow> (string \<rightharpoonup> go_time) \<Rightarrow> (unit + bool) \<times> (string \<rightharpoonup> go_time)" where
  "kv_create now k g =
     (if (case g k of None \<Rightarrow> False | Some t \<Rightarrow> now < t + sendGuardTTL) then (Inr False, g)
      else (Inr True, g(k \<mapsto> now)))"

definition kvSendGuard_Claim ::
  "reply \<Rightarrow> go_time \<Rightarrow> string \<Rightarrow> (string \<rightharpoonup> go_time) \<Rightarrow> (unit + bool) \<times> (string \<rightharpoonup> go_time)" where
  "kvSendGuard_Claim a now k g = remote a () (kv_create now k) g"

definition claimSend ::
  "(string \<Rightarrow> string) \<Rightarrow> handling \<Rightarrow> 'b stored_msg \<Rightarrow> Envelope \<Rightarrow> 'b sender_state \<Rightarrow> bool \<times> 'b sender_state" where
  "claimSend digest h msg env s =
     (if \<not> h_wired h then (True, s)
      else case sendKey digest msg (en_email_id env) of
        None \<Rightarrow> (True, s)
      | Some key \<Rightarrow>
          (case kvSendGuard_Claim (h_guard h) (h_now h) key (sn_guard s) of
             (Inl _, g) \<Rightarrow> (True, s\<lparr>sn_guard := g\<rparr>)
           | (Inr claimed, g) \<Rightarrow> (claimed, s\<lparr>sn_guard := g\<rparr>)))"

definition sender_event :: "go_time \<Rightarrow> string \<Rightarrow> string \<Rightarrow> Envelope \<Rightarrow> StatOutcome \<Rightarrow> Event" where
  "sender_event now msgID dmn env oc =
     \<lparr>ev_message = msgID, ev_domain = dmn, ev_email = en_to env, ev_time = now, ev_outcome = oc,
      ev_mode = ModeUnspecified\<rparr>"

definition publish_from ::
  "'b codec \<Rightarrow> handling \<Rightarrow> Event \<Rightarrow> 'b sender_state \<Rightarrow> (worker_error + unit) \<times> 'b sender_state" where
  "publish_from cd h e s =
     (case PublishStat cd (h_publish h) e (sn_world s) of (r, w) \<Rightarrow> (r, s\<lparr>sn_world := w\<rparr>))"

definition handleSendSuccess ::
  "'b codec \<Rightarrow> handling \<Rightarrow> Envelope \<Rightarrow> 'b sender_state \<Rightarrow> (worker_error + unit) \<times> 'b sender_state" where
  "handleSendSuccess cd h env s =
     (case ExtractMsgIDAndDomainFromEmailID (en_email_id env) of
        None \<Rightarrow> (Inr (), s)
      | Some (msgID, dmn) \<Rightarrow> publish_from cd h (sender_event (h_now h) msgID dmn env Delivered) s)"

definition send_error_outcome :: "smtpError \<Rightarrow> Envelope \<Rightarrow> StatOutcome" where
  "send_error_outcome err env =
     (if \<not> en_should_retry env \<or> se_permanent err then Bounced (se_permanent err) (se_code err) (se_err err)
      else Errored (se_code err) (se_err err))"

definition handleSendError ::
  "'b codec \<Rightarrow> handling \<Rightarrow> smtpError \<Rightarrow> Envelope \<Rightarrow> 'b sender_state \<Rightarrow> (worker_error + unit) \<times> 'b sender_state" where
  "handleSendError cd h err env s =
     (case ExtractMsgIDAndDomainFromEmailID (en_email_id env) of
        None \<Rightarrow> (Inr (), s)
      | Some (msgID, dmn) \<Rightarrow>
          publish_from cd h (sender_event (h_now h) msgID dmn env (send_error_outcome err env)) s)"

definition sender_handleMessage ::
  "(string \<Rightarrow> string) \<Rightarrow> 'b codec \<Rightarrow> handling \<Rightarrow> 'b stored_msg \<Rightarrow> 'b sender_state \<Rightarrow>
     (worker_error + unit) \<times> 'b sender_state" where
  "sender_handleMessage digest cd h msg s =
     (case UnmarshalEnvelope cd (sm_data msg) of
        None \<Rightarrow> (Inl Decode_error, s)
      | Some env \<Rightarrow>
          (case claimSend digest h msg env s of
             (False, s') \<Rightarrow> (Inr (), s')
           | (True, s') \<Rightarrow>
               (let s'' = s'\<lparr>sn_sends := sn_sends s' @ [(sm_seq msg, env)]\<rparr> in
                case h_result h of
                  Some err \<Rightarrow> handleSendError cd h err env s''
                | None \<Rightarrow> handleSendSuccess cd h env s'')))"

definition handleMsgAck :: "(worker_error + unit) \<Rightarrow> disposition" where
  "handleMsgAck err = (case err of Inl _ \<Rightarrow> MsgNak | Inr _ \<Rightarrow> MsgAck)"

definition sender_handle ::
  "(string \<Rightarrow> string) \<Rightarrow> 'b codec \<Rightarrow> handling \<Rightarrow> 'b stored_msg \<Rightarrow> 'b sender_state \<Rightarrow> disposition \<times> 'b sender_state" where
  "sender_handle digest cd h msg s =
     (case sender_handleMessage digest cd h msg s of (err, s') \<Rightarrow> (handleMsgAck err, s'))"

section \<open>Guard keys\<close>

fun parse_uint :: "nat \<Rightarrow> string \<Rightarrow> nat" where
  "parse_uint acc [] = acc"
| "parse_uint acc (c # cs) = parse_uint (10 * acc + (code c - 48)) cs"

lemma parse_uint_append: "parse_uint a (xs @ ys) = parse_uint (parse_uint a xs) ys"
  by (induction xs arbitrary: a) simp_all

lemma parse_format: "parse_uint 0 (format_uint n) = n"
proof (induction n rule: less_induct)
  case (less n)
  show ?case
  proof (cases "n < 10")
    case True
    then show ?thesis by (subst format_uint.simps) simp
  next
    case False
    then have "parse_uint 0 (format_uint (n div 10)) = n div 10" using less by simp
    moreover have "code (char_of (48 + n mod 10) :: char) = 48 + n mod 10"
    proof -
      have "48 + n mod 10 < 256" using mod_less_divisor [of 10 n] by simp
      then show ?thesis by simp
    qed
    ultimately show ?thesis using False by (subst format_uint.simps) (simp add: parse_uint_append)
  qed
qed

lemma format_uint_digits: "c \<in> set (format_uint n) \<Longrightarrow> 48 \<le> code c \<and> code c \<le> 57"
proof (induction n rule: less_induct)
  case (less n)
  have d: "code (char_of (48 + m) :: char) = 48 + m" if "m < 10" for m using that by simp
  show ?case
  proof (cases "n < 10")
    case True
    then have "format_uint n = [char_of (48 + n)]" by (subst format_uint.simps) simp
    then show ?thesis using less.prems d [OF True] True by simp
  next
    case False
    then have "format_uint n = format_uint (n div 10) @ [char_of (48 + n mod 10)]" by (subst format_uint.simps) simp
    then have "c \<in> set (format_uint (n div 10)) \<or> c = char_of (48 + n mod 10)" using less.prems by auto
    then show ?thesis using less.IH [of "n div 10"] False d [of "n mod 10"] by auto
  qed
qed

lemma guard_key_inject:
  "format_uint m @ ''.'' @ x = format_uint n @ ''.'' @ y \<Longrightarrow> m = n \<and> x = y"
proof -
  assume e: "format_uint m @ ''.'' @ x = format_uint n @ ''.'' @ y"
  have no: "CHR ''.'' \<notin> set (format_uint k)" for k using format_uint_digits [of "CHR ''.''" k] by auto
  have "cut_char CHR ''.'' (format_uint m @ CHR ''.'' # x) = cut_char CHR ''.'' (format_uint n @ CHR ''.'' # y)"
    using e by simp
  then have "format_uint m = format_uint n \<and> x = y" using no by (simp add: cut_char_append)
  then show ?thesis using parse_format by metis
qed

section \<open>One transmission per stored message\<close>

text \<open>Handlings of decodable messages, with the guard wired and answering, within its memory of each other.\<close>

definition guarded :: "'b codec \<Rightarrow> go_time \<Rightarrow> handling \<times> 'b stored_msg \<Rightarrow> bool" where
  "guarded cd t0 hm \<longleftrightarrow>
     (case hm of (h, msg) \<Rightarrow>
        h_wired h \<and> h_guard h = Answered \<and> t0 \<le> h_now h \<and> h_now h < t0 + sendGuardTTL \<and>
        sm_seq msg \<noteq> None \<and> UnmarshalEnvelope cd (sm_data msg) \<noteq> None)"

text \<open>A sequence number of the stream names one message.\<close>

definition stream_of :: "('h \<times> 'b stored_msg) list \<Rightarrow> bool" where
  "stream_of hms \<longleftrightarrow> (\<forall>(h, m)\<in>set hms. \<forall>(h', m')\<in>set hms. sm_seq m = sm_seq m' \<longrightarrow> m = m')"

definition handle_all ::
  "(string \<Rightarrow> string) \<Rightarrow> 'b codec \<Rightarrow> (handling \<times> 'b stored_msg) list \<Rightarrow> 'b sender_state \<Rightarrow> 'b sender_state" where
  "handle_all digest cd hms s = fold (\<lambda>(h, m) s. snd (sender_handle digest cd h m s)) hms s"

definition msg_key :: "(string \<Rightarrow> string) \<Rightarrow> nat option \<times> Envelope \<Rightarrow> string" where
  "msg_key digest p = format_uint (the (fst p)) @ ''.'' @ digest (en_email_id (snd p))"

lemma publish_from_frame:
  "sn_guard (snd (publish_from cd h e s)) = sn_guard s" "sn_sends (snd (publish_from cd h e s)) = sn_sends s"
  by (simp_all add: publish_from_def split: prod.split)

lemma report_frame:
  "sn_guard (snd (handleSendSuccess cd h env s)) = sn_guard s" "sn_sends (snd (handleSendSuccess cd h env s)) = sn_sends s"
  "sn_guard (snd (handleSendError cd h err env s)) = sn_guard s" "sn_sends (snd (handleSendError cd h err env s)) = sn_sends s"
  by (simp_all add: handleSendSuccess_def handleSendError_def publish_from_frame split: option.split prod.split)

lemma handle_claimed:
  assumes "UnmarshalEnvelope cd (sm_data m) = Some env" and "claimSend digest h m env s = (True, s')"
  shows "sn_guard (snd (sender_handle digest cd h m s)) = sn_guard s'"
    and "sn_sends (snd (sender_handle digest cd h m s)) = sn_sends s' @ [(sm_seq m, env)]"
  using assms
  by (cases "h_result h"; simp add: sender_handle_def sender_handleMessage_def report_frame split_beta)+

lemma handle_unclaimed:
  assumes "UnmarshalEnvelope cd (sm_data m) = Some env" and "claimSend digest h m env s = (False, s')"
  shows "sender_handle digest cd h m s = (MsgAck, s')"
  using assms by (simp add: sender_handle_def sender_handleMessage_def handleMsgAck_def)

text \<open>What a guarded handling does to the guard and to the transmissions.\<close>

lemma guarded_step:
  assumes "guarded cd t0 (h, m)" and "UnmarshalEnvelope cd (sm_data m) = Some env"
    and "\<forall>k t. sn_guard s k = Some t \<longrightarrow> t0 \<le> t"
  shows "sn_sends (snd (sender_handle digest cd h m s)) =
       sn_sends s @ (if sn_guard s (msg_key digest (sm_seq m, env)) = None then [(sm_seq m, env)] else [])"
    and "sn_guard (snd (sender_handle digest cd h m s)) =
       (if sn_guard s (msg_key digest (sm_seq m, env)) = None
        then (sn_guard s)(msg_key digest (sm_seq m, env) \<mapsto> h_now h) else sn_guard s)"
proof -
  obtain n where n: "sm_seq m = Some n" using assms(1) by (auto simp: guarded_def)
  let ?k = "msg_key digest (sm_seq m, env)"
  have fresh: "h_now h < t + sendGuardTTL" if "sn_guard s ?k = Some t" for t
    using assms(1,3) that by (fastforce simp: guarded_def)
  have key: "sendKey digest m (en_email_id env) = Some ?k" by (simp add: sendKey_def n msg_key_def)
  have claim: "claimSend digest h m env s =
      (if sn_guard s ?k = None then (True, s\<lparr>sn_guard := (sn_guard s)(?k \<mapsto> h_now h)\<rparr>) else (False, s))"
    using assms(1) fresh
    by (cases "sn_guard s ?k") (simp_all add: claimSend_def key kvSendGuard_Claim_def kv_create_def guarded_def)
  have "sn_sends (snd (sender_handle digest cd h m s)) = sn_sends s @ (if sn_guard s ?k = None then [(sm_seq m, env)] else []) \<and>
    sn_guard (snd (sender_handle digest cd h m s)) = (if sn_guard s ?k = None then (sn_guard s)(?k \<mapsto> h_now h) else sn_guard s)"
  proof (cases "sn_guard s ?k = None")
    case True
    then have c: "claimSend digest h m env s = (True, s\<lparr>sn_guard := (sn_guard s)(?k \<mapsto> h_now h)\<rparr>)" using claim by simp
    show ?thesis unfolding handle_claimed [OF assms(2) c] using True by simp
  next
    case False
    then have c: "claimSend digest h m env s = (False, s)" using claim by simp
    show ?thesis unfolding handle_unclaimed [OF assms(2) c] using False by simp
  qed
  then show "sn_sends (snd (sender_handle digest cd h m s)) = sn_sends s @ (if sn_guard s ?k = None then [(sm_seq m, env)] else [])"
    "sn_guard (snd (sender_handle digest cd h m s)) = (if sn_guard s ?k = None then (sn_guard s)(?k \<mapsto> h_now h) else sn_guard s)"
    by (rule conjunct1, rule conjunct2)
qed

text \<open>The transmissions a list of handlings calls for: one per stored message.\<close>

definition wanted :: "'b codec \<Rightarrow> (handling \<times> 'b stored_msg) list \<Rightarrow> (nat option \<times> Envelope) set" where
  "wanted cd hms = (\<lambda>(h, m). (sm_seq m, the (UnmarshalEnvelope cd (sm_data m)))) ` set hms"

definition send_inv ::
  "(string \<Rightarrow> string) \<Rightarrow> 'b codec \<Rightarrow> go_time \<Rightarrow> (handling \<times> 'b stored_msg) list \<Rightarrow> 'b sender_state \<Rightarrow> bool" where
  "send_inv digest cd t0 hms s \<longleftrightarrow>
     distinct (sn_sends s) \<and> set (sn_sends s) = wanted cd hms \<and>
     dom (sn_guard s) = msg_key digest ` set (sn_sends s) \<and> (\<forall>k t. sn_guard s k = Some t \<longrightarrow> t0 \<le> t)"

lemma wanted_seq:
  assumes "stream_of hms" and "p \<in> wanted cd hms" and "q \<in> wanted cd hms" and "fst p = fst q"
  shows "p = q"
  using assms by (fastforce simp: wanted_def stream_of_def)

lemma msg_key_inject:
  assumes "stream_of hms" and "list_all (guarded cd t0) hms" and "p \<in> wanted cd hms" and "q \<in> wanted cd hms"
    and "msg_key digest p = msg_key digest q"
  shows "p = q"
proof -
  have "fst p \<noteq> None" "fst q \<noteq> None"
    using assms(2-4) by (auto simp: wanted_def guarded_def list_all_iff)
  moreover have "the (fst p) = the (fst q)" using guard_key_inject assms(5) unfolding msg_key_def by blast
  ultimately have "fst p = fst q" by (metis option.collapse)
  then show ?thesis using wanted_seq [OF assms(1,3,4)] by blast
qed

lemma stream_of_init: "stream_of (hms @ [hm]) \<Longrightarrow> stream_of hms"
  by (fastforce simp: stream_of_def)

lemma send_inv_all:
  assumes "stream_of hms" and "list_all (guarded cd t0) hms" and "sn_sends s = []" and "sn_guard s = Map.empty"
  shows "send_inv digest cd t0 hms (handle_all digest cd hms s)"
  using assms(1,2)
proof (induction hms rule: rev_induct)
  case Nil
  then show ?case using assms(3,4) by (simp add: send_inv_def wanted_def handle_all_def)
next
  case (snoc hm hms)
  obtain h m where hm: "hm = (h, m)" by (cases hm)
  let ?s = "handle_all digest cd hms s" and ?s' = "handle_all digest cd (hms @ [hm]) s"
  have inv: "send_inv digest cd t0 hms ?s"
    using snoc.IH [OF stream_of_init [OF snoc.prems(1)]] snoc.prems(2) by simp
  have g: "guarded cd t0 (h, m)" using snoc.prems(2) hm by simp
  then obtain env where env: "UnmarshalEnvelope cd (sm_data m) = Some env" and now: "t0 \<le> h_now h"
    by (auto simp: guarded_def)
  let ?p = "(sm_seq m, env)"
  have w: "wanted cd (hms @ [hm]) = insert ?p (wanted cd hms)" using env by (auto simp: wanted_def hm)
  have old: "\<forall>k t. sn_guard ?s k = Some t \<longrightarrow> t0 \<le> t" using inv by (simp add: send_inv_def)
  have s': "?s' = snd (sender_handle digest cd h m ?s)" by (simp add: handle_all_def hm)
  note step = guarded_step [OF g env old, of digest, folded s']
  have "sn_guard ?s (msg_key digest ?p) = None \<longleftrightarrow> ?p \<notin> set (sn_sends ?s)"
  proof
    assume "sn_guard ?s (msg_key digest ?p) = None"
    then have "msg_key digest ?p \<notin> msg_key digest ` set (sn_sends ?s)" using inv by (auto simp: send_inv_def)
    then show "?p \<notin> set (sn_sends ?s)" by blast
  next
    assume np: "?p \<notin> set (sn_sends ?s)"
    have "msg_key digest ?p \<notin> msg_key digest ` set (sn_sends ?s)"
    proof
      assume "msg_key digest ?p \<in> msg_key digest ` set (sn_sends ?s)"
      then obtain q where q: "q \<in> set (sn_sends ?s)" "msg_key digest ?p = msg_key digest q" by blast
      have "q \<in> wanted cd (hms @ [hm])" "?p \<in> wanted cd (hms @ [hm])" using q(1) inv by (auto simp: w send_inv_def)
      then show False using msg_key_inject [OF snoc.prems] q np by blast
    qed
    then show "sn_guard ?s (msg_key digest ?p) = None" using inv unfolding send_inv_def by blast
  qed
  then show ?case
    using inv step now unfolding send_inv_def w by (cases "?p \<in> set (sn_sends ?s)") auto
qed

text \<open>
  C5. The guard makes a redelivery harmless.  Over any list of handlings of messages of the stream, by any
  workers and in any order, none of them further apart than the hour a claim is remembered, with the
  bucket answering, and whatever the relays and the stats stream do: each stored message is transmitted
  exactly once, however often it is delivered, and no message keeps another from being transmitted,
  whatever the digest does; the transmission is that of the Envelope the message holds.
\<close>

theorem one_transmission_per_message:
  assumes "stream_of hms" and "\<forall>hm\<in>set hms. guarded cd t0 hm" and "sn_sends s = []" and "sn_guard s = Map.empty"
  shows "distinct (map fst (sn_sends (handle_all digest cd hms s))) \<and>
     fst ` set (sn_sends (handle_all digest cd hms s)) = (\<lambda>(h, m). sm_seq m) ` set hms \<and>
     (\<forall>(h, m)\<in>set hms. \<forall>env. (sm_seq m, env) \<in> set (sn_sends (handle_all digest cd hms s)) \<longrightarrow>
        UnmarshalEnvelope cd (sm_data m) = Some env)"
proof -
  let ?sends = "sn_sends (handle_all digest cd hms s)"
  have la: "list_all (guarded cd t0) hms" using assms(2) by (simp add: list_all_iff)
  have inv: "distinct ?sends" "set ?sends = wanted cd hms"
    using send_inv_all [OF assms(1) la assms(3,4), of digest] by (simp_all add: send_inv_def)
  have "inj_on fst (set ?sends)" unfolding inv(2) by (rule inj_onI) (rule wanted_seq [OF assms(1)])
  then have "distinct (map fst ?sends)" using inv(1) by (simp add: distinct_map)
  moreover have "fst ` set ?sends = (\<lambda>(h, m). sm_seq m) ` set hms"
    unfolding inv(2) wanted_def image_image by (rule image_cong) auto
  moreover have "UnmarshalEnvelope cd (sm_data m) = Some env" if "(h, m) \<in> set hms" "(sm_seq m, env) \<in> set ?sends" for h m env
  proof -
    have "(sm_seq m, the (UnmarshalEnvelope cd (sm_data m))) \<in> wanted cd hms"
      unfolding wanted_def using that(1) by (rule rev_image_eqI) simp
    then have "env = the (UnmarshalEnvelope cd (sm_data m))"
      using wanted_seq [OF assms(1)] that(2) inv(2) by fastforce
    then show ?thesis using assms(2) that(1) by (auto simp: guarded_def)
  qed
  ultimately show ?thesis by blast
qed

text \<open>An example stream of one message, delivered twice.\<close>

definition example_envelope :: "bool \<Rightarrow> Envelope" where
  "example_envelope retry =
     \<lparr>en_email_id = ''<ckB4Lm9yZw==/msg_c1@k.dev>'', en_from = ''a@k.dev'', en_to = ''r@x.org'', en_return_path = '''',
      en_body = ''hi'', en_should_retry = retry\<rparr>"

definition example_msg :: "(wire_stats + EmailToSend) stored_msg" where
  "example_msg = \<lparr>sm_seq = Some 41, sm_data = Inr (FromEnvelope (example_envelope True))\<rparr>"

definition example_handling :: "go_time \<Rightarrow> reply \<Rightarrow> smtpError option \<Rightarrow> handling" where
  "example_handling now pub res = \<lparr>h_now = now, h_wired = True, h_guard = Answered, h_publish = pub, h_result = res\<rparr>"

definition idle_sender :: "(wire_stats + EmailToSend) sender_state" where
  "idle_sender = \<lparr>sn_world = example_world, sn_guard = Map.empty, sn_sends = []\<rparr>"

lemma example_decodes: "UnmarshalEnvelope plain_codec (sm_data example_msg) = Some (example_envelope True)"
  by (simp add: example_msg_def plain_codec_def UnmarshalEnvelope_def ToEnvelope_def FromEnvelope_def)

lemma one_transmission_per_message_witness:
  "map fst (sn_sends (handle_all (\<lambda>x. x) plain_codec
     [(example_handling 5 Answered None, example_msg), (example_handling 9 Answered None, example_msg)] idle_sender)) = [Some 41]"
proof -
  let ?hms = "[(example_handling 5 Answered None, example_msg), (example_handling 9 Answered None, example_msg)]"
  have st: "stream_of ?hms" by (simp add: stream_of_def)
  have g: "\<forall>hm\<in>set ?hms. guarded plain_codec 0 hm"
    by (simp add: guarded_def example_decodes) (simp add: example_handling_def example_msg_def sendGuardTTL_def hour_ns_def)
  have e: "sn_sends idle_sender = []" "sn_guard idle_sender = Map.empty" by (simp_all add: idle_sender_def)
  let ?sends = "map fst (sn_sends (handle_all (\<lambda>x. x) plain_codec ?hms idle_sender))"
  have d: "distinct ?sends" and s: "set ?sends = {Some 41}"
    using one_transmission_per_message [OF st g e, of "\<lambda>x. x"] by (simp_all add: example_msg_def)
  have "length ?sends = 1" using distinct_card [OF d] unfolding s by simp
  then show ?thesis using s by (cases ?sends) simp_all
qed

section \<open>What is reported\<close>

definition reported :: "smtpError option \<Rightarrow> Envelope \<Rightarrow> StatOutcome" where
  "reported res env = (case res of None \<Rightarrow> Delivered | Some err \<Rightarrow> send_error_outcome err env)"

lemma built_email_id:
  assumes "list_all isAllowed cuid" and "canonical d" and "to \<noteq> []"
  shows "ExtractMsgIDAndDomainFromEmailID (buildEmailID to (NewID cuid d)) = Some (NewID cuid d, d)"
proof -
  note p = alnum_id [OF assms(1,2)]
  show ?thesis
    by (simp add: ExtractMsgIDAndDomainFromEmailID_def find_msgid_built [OF p assms(3)] extract_domain [OF p])
qed

lemma handle_sent:
  assumes "UnmarshalEnvelope cd (sm_data m) = Some env" and "claimSend digest h m env s = (True, s')"
    and "ExtractMsgIDAndDomainFromEmailID (en_email_id env) = Some (mid, dmn)"
  shows "sender_handle digest cd h m s =
    (case publish_from cd h (sender_event (h_now h) mid dmn env (reported (h_result h) env))
        (s'\<lparr>sn_sends := sn_sends s' @ [(sm_seq m, env)]\<rparr>) of (r, s'') \<Rightarrow> (handleMsgAck r, s''))"
  using assms
  by (cases "h_result h") (simp_all add: sender_handle_def sender_handleMessage_def handleSendSuccess_def
      handleSendError_def reported_def Let_def)



end
