(* ===== verification/Pipeline.thy ===== *)
theory Pipeline
  imports Validator Sender
begin

text \<open>
  The workers together: the Validator, the Dispatcher, the SMTPSender and the feedback between them over
  the two streams and the Pool, as a step relation.  Any worker may take the next step, at any clock, with
  any planner, on any message its stream holds or has held (a stream redelivers), and every call may turn
  out in any of the three ways, except where a theorem says otherwise.
\<close>

record 'b system =
  sy_sender :: "'b sender_state"
  sy_keys :: "key set" \<comment> \<open>the Deliveries scheduled so far\<close>

definition sy_world :: "'b system \<Rightarrow> 'b world" where
  "sy_world y = sn_world (sy_sender y)"

definition with_world :: "'b world \<Rightarrow> 'b system \<Rightarrow> 'b system" where
  "with_world w y = y\<lparr>sy_sender := (sy_sender y)\<lparr>sn_world := w\<rparr>\<rparr>"

lemma with_world_simps [simp]:
  "sy_world (with_world w y) = w" "sy_keys (with_world w y) = sy_keys y"
  "sy_world (y\<lparr>sy_keys := ks\<rparr>) = sy_world y"
  by (simp_all add: sy_world_def with_world_def)

text \<open>The subjects that end a Delivery.\<close>

definition terminal_subjects :: "string set" where
  "terminal_subjects =
     {''kannon.stats.delivered'', ''kannon.stats.bounced'', ''kannon.stats.failed'', ''kannon.stats.rejected''}"

definition ended :: "'b codec \<Rightarrow> 'b world \<Rightarrow> key \<Rightarrow> bool" where
  "ended cd w k \<longleftrightarrow>
     (\<exists>(subj, data)\<in>set (w_stats w). subj \<in> terminal_subjects \<and>
        (case UnmarshalEvent (unmarshal_stats cd) data of None \<Rightarrow> False | Some e \<Rightarrow> (ev_message e, ev_email e) = k))"

text \<open>The one kind of failure that loses a Delivery: a rejection dropped and not told.\<close>

definition tells :: "calls \<Rightarrow> bool" where
  "tells c \<longleftrightarrow> c_drop c \<noteq> LostReply \<and> c_publish c = Answered"

inductive pipeline_step :: "repo \<Rightarrow> 'b codec \<Rightarrow> (string \<Rightarrow> string) \<Rightarrow> 'b system \<Rightarrow> 'b system \<Rightarrow> bool"
  for rp cd digest where
  schedule: "Schedule adm ds (w_pool (sy_world y)) = (Inr (), t) \<Longrightarrow> \<forall>d\<in>set ds. \<exists>p. NewDelivery (repo_oor rp) p = Inr d \<Longrightarrow>
    pipeline_step rp cd digest y ((with_world ((sy_world y)\<lparr>w_pool := t\<rparr>) y)\<lparr>sy_keys := sy_keys y \<union> dl_key ` set ds\<rparr>)"
| validate: "planner_ok sel \<Longrightarrow> \<forall>d. tells (c d) \<Longrightarrow> validator_Cycle rp cd sel now a c (sy_world y) = (res, w') \<Longrightarrow>
    pipeline_step rp cd digest y (with_world w' y)"
| dispatch: "planner_ok sel \<Longrightarrow> DispatchCycle rp cd sel now a c bld (sy_world y) = (res, w') \<Longrightarrow>
    pipeline_step rp cd digest y (with_world w' y)"
| send: "sm_data m \<in> set (w_sending (sy_world y)) \<Longrightarrow> sender_handle digest cd h m (sy_sender y) = (disp, s') \<Longrightarrow>
    pipeline_step rp cd digest y (y\<lparr>sy_sender := s'\<rparr>)"
| delivered: "(delivered_subject, data) \<in> set (w_stats (sy_world y)) \<Longrightarrow>
    handleDelivers rp cd c data (sy_world y) = (disp, w') \<Longrightarrow> pipeline_step rp cd digest y (with_world w' y)"
| bounced: "(bounced_subject, data) \<in> set (w_stats (sy_world y)) \<Longrightarrow>
    handleBounced rp cd c data (sy_world y) = (disp, w') \<Longrightarrow> pipeline_step rp cd digest y (with_world w' y)"
| errored: "(errors_subject, data) \<in> set (w_stats (sy_world y)) \<Longrightarrow>
    handleErrors rp cd now c data (sy_world y) = (disp, w') \<Longrightarrow> pipeline_step rp cd digest y (with_world w' y)"
| reclaim: "planner_ok sel \<Longrightarrow> r \<in> {dispatcher_reclaimer, validator_reclaimer} \<Longrightarrow>
    reclaimer_Loop rp sel now a r (sy_world y) = (res, w') \<Longrightarrow> pipeline_step rp cd digest y (with_world w' y)"
| publish: "w' = (sy_world y)\<lparr>w_stats := w_stats (sy_world y) @ [(subj, data)]\<rparr> \<Longrightarrow>
    pipeline_step rp cd digest y (with_world w' y)"

definition initial_system :: "'b system" where
  "initial_system =
     \<lparr>sy_sender = \<lparr>sn_world = \<lparr>w_pool = empty_pool, w_stats = [], w_sending = []\<rparr>, sn_guard = Map.empty, sn_sends = []\<rparr>,
      sy_keys = {}\<rparr>"

inductive reachable :: "repo \<Rightarrow> 'b codec \<Rightarrow> (string \<Rightarrow> string) \<Rightarrow> 'b system \<Rightarrow> bool" for rp cd digest where
  start: "reachable rp cd digest initial_system"
| step: "reachable rp cd digest y \<Longrightarrow> pipeline_step rp cd digest y y' \<Longrightarrow> reachable rp cd digest y'"

section \<open>Every step accounts for the Deliveries it removes\<close>

definition accounts :: "'b codec \<Rightarrow> 'b world \<Rightarrow> 'b world \<Rightarrow> bool" where
  "accounts cd w w' \<longleftrightarrow>
     pool_inv (w_pool w') \<and> extends w w' \<and>
     (\<forall>k. GetPool k (w_pool w) \<noteq> None \<longrightarrow> GetPool k (w_pool w') \<noteq> None \<or> ended cd w' k)"

lemma ended_extends: "ended cd w k \<Longrightarrow> extends w w' \<Longrightarrow> ended cd w' k"
  unfolding ended_def extends_def by blast

lemma accounts_refl: "pool_inv (w_pool w) \<Longrightarrow> accounts cd w w"
  by (simp add: accounts_def)

text \<open>An event that was published ends its Delivery, when its type does.\<close>

lemma published_ended:
  assumes "codec_ok cd" and "published cd w e" and "stat_subject (ev_outcome e) \<in> terminal_subjects"
    and "k = (ev_message e, ev_email e)"
  shows "ended cd w k"
proof -
  obtain data where d: "MarshalEvent (marshal_stats cd) e = Some data" "(stat_subject (ev_outcome e), data) \<in> set (w_stats w)"
    using assms(2) by (auto simp: published_def split: option.splits)
  then have "UnmarshalEvent (unmarshal_stats cd) data = Some (ToEvent (FromEvent e))"
    using assms(1) by (simp add: codec_ok_def MarshalEvent_def UnmarshalEvent_def)
  then show ?thesis
    unfolding ended_def using d(2) assms(3,4) by (intro bexI [OF _ d(2)]) (simp add: ToEvent_def FromEvent_def)
qed

lemma failed_terminal: "stat_subject (ev_outcome (failed_event now d reason)) \<in> terminal_subjects"
  by (simp add: failed_event_def stat_subject_def terminal_subjects_def)

lemma failed_key: "(ev_message (failed_event now d reason), ev_email (failed_event now d reason)) = dl_key d"
  by (simp add: failed_event_def dl_key_def)

lemma retried_or_failed_ended:
  assumes "codec_ok cd" and "retried_or_failed rp cd (failed_event now (rowToDelivery rp r) reason) kept r w"
  shows "GetPool (row_key r) (w_pool w) \<noteq> None \<or> ended cd w (row_key r)"
proof (cases "GetPool (row_key r) (w_pool w)")
  case None
  then have "published cd w (failed_event now (rowToDelivery rp r) reason)"
    using assms(2) by (simp add: retried_or_failed_def)
  then have "ended cd w (row_key r)"
    by (rule published_ended [OF assms(1) _ failed_terminal]) (simp add: failed_key)
  then show ?thesis ..
qed simp

text \<open>A step on the Pool alone that keeps every row.\<close>

lemma on_pool_accounts:
  assumes "on_pool a f w = (res, w')" and "pool_inv (w_pool w)" and "pool_inv (snd (f (w_pool w)))"
    and "\<And>k. GetPool k (w_pool w) \<noteq> None \<Longrightarrow> GetPool k (snd (f (w_pool w))) \<noteq> None"
  shows "accounts cd w w'"
  using on_pool_effect(1,2) [OF assms(1)] assms(2-4) by (auto simp: accounts_def)

lemma take_rows_keeps:
  assumes "planner_ok sel" and "pool_inv t" and "in_place f" and "\<And>r. in_flight (f r) \<Longrightarrow> row_claimed (f r) \<noteq> None"
  shows "pool_inv (snd (take_rows sel lim P f t))"
    and "GetPool k t \<noteq> None \<Longrightarrow> GetPool k (snd (take_rows sel lim P f t)) \<noteq> None"
proof -
  obtain out t' where tk: "take_rows sel lim P f t = (out, t')" by fastforce
  show "pool_inv (snd (take_rows sel lim P f t))" using take_rows_inv [OF assms(1-3) tk assms(4)] tk by simp
  show "GetPool k t \<noteq> None \<Longrightarrow> GetPool k (snd (take_rows sel lim P f t)) \<noteq> None"
    using take_rows_GetPool [OF assms(1-3) tk, of k] tk by (auto split: option.splits)
qed

lemma ClaimForDispatch_accounts:
  assumes "planner_ok sel" and "pool_inv (w_pool w)" and "ClaimForDispatch rp sel now a n w = (res, w')"
  shows "accounts cd w w'"
proof (rule on_pool_accounts [OF assms(3) [unfolded ClaimForDispatch_def] assms(2)])
  have f: "snd (let (ds, t') = PrepareForSend rp sel now n t in (Inr ds, t')) = snd (sqlPrepareForSend sel now n t)" for t
    by (simp add: PrepareForSend_def split_beta Let_def)
  show "pool_inv (snd (let (ds, t') = PrepareForSend rp sel now n (w_pool w) in (Inr ds, t')))"
    unfolding f sql_take_rows by (rule take_rows_keeps(1) [OF assms(1,2) in_place_ops(2)]) simp
  show "GetPool k (w_pool w) \<noteq> None \<Longrightarrow>
      GetPool k (snd (let (ds, t') = PrepareForSend rp sel now n (w_pool w) in (Inr ds, t'))) \<noteq> None" for k
    unfolding f sql_take_rows by (rule take_rows_keeps(2) [OF assms(1,2) in_place_ops(2)]) simp_all
qed

lemma ClaimForValidation_accounts:
  assumes "planner_ok sel" and "pool_inv (w_pool w)" and "ClaimForValidation rp sel now a n w = (res, w')"
  shows "accounts cd w w'"
proof (rule on_pool_accounts [OF assms(3) [unfolded ClaimForValidation_def] assms(2)])
  have f: "snd (let (ds, t') = PrepareForValidate rp sel now n t in (Inr ds, t')) = snd (sqlPrepareForValidate sel now n t)" for t
    by (simp add: PrepareForValidate_def split_beta Let_def)
  show "pool_inv (snd (let (ds, t') = PrepareForValidate rp sel now n (w_pool w) in (Inr ds, t')))"
    unfolding f sql_take_rows by (rule take_rows_keeps(1) [OF assms(1,2) in_place_ops(2)]) simp
  show "GetPool k (w_pool w) \<noteq> None \<Longrightarrow>
      GetPool k (snd (let (ds, t') = PrepareForValidate rp sel now n (w_pool w) in (Inr ds, t'))) \<noteq> None" for k
    unfolding f sql_take_rows by (rule take_rows_keeps(2) [OF assms(1,2) in_place_ops(2)]) simp_all
qed

lemma DispatchCycle_accounts_for:
  assumes "codec_ok cd" and "planner_ok sel" and "pool_inv (w_pool w)"
    and "DispatchCycle rp cd sel now a c bld w = (res, w')"
  shows "accounts cd w w'"
proof (cases "a = Answered")
  case True
  obtain rs where rs: "pool_inv (w_pool w')" "extends w w'"
    "\<forall>k. k \<notin> row_key ` set rs \<longrightarrow> GetPool k (w_pool w') = GetPool k (w_pool w)"
    "\<forall>r\<in>set rs. row_status r = Sending \<and> row_claimed r = Some now \<and>
      dispatched rp cd now (c (rowToDelivery rp r)) (bld (rowToDelivery rp r)) r w'"
    by (rule dispatch_cycle_page [OF assms(2,3) assms(4) [unfolded True]])
  have "GetPool k (w_pool w') \<noteq> None \<or> ended cd w' k" if "GetPool k (w_pool w) \<noteq> None" for k
  proof (cases "k \<in> row_key ` set rs")
    case True
    then obtain r where r: "r \<in> set rs" "k = row_key r" by blast
    then have "dispatched rp cd now (c (rowToDelivery rp r)) (bld (rowToDelivery rp r)) r w'" using rs(4) by blast
    then show ?thesis
      unfolding dispatched_def Let_def r(2) by (rule retried_or_failed_ended [OF assms(1)])
  next
    case False
    then have "GetPool k (w_pool w') = GetPool k (w_pool w)" using rs(3) by blast
    then show ?thesis using that by simp
  qed
  then show ?thesis using rs(1,2) by (simp add: accounts_def)
next
  case False
  obtain claimed w1 where cl: "ClaimForDispatch rp sel now a dispatchClaimSize w = (claimed, w1)" by fastforce
  have "\<exists>e. claimed = Inl e"
    using cl False by (cases a) (auto simp: ClaimForDispatch_def on_pool_def)
  then have "w' = w1" using assms(4) cl by (auto simp: DispatchCycle_def)
  then show ?thesis using ClaimForDispatch_accounts [OF assms(2,3) cl] by simp
qed

lemma verdict_key: "(ev_message (verdict_event rp now r), ev_email (verdict_event rp now r)) = row_key r"
  using rowToDelivery_key [of rp r] by (simp add: verdict_event_def validation_event_def Let_def dl_key_def)

lemma validator_Cycle_accounts_for:
  assumes "codec_ok cd" and "\<forall>m. marshal_stats cd m \<noteq> None" and "planner_ok sel" and "pool_inv (w_pool w)"
    and "\<forall>d. tells (c d)" and "validator_Cycle rp cd sel now a c w = (res, w')"
  shows "accounts cd w w'"
proof (cases "a = Answered")
  case True
  obtain rs where rs: "pool_inv (w_pool w')" "extends w w'"
    "\<forall>k. k \<notin> row_key ` set rs \<longrightarrow> GetPool k (w_pool w') = GetPool k (w_pool w)"
    "\<forall>r\<in>set rs. row_status r = Validating \<and> validated rp cd now (c (rowToDelivery rp r)) r w'"
    by (rule validator_cycle_page [OF assms(3,4) assms(6) [unfolded True]])
  have "GetPool k (w_pool w') \<noteq> None \<or> ended cd w' k" if "GetPool k (w_pool w) \<noteq> None" for k
  proof (cases "k \<in> row_key ` set rs")
    case True
    then obtain r where r: "r \<in> set rs" "k = row_key r" by blast
    let ?c = "c (rowToDelivery rp r)" and ?e = "verdict_event rp now r"
    have v: "validated rp cd now ?c r w'" using rs(4) r(1) by blast
    have t: "c_publish ?c = Answered" "c_drop ?c \<noteq> LostReply" using assms(5) by (simp_all add: tells_def)
    have m: "MarshalEvent (marshal_stats cd) ?e \<noteq> None" using assms(2) by (simp add: MarshalEvent_def)
    show ?thesis
    proof (cases "validateEmail (row_email r)")
      case (Inl err)
      then have term_sub: "stat_subject (ev_outcome ?e) \<in> terminal_subjects"
        by (simp add: verdict_event_def validateDelivery_row validation_event_def Let_def stat_subject_def terminal_subjects_def)
      have "GetPool (row_key r) (w_pool w') \<noteq> None \<or> published cd w' ?e"
        using v t m Inl by (auto simp: validated_def Let_def)
      then show ?thesis
        using published_ended [OF assms(1) _ term_sub, of w' "row_key r"] verdict_key r(2) by metis
    next
      case (Inr u)
      then show ?thesis using v r(2) by (auto simp: validated_def Let_def)
    qed
  next
    case False
    then have "GetPool k (w_pool w') = GetPool k (w_pool w)" using rs(3) by blast
    then show ?thesis using that by simp
  qed
  then show ?thesis using rs(1,2) by (simp add: accounts_def)
next
  case False
  obtain claimed w1 where cl: "ClaimForValidation rp sel now a validationClaimSize w = (claimed, w1)" by fastforce
  have "\<exists>e. claimed = Inl e"
    using cl False by (cases a) (auto simp: ClaimForValidation_def on_pool_def)
  then have "w' = w1" using assms(6) cl by (auto simp: validator_Cycle_def)
  then show ?thesis using ClaimForValidation_accounts [OF assms(3,4) cl] by simp
qed

lemma sender_handle_world:
  "w_pool (sn_world (snd (sender_handle digest cd h m s))) = w_pool (sn_world s) \<and>
   extends (sn_world s) (sn_world (snd (sender_handle digest cd h m s)))"
proof -
  have pub: "w_pool (sn_world (snd (publish_from cd h e x))) = w_pool (sn_world x) \<and>
      extends (sn_world s) (sn_world (snd (publish_from cd h e x)))" if "sn_world x = sn_world s" for e x
  proof -
    obtain r w where p: "PublishStat cd (h_publish h) e (sn_world x) = (r, w)" by fastforce
    show ?thesis using PublishStat_effect(1,2) [OF p] that p by (simp add: publish_from_def)
  qed
  have claim: "sn_world (snd (claimSend digest h m env s)) = sn_world s" for env
    by (simp add: claimSend_def split: option.split sum.split prod.split)
  show ?thesis
  proof (cases "UnmarshalEnvelope cd (sm_data m)")
    case None
    then show ?thesis by (simp add: sender_handle_def sender_handleMessage_def)
  next
    case (Some env)
    obtain b s' where c: "claimSend digest h m env s = (b, s')" by fastforce
    have w: "sn_world s' = sn_world s" using claim [of env] c by simp
    show ?thesis
    proof (cases b)
      case False
      then show ?thesis using handle_unclaimed [OF Some] c w by simp
    next
      case True
      show ?thesis
        using pub w True c Some
        by (cases "h_result h"; cases "ExtractMsgIDAndDomainFromEmailID (en_email_id env)")
           (simp_all add: sender_handle_def sender_handleMessage_def handleSendError_def handleSendSuccess_def
              Let_def split_beta)
    qed
  qed
qed

text \<open>A handler that decodes the event and ends or hands back the Delivery it names.\<close>

lemma local_step_accounts:
  assumes "local_step k w w'" and "pool_inv (w_pool w)"
    and "GetPool k (w_pool w) \<noteq> None \<Longrightarrow> GetPool k (w_pool w') \<noteq> None \<or> ended cd w' k"
  shows "accounts cd w w'"
  unfolding accounts_def
proof (intro conjI allI impI)
  show "pool_inv (w_pool w')" "extends w w'" using assms(1,2) by (simp_all add: local_step_def)
  fix k' assume "GetPool k' (w_pool w) \<noteq> None"
  then show "GetPool k' (w_pool w') \<noteq> None \<or> ended cd w' k'"
    using assms(3) local_step_other [OF assms(1), of k'] by (cases "k' = k") simp_all
qed

lemma handleWithAck_state: "snd (handleWithAck f w) = snd (f w)"
  by (simp add: handleWithAck_def split: prod.split sum.split)

lemma drop_handler_accounts:
  assumes "pool_inv (w_pool w)" and "(subj, data) \<in> set (w_stats w)" and "subj \<in> terminal_subjects"
    and "w' = snd (handleMsg cd (parsDeliveredFunc rp c) data w)"
  shows "accounts cd w w'"
proof (cases "UnmarshalEvent (unmarshal_stats cd) data")
  case None
  then show ?thesis using accounts_refl [OF assms(1)] assms(4) by (simp add: handleMsg_def handleWithAck_state)
next
  case (Some e)
  let ?k = "(ev_message e, ev_email e)"
  have end0: "ended cd w ?k"
    unfolding ended_def using assms(3) Some by (intro bexI [OF _ assms(2)]) simp
  have w': "w' = snd (parsDeliveredFunc rp c e w)" using assms(4) Some by (simp add: handleMsg_def handleWithAck_state)
  show ?thesis
  proof (cases "Lookup rp (c_lookup c) (ev_message e) (ev_email e) w")
    case (Pair lr lw)
    then have lw: "lw = w" using Lookup_state [of rp "c_lookup c" "ev_message e" "ev_email e" w] by simp
    show ?thesis
    proof (cases lr)
      case (Inl x)
      then show ?thesis using accounts_refl [OF assms(1)] w' Pair lw by (simp add: parsDeliveredFunc_def)
    next
      case (Inr dlv)
      then obtain r where r: "GetPool ?k (w_pool w) = Some r" "dlv = rowToDelivery rp r" using Lookup_Inr Pair by blast
      have k: "dl_key dlv = ?k" using GetPool_Some [OF r(1)] r(2) by simp
      have w2: "w' = snd (claimer_Drop (c_drop c) dlv w)" using w' Pair lw Inr by (simp add: parsDeliveredFunc_def)
      have loc: "local_step ?k w w'" using claimer_local(2) [of dlv w "c_drop c"] k w2 by simp
      then have "ended cd w' ?k" by (intro ended_extends [OF end0]) (simp add: local_step_def)
      then show ?thesis by (intro local_step_accounts [OF loc assms(1)]) simp
    qed
  qed
qed

lemma error_handler_accounts:
  assumes "codec_ok cd" and "pool_inv (w_pool w)" and "w' = snd (handleErrors rp cd now c data w)"
  shows "accounts cd w w'"
proof (cases "UnmarshalEvent (unmarshal_stats cd) data")
  case None
  then show ?thesis
    using accounts_refl [OF assms(2)] assms(3) by (simp add: handleErrors_def handleMsg_def handleWithAck_state)
next
  case (Some e)
  have w': "w' = snd (parseErrorsFunc rp cd now c e w)"
    using assms(3) Some by (simp add: handleErrors_def handleMsg_def handleWithAck_state)
  obtain lr lw where l: "Lookup rp (c_lookup c) (ev_message e) (ev_email e) w = (lr, lw)" by fastforce
  then have lw: "lw = w" using Lookup_state [of rp "c_lookup c" "ev_message e" "ev_email e" w] by simp
  show ?thesis
  proof (cases "outcome_type (ev_outcome e) = TypeError \<and> is_ok lr")
    case False
    then have "w' = w" using w' l lw by (cases lr) (auto simp: parseErrorsFunc_def)
    then show ?thesis using accounts_refl [OF assms(2)] by simp
  next
    case True
    then obtain dlv where dlv: "lr = Inr dlv" by (auto simp: is_ok_iff)
    then obtain r where r: "GetPool (ev_message e, ev_email e) (w_pool w) = Some r" "dlv = rowToDelivery rp r"
      using Lookup_Inr l by blast
    have k: "row_key r = (ev_message e, ev_email e)" using GetPool_Some [OF r(1)] by simp
    obtain res where f: "retryOrFail rp cd now c (rowToDelivery rp r) reasonBudgetSpentSending w = (res, w')"
      using w' True l lw dlv r(2) by (cases "retryOrFail rp cd now c dlv reasonBudgetSpentSending w") (simp add: parseErrorsFunc_def)
    note eff = retryOrFail_effect [OF f, unfolded k, OF r(1)]
    have "GetPool (row_key r) (w_pool w') \<noteq> None \<or> ended cd w' (row_key r)"
      by (rule retried_or_failed_ended [OF assms(1) retryOrFail_effect(2) [OF f]]) (simp add: k r(1))
    then show ?thesis unfolding k by (intro local_step_accounts [OF eff(1) assms(2)]) simp
  qed
qed

lemma reclaim_accounts:
  assumes "planner_ok sel" and "pool_inv (w_pool w)" and "reclaimer_Loop rp sel now a r w = (res, w')"
  shows "accounts cd w w'"
proof -
  obtain rr ww where c: "claimer_ReclaimStranded rp sel now a (rc_in_flight r) (rc_older_than r) reclaimPageSize w = (rr, ww)"
    by fastforce
  have w': "w' = ww" using assms(3) c by (auto simp: reclaimer_Loop_def reclaimer_Cycle_def split: sum.splits)
  let ?f = "ReclaimStranded rp sel now (rc_in_flight r) (rc_older_than r) reclaimPageSize"
  have keep: "pool_inv (snd (?f t)) \<and> (GetPool k t \<noteq> None \<longrightarrow> GetPool k (snd (?f t)) \<noteq> None)" if inv: "pool_inv t" for t k
  proof (cases "reclaimTargets (rc_in_flight r)")
    case None
    then show ?thesis using inv by (simp add: ReclaimStranded_def)
  next
    case (Some tg)
    let ?p = "\<lparr>rp_to = rt_to tg, rp_bump = rt_bump tg, rp_from = rt_from tg,
              rp_stranded = pg_interval (rc_older_than r), rp_max = reclaimPageSize\<rparr>"
    have s: "snd (?f t) = snd (sqlReclaimStranded sel now ?p t)" by (simp add: ReclaimStranded_def Some Let_def split_beta)
    have nf: "\<not> in_flight (q\<lparr>row_status := rt_to tg, row_claimed := None, row_attempts := n\<rparr>)" for q n
      using Some by (auto simp: reclaimTargets_def in_flight_def split: if_splits)
    have to: "\<not> in_flight (q\<lparr>row_status := rp_to ?p, row_claimed := None, row_attempts := n\<rparr>)" for q n
      using nf by simp
    show ?thesis
      unfolding s sql_take_rows
    proof (intro conjI impI)
      show "pool_inv (snd (take_rows sel (rp_max ?p) (stranded now ?p)
          (\<lambda>r. r\<lparr>row_status := rp_to ?p, row_claimed := None, row_attempts := row_attempts r + (if rp_bump ?p then 1 else 0)\<rparr>) t))"
        by (rule take_rows_keeps(1) [OF assms(1) inv in_place_ops(3)]) (use to in blast)
      show "GetPool k (snd (take_rows sel (rp_max ?p) (stranded now ?p)
          (\<lambda>r. r\<lparr>row_status := rp_to ?p, row_claimed := None, row_attempts := row_attempts r + (if rp_bump ?p then 1 else 0)\<rparr>) t)) \<noteq> None"
        if "GetPool k t \<noteq> None"
        by (rule take_rows_keeps(2) [OF assms(1) inv in_place_ops(3) _ that]) (use to in blast)
    qed
  qed
  show ?thesis
    unfolding w' by (rule on_pool_accounts [OF c [unfolded claimer_ReclaimStranded_def] assms(2)])
      (use keep [OF assms(2)] in simp_all)
qed

section \<open>No Delivery is lost\<close>

definition pipeline_inv :: "'b codec \<Rightarrow> 'b system \<Rightarrow> bool" where
  "pipeline_inv cd y \<longleftrightarrow>
     pool_inv (w_pool (sy_world y)) \<and>
     (\<forall>k\<in>sy_keys y. GetPool k (w_pool (sy_world y)) \<noteq> None \<or> ended cd (sy_world y) k)"

lemma accounts_inv:
  assumes "pipeline_inv cd y" and "accounts cd (sy_world y) (sy_world y')" and "sy_keys y' = sy_keys y"
  shows "pipeline_inv cd y'"
  unfolding pipeline_inv_def assms(3)
proof (intro conjI ballI)
  show "pool_inv (w_pool (sy_world y'))" using assms(2) by (simp add: accounts_def)
  fix k assume "k \<in> sy_keys y"
  then consider "GetPool k (w_pool (sy_world y)) \<noteq> None" | "ended cd (sy_world y) k"
    using assms(1) unfolding pipeline_inv_def by blast
  then show "GetPool k (w_pool (sy_world y')) \<noteq> None \<or> ended cd (sy_world y') k"
  proof cases
    case 1
    then show ?thesis using assms(2) unfolding accounts_def by blast
  next
    case 2
    have "extends (sy_world y) (sy_world y')" using assms(2) by (simp add: accounts_def)
    then show ?thesis using ended_extends [OF 2] by blast
  qed
qed

lemma schedule_inv:
  assumes "pipeline_inv cd y" and s: "Schedule adm ds (w_pool (sy_world y)) = (Inr (), t)"
    and "\<forall>d\<in>set ds. \<exists>p. NewDelivery oor p = Inr d"
  shows "pipeline_inv cd ((with_world ((sy_world y)\<lparr>w_pool := t\<rparr>) y)\<lparr>sy_keys := sy_keys y \<union> dl_key ` set ds\<rparr>)"
proof -
  let ?w = "(sy_world y)\<lparr>w_pool := t\<rparr>"
  have inv: "pool_inv (w_pool (sy_world y))" using assms(1) by (simp add: pipeline_inv_def)
  have t: "pool_inv t" using pool_inv_Schedule [OF inv, of adm ds] s by simp
  have kept: "GetPool k t \<noteq> None" if "GetPool k (w_pool (sy_world y)) \<noteq> None" for k
    using Schedule_keeps [OF s] that by blast
  have new: "GetPool (dl_key d) t \<noteq> None" if "d \<in> set ds" for d
    using Schedule_adds [OF s that] by (simp add: dl_key_def)
  have "GetPool k t \<noteq> None \<or> ended cd ?w k" if "k \<in> sy_keys y \<union> dl_key ` set ds" for k
    using that
  proof
    assume "k \<in> sy_keys y"
    then have "GetPool k (w_pool (sy_world y)) \<noteq> None \<or> ended cd (sy_world y) k"
      using assms(1) unfolding pipeline_inv_def by blast
    then show ?thesis using kept ended_extends [of cd "sy_world y" k ?w] by (metis extends_refl(2))
  next
    assume "k \<in> dl_key ` set ds"
    then show ?thesis using new by blast
  qed
  then show ?thesis using t by (simp add: pipeline_inv_def)
qed

lemma step_inv:
  assumes "codec_ok cd" and "\<forall>m. marshal_stats cd m \<noteq> None"
  shows "pipeline_step rp cd digest y y' \<Longrightarrow> pipeline_inv cd y \<Longrightarrow> pipeline_inv cd y'"
proof (induction rule: pipeline_step.induct)
  case (schedule adm ds y t)
  then show ?case by (intro schedule_inv) simp_all
next
  case (validate sel c now a y res w')
  have "pool_inv (w_pool (sy_world y))" using validate.prems by (simp add: pipeline_inv_def)
  from validator_Cycle_accounts_for [OF assms validate.hyps(1) this validate.hyps(2,3)]
  show ?case by (intro accounts_inv [OF validate.prems]) simp_all
next
  case (dispatch sel now a c bld y res w')
  have "pool_inv (w_pool (sy_world y))" using dispatch.prems by (simp add: pipeline_inv_def)
  from DispatchCycle_accounts_for [OF assms(1) dispatch.hyps(1) this dispatch.hyps(2)]
  show ?case by (intro accounts_inv [OF dispatch.prems]) simp_all
next
  case (send m y h disp s')
  have "pool_inv (w_pool (sy_world y))" using send.prems by (simp add: pipeline_inv_def)
  then have "accounts cd (sy_world y) (sn_world s')"
    using sender_handle_world [of digest cd h m "sy_sender y"] send.hyps(2) by (simp add: accounts_def sy_world_def)
  then show ?case by (intro accounts_inv [OF send.prems]) (simp_all add: sy_world_def)
next
  case (delivered data y c disp w')
  have inv: "pool_inv (w_pool (sy_world y))" using delivered.prems by (simp add: pipeline_inv_def)
  have "accounts cd (sy_world y) w'"
    by (rule drop_handler_accounts [where rp = rp and c = c, OF inv delivered.hyps(1)])
       (use delivered.hyps(2) in \<open>simp_all add: delivered_subject_def terminal_subjects_def handleDelivers_def\<close>)
  then show ?case by (intro accounts_inv [OF delivered.prems]) simp_all
next
  case (bounced data y c disp w')
  have inv: "pool_inv (w_pool (sy_world y))" using bounced.prems by (simp add: pipeline_inv_def)
  have same: "parsBouncedFunc rp c = parsDeliveredFunc rp c"
    by (simp add: fun_eq_iff parsBouncedFunc_def parsDeliveredFunc_def)
  have "accounts cd (sy_world y) w'"
    by (rule drop_handler_accounts [where rp = rp and c = c, OF inv bounced.hyps(1)])
       (use bounced.hyps(2) in \<open>simp_all add: bounced_subject_def terminal_subjects_def handleBounced_def same [symmetric]\<close>)
  then show ?case by (intro accounts_inv [OF bounced.prems]) simp_all
next
  case (errored data y now c disp w')
  have inv: "pool_inv (w_pool (sy_world y))" using errored.prems by (simp add: pipeline_inv_def)
  have "accounts cd (sy_world y) w'"
    by (rule error_handler_accounts [where rp = rp and now = now and c = c and data = data, OF assms(1) inv]) (use errored.hyps(2) in simp)
  then show ?case by (intro accounts_inv [OF errored.prems]) simp_all
next
  case (reclaim sel r now a y res w')
  have "pool_inv (w_pool (sy_world y))" using reclaim.prems by (simp add: pipeline_inv_def)
  from reclaim_accounts [OF reclaim.hyps(1) this reclaim.hyps(3)]
  show ?case by (intro accounts_inv [OF reclaim.prems]) simp_all
next
  case (publish w' y subj data)
  have "accounts cd (sy_world y) w'"
    using publish by (simp add: accounts_def extends_def pipeline_inv_def) blast
  then show ?case by (intro accounts_inv [OF publish.prems]) simp_all
qed


text \<open>A system with one Delivery scheduled.\<close>

definition example_dparams :: DeliveryParams where
  "example_dparams =
     \<lparr>dp_batch = ''msg_c@k.dev'', dp_email = ''r@x.org'', dp_fields = None, dp_domain = ''k.dev'',
      dp_scheduled = 0, dp_backoff = None, dp_window = 0, dp_tracking = zero_policy\<rparr>"


section \<open>What a lost outcome costs\<close>

text \<open>
  One round of a Delivery whose outcome never comes back: a dispatch cycle at \<open>now\<close>, everything answered,
  and the reclaim two hours later.
\<close>

definition strand_round ::
  "repo \<Rightarrow> 'b codec \<Rightarrow> (Delivery \<Rightarrow> Envelope option) \<Rightarrow> go_time \<Rightarrow> 'b world \<Rightarrow> 'b world" where
  "strand_round rp cd bld now w =
     snd (reclaimer_Loop rp (\<lambda>n cs. take n cs) (now + 2 * hour_ns) Answered dispatcher_reclaimer
       (snd (DispatchCycle rp cd (\<lambda>n cs. take n cs) now Answered (\<lambda>_. all_answered) bld w)))"

lemma strand_round_row:
  assumes "rows (w_pool w) = [r]" and "row_status r = Scheduled" and "row_scheduled r \<le> now"
    and "\<forall>d. \<exists>env data. bld d = Some env \<and> MarshalEnvelope cd env = Some data"
  shows "rows (w_pool (strand_round rp cd bld now w)) = [r\<lparr>row_attempts := row_attempts r + 1, row_claimed := None\<rparr>] \<and>
     w_stats (strand_round rp cd bld now w) = w_stats w \<and>
     length (w_sending (strand_round rp cd bld now w)) = length (w_sending w) + 1"
proof -
  let ?sel = "\<lambda>n cs. take n cs :: pool_row list" and ?r = "r\<lparr>row_status := Sending, row_claimed := Some now\<rparr>"
  obtain env data where e: "bld (rowToDelivery rp ?r) = Some env" "MarshalEnvelope cd env = Some data" using assms(4) by blast
  define w1 where "w1 = snd (DispatchCycle rp cd ?sel now Answered (\<lambda>_. all_answered) bld w)"
  have c: "ClaimForDispatch rp ?sel now Answered dispatchClaimSize w =
      (Inr [rowToDelivery rp ?r], w\<lparr>w_pool := (w_pool w)\<lparr>rows := [?r]\<rparr>\<rparr>)"
    using assms(1-3)
    by (simp add: ClaimForDispatch_def on_pool_def PrepareForSend_def sqlPrepareForSend_def dispatchClaimSize_def
        update_ids_def Let_def)
  have w1: "w1 = w\<lparr>w_pool := (w_pool w)\<lparr>rows := [?r]\<rparr>, w_sending := w_sending w @ [data]\<rparr>"
    by (simp add: w1_def DispatchCycle_def c dispatchOne_def e SendEmail_def publish_sending_msg_def all_answered_def)
  have "stranded (now + 2 * hour_ns) \<lparr>rp_to = Scheduled, rp_bump = True, rp_from = Sending,
      rp_stranded = pg_interval hour_ns, rp_max = 1000\<rparr> ?r"
    by (simp add: stranded_def pg_interval_def hour_ns_def)
  then have "reclaimer_Loop rp ?sel (now + 2 * hour_ns) Answered dispatcher_reclaimer w1 =
      (Inr (), w1\<lparr>w_pool := (w_pool w)\<lparr>rows := [r\<lparr>row_attempts := row_attempts r + 1, row_claimed := None\<rparr>]\<rparr>\<rparr>)"
    using assms(2)
    by (simp add: reclaimer_Loop_def reclaimer_Cycle_def claimer_ReclaimStranded_def on_pool_def ReclaimStranded_def
        reclaimTargets_def dispatcher_reclaimer_def sendingStrandThreshold_def reclaimPageSize_def
        sqlReclaimStranded_def update_ids_def Let_def w1)
  then show ?thesis unfolding strand_round_def w1_def [symmetric] by (simp add: w1)
qed

text \<open>
  C20. A Delivery whose outcome never comes back is sent for ever.  Alone in the Pool and due, with every call
  answered and the Envelope built and published each time, after any number \<open>n\<close> of rounds of dispatch and
  reclaim it has been published \<open>n\<close> times, has spent \<open>n\<close> more attempts, is scheduled again, and nothing has
  been told: neither the claim, nor the dispatch, nor the reclaim asks whether its Retry Budget is spent.
\<close>

theorem stranded_never_ends:
  assumes "rows (w_pool w) = [r]" and "row_status r = Scheduled" and "row_scheduled r \<le> now"
    and "\<forall>d. \<exists>env data. bld d = Some env \<and> MarshalEnvelope cd env = Some data"
  shows "let w' = fold (\<lambda>i. strand_round rp cd bld (now + int i * 2 * hour_ns)) [0..<Suc n] w in
     rows (w_pool w') = [r\<lparr>row_attempts := row_attempts r + int (Suc n), row_claimed := None\<rparr>] \<and>
     length (w_sending w') = length (w_sending w) + Suc n \<and> w_stats w' = w_stats w"
proof (induction n)
  case 0
  then show ?case using strand_round_row [OF assms, of rp] by (simp add: Let_def)
next
  case (Suc n)
  let ?w = "fold (\<lambda>i. strand_round rp cd bld (now + int i * 2 * hour_ns)) [0..<Suc n] w"
  let ?r = "r\<lparr>row_attempts := row_attempts r + int (Suc n), row_claimed := None\<rparr>"
  have IH: "rows (w_pool ?w) = [?r]" "length (w_sending ?w) = length (w_sending w) + Suc n" "w_stats ?w = w_stats w"
    using Suc by (simp_all only: Let_def)
  have due: "row_scheduled ?r \<le> now + int (Suc n) * 2 * hour_ns" using assms(3) by (simp add: hour_ns_def)
  have "row_status ?r = Scheduled" using assms(2) by simp
  note step = strand_round_row [OF IH(1) this due assms(4), of rp]
  have "fold (\<lambda>i. strand_round rp cd bld (now + int i * 2 * hour_ns)) [0..<Suc (Suc n)] w =
      strand_round rp cd bld (now + int (Suc n) * 2 * hour_ns) ?w" by simp
  then show ?case using step IH(2,3) by (simp only: Let_def) simp
qed

lemma stranded_never_ends_witness:
  "rows (w_pool (fold (\<lambda>i. strand_round example_repo plain_codec (\<lambda>_. Some (example_envelope True)) (int i * 2 * hour_ns))
     [0..<Suc 11] (example_world\<lparr>w_pool := \<lparr>rows = [example_row 1 ''a@x'' Scheduled], next_id = 2\<rparr>\<rparr>))) =
   [(example_row 1 ''a@x'' Scheduled)\<lparr>row_attempts := 12\<rparr>] \<and>
   \<not> CanRetry (rowToDelivery example_repo ((example_row 1 ''a@x'' Scheduled)\<lparr>row_attempts := 12\<rparr>))"
proof -
  let ?r = "example_row 1 ''a@x'' Scheduled"
  let ?w = "example_world\<lparr>w_pool := \<lparr>rows = [?r], next_id = 2\<rparr>\<rparr>"
  have h: "rows (w_pool ?w) = [?r]" "row_status ?r = Scheduled" "row_scheduled ?r \<le> 0" by (simp_all add: example_row_def)
  have b: "\<forall>d :: Delivery. \<exists>env data. Some (example_envelope True) = Some env \<and> MarshalEnvelope plain_codec env = Some data"
    by (simp add: MarshalEnvelope_def plain_codec_def)
  have "\<not> CanRetry (rowToDelivery example_repo (?r\<lparr>row_attempts := 12\<rparr>))" by code_simp
  then show ?thesis
    using stranded_never_ends [OF h b, of example_repo 11] by (simp add: Let_def example_row_def del: upt_Suc)
qed

end
