(* ===== verification/StatsSec.thy ===== *)
theory StatsSec
  imports Messages StatsStore Stream
begin

text \<open>
  \<open>internal/statssec\<close>: the signed tokens of the tracking URLs and the table of signing keys
  (\<open>internal/db/stats.sql.go\<close>).  RSA, PEM and the JWT library are the record \<open>jwt_lib\<close>, of which \<open>jwt_ok\<close>
  states the documented behaviour; the claims as the JSON object a token carries are \<open>claims_json\<close>.
  What one call of the service meets - its clock, the answers of the database, the random source, the row
  an unordered \<open>LIMIT 1\<close> gives - is a \<open>sec_call\<close>.
\<close>

section \<open>Claims\<close>

definition tokenExpirePeriod :: go_time where "tokenExpirePeriod = hour_ns * 24 * 30 * 3"

definition audienceOpen :: string where "audienceOpen = ''stats:open''"
definition audienceLink :: string where "audienceLink = ''stats:link''"
definition audienceLegacy :: string where "audienceLegacy = ''stats''"

record RegisteredClaims =
  rc_audience :: "string list"
  rc_expires :: "go_time option"
  rc_issued :: "go_time option"

record OpenClaims =
  op_message_id :: string
  op_email :: string
  op_mode :: mode
  op_registered :: RegisteredClaims

record LinkClaims =
  lk_message_id :: string
  lk_email :: string
  lk_url :: string
  lk_mode :: mode
  lk_registered :: RegisteredClaims

text \<open>The JSON object: a member that is absent is \<open>None\<close>, and \<open>omitempty\<close> makes an unstated Mode absent.\<close>

record claims_json =
  js_message_id :: "string option"
  js_email :: "string option"
  js_url :: "string option"
  js_mode :: "string option"
  js_registered :: RegisteredClaims

definition member :: "string option \<Rightarrow> string" where
  "member m = (case m of None \<Rightarrow> [] | Some s \<Rightarrow> s)"

definition omit_empty :: "string \<Rightarrow> string option" where
  "omit_empty s = (if s = [] then None else Some s)"

definition open_to_json :: "OpenClaims \<Rightarrow> claims_json" where
  "open_to_json c =
     \<lparr>js_message_id = Some (op_message_id c), js_email = Some (op_email c), js_url = None,
      js_mode = omit_empty (op_mode c), js_registered = op_registered c\<rparr>"

definition link_to_json :: "LinkClaims \<Rightarrow> claims_json" where
  "link_to_json c =
     \<lparr>js_message_id = Some (lk_message_id c), js_email = Some (lk_email c), js_url = Some (lk_url c),
      js_mode = omit_empty (lk_mode c), js_registered = lk_registered c\<rparr>"

definition open_of_json :: "claims_json \<Rightarrow> OpenClaims" where
  "open_of_json j =
     \<lparr>op_message_id = member (js_message_id j), op_email = member (js_email j), op_mode = member (js_mode j),
      op_registered = js_registered j\<rparr>"

definition link_of_json :: "claims_json \<Rightarrow> LinkClaims" where
  "link_of_json j =
     \<lparr>lk_message_id = member (js_message_id j), lk_email = member (js_email j), lk_url = member (js_url j),
      lk_mode = member (js_mode j), lk_registered = js_registered j\<rparr>"

lemma member_omit [simp]: "member (omit_empty s) = s" "member (Some s) = s" "member None = []"
  by (simp_all add: member_def omit_empty_def)

lemma open_json_roundtrip [simp]: "open_of_json (open_to_json c) = c"
  by (simp add: open_of_json_def open_to_json_def)

lemma link_json_roundtrip [simp]: "link_of_json (link_to_json c) = c"
  by (simp add: link_of_json_def link_to_json_def)

section \<open>The libraries\<close>

record token_header =
  hd_alg :: string
  hd_kid :: "string option"

record parser_options =
  po_methods :: "string list"
  po_exp_required :: bool

datatype sec_error =
    ErrNoRows | DbUnavailable | BadKey | NoRandom | NoNamespace | ErrIdentityOutsideNamespace
  | NotSigned | WrongMethod | NoKid | UnknownKid | Unparsable | WrongChannel

record ('priv, 'pub) jwt_lib =
  rsa_generate :: "nat list \<Rightarrow> ('priv \<times> 'pub) option"
  pem_private :: "'priv \<Rightarrow> string option"
  pem_public :: "'pub \<Rightarrow> string option"
  parse_private :: "string \<Rightarrow> 'priv option"
  parse_public :: "string \<Rightarrow> 'pub option"
  numeric_date :: "go_time \<Rightarrow> go_time"
  sign_token :: "'priv \<Rightarrow> token_header \<Rightarrow> claims_json \<Rightarrow> string option"
  read_token :: "string \<Rightarrow> (token_header \<times> claims_json) option"
  signature_ok :: "'pub \<Rightarrow> string \<Rightarrow> bool"
  parse_with_claims ::
    "parser_options \<Rightarrow> (token_header \<Rightarrow> sec_error + 'pub) \<Rightarrow> go_time \<Rightarrow> string \<Rightarrow> claims_json option"

text \<open>What a JSON encoder leaves as it is: well-formed strings, and dates of whole seconds.\<close>

definition json_clean :: "('priv, 'pub) jwt_lib \<Rightarrow> token_header \<Rightarrow> claims_json \<Rightarrow> bool" where
  "json_clean L h j \<longleftrightarrow>
     list_all (\<lambda>m. valid_string (member m)) [js_message_id j, js_email j, js_url j, js_mode j, hd_kid h] \<and>
     (\<forall>e. rc_expires (js_registered j) = Some e \<longrightarrow> numeric_date L e = e) \<and>
     (\<forall>e. rc_issued (js_registered j) = Some e \<longrightarrow> numeric_date L e = e)"

definition pair_ok :: "('priv, 'pub) jwt_lib \<Rightarrow> 'priv \<Rightarrow> 'pub \<Rightarrow> bool" where
  "pair_ok L k p \<longleftrightarrow> (\<forall>h j tok. sign_token L k h j = Some tok \<longrightarrow> signature_ok L p tok)"

text \<open>
  A token reads back as what was signed; a generated pair signs and verifies; PEM text reads back as the
  key; a numeric date drops a fraction of a second; and \<open>ParseWithClaims\<close> succeeds exactly on a token
  whose method is allowed, whose key the callback finds, whose signature that key verifies and whose
  expiry, required or not, has not passed.
\<close>

definition accepted_by ::
  "('priv, 'pub) jwt_lib \<Rightarrow> parser_options \<Rightarrow> (token_header \<Rightarrow> sec_error + 'pub) \<Rightarrow> go_time \<Rightarrow> string \<Rightarrow>
     claims_json \<Rightarrow> bool" where
  "accepted_by L po kf now tok j \<longleftrightarrow>
     (\<exists>h p. read_token L tok = Some (h, j) \<and> hd_alg h \<in> set (po_methods po) \<and> kf h = Inr p \<and>
        signature_ok L p tok \<and>
        (case rc_expires (js_registered j) of None \<Rightarrow> \<not> po_exp_required po | Some e \<Rightarrow> now < e))"

definition parser_ok :: "('priv, 'pub) jwt_lib \<Rightarrow> bool" where
  "parser_ok L \<longleftrightarrow>
     (\<forall>po kf now tok j. parse_with_claims L po kf now tok = Some j \<longleftrightarrow> accepted_by L po kf now tok j)"

definition jwt_ok :: "('priv, 'pub) jwt_lib \<Rightarrow> bool" where
  "jwt_ok L \<longleftrightarrow>
     (\<forall>k h j tok. json_clean L h j \<and> sign_token L k h j = Some tok \<longrightarrow> read_token L tok = Some (h, j)) \<and>
     (\<forall>r k p. rsa_generate L r = Some (k, p) \<longrightarrow> pair_ok L k p) \<and>
     (\<forall>k s. pem_private L k = Some s \<longrightarrow> parse_private L s = Some k) \<and>
     (\<forall>p s. pem_public L p = Some s \<longrightarrow> parse_public L s = Some p) \<and>
     (\<forall>t. numeric_date L t \<le> t \<and> numeric_date L (numeric_date L t) = numeric_date L t) \<and>
     parser_ok L"

section \<open>The table of keys\<close>

record StatsKey =
  sk_id :: string
  sk_private :: string
  sk_public :: string
  sk_created :: go_time
  sk_expires :: go_time

type_synonym key_table = "StatsKey list"

record sec_call =
  cl_now :: go_time
  cl_db_now :: go_time
  cl_read :: bool
  cl_write :: reply
  cl_pick :: "StatsKey list \<Rightarrow> StatsKey option"
  cl_random :: "nat list option"
  cl_id :: string

definition pick_ok :: "sec_call \<Rightarrow> bool" where
  "pick_ok cl \<longleftrightarrow>
     (\<forall>rs. (cl_pick cl rs = None \<longleftrightarrow> rs = []) \<and> (\<forall>r. cl_pick cl rs = Some r \<longrightarrow> r \<in> set rs))"

definition GetValidStatsKeys :: "sec_call \<Rightarrow> go_time \<Rightarrow> key_table \<Rightarrow> sec_error + StatsKey" where
  "GetValidStatsKeys cl ts t =
     (if \<not> cl_read cl then Inl DbUnavailable
      else (case cl_pick cl (filter (\<lambda>r. pg_timestamp ts < sk_expires r) t) of
              None \<Rightarrow> Inl ErrNoRows
            | Some r \<Rightarrow> Inr r))"

definition insert_key :: "StatsKey \<Rightarrow> key_table \<Rightarrow> (sec_error + StatsKey) \<times> key_table" where
  "insert_key r t = (if sk_id r \<in> sk_id ` set t then (Inl DbUnavailable, t) else (Inr r, t @ [r]))"

definition CreateStatsKeys ::
  "sec_call \<Rightarrow> string \<Rightarrow> string \<Rightarrow> string \<Rightarrow> go_time \<Rightarrow> key_table \<Rightarrow> (sec_error + StatsKey) \<times> key_table" where
  "CreateStatsKeys cl i priv pub ex =
     remote (cl_write cl) DbUnavailable
       (insert_key \<lparr>sk_id = i, sk_private = priv, sk_public = pub, sk_created = pg_timestamp (cl_db_now cl),
          sk_expires = pg_timestamp ex\<rparr>)"

definition GetValidPublicStatsKeyByKid :: "bool \<Rightarrow> go_time \<Rightarrow> string \<Rightarrow> key_table \<Rightarrow> string option" where
  "GetValidPublicStatsKeyByKid avail db_now kid t =
     (if \<not> avail then None
      else map_option sk_public (find (\<lambda>r. db_now < sk_expires r \<and> sk_id r = kid) t))"

definition DeleteExpiredStatsKeys :: "go_time \<Rightarrow> key_table \<Rightarrow> nat \<times> key_table" where
  "DeleteExpiredStatsKeys db_now t =
     (length (filter (\<lambda>r. sk_expires r < db_now) t), filter (\<lambda>r. \<not> sk_expires r < db_now) t)"

section \<open>Minting\<close>

text \<open>\<open>utils.NewID\<close>; the argument is what the generator of identifiers gave.\<close>

definition utils_NewID :: "string \<Rightarrow> string \<Rightarrow> string" where
  "utils_NewID prefix cuid = prefix @ ''_'' @ cuid"

definition getExistingSignKeys ::
  "('priv, 'pub) jwt_lib \<Rightarrow> sec_call \<Rightarrow> key_table \<Rightarrow> sec_error + 'priv \<times> 'pub \<times> string" where
  "getExistingSignKeys L cl t =
     bindR (GetValidStatsKeys cl (cl_now cl + tokenExpirePeriod) t) (\<lambda>ks.
       (case parse_private L (sk_private ks) of
          None \<Rightarrow> Inl BadKey
        | Some k \<Rightarrow>
            (case parse_public L (sk_public ks) of
               None \<Rightarrow> Inl BadKey
             | Some p \<Rightarrow> Inr (k, p, sk_id ks))))"

definition generateKeyPair :: "('priv, 'pub) jwt_lib \<Rightarrow> sec_call \<Rightarrow> sec_error + 'priv \<times> 'pub" where
  "generateKeyPair L cl =
     (case cl_random cl of
        None \<Rightarrow> Inl NoRandom
      | Some bs \<Rightarrow> (case rsa_generate L bs of None \<Rightarrow> Inl NoRandom | Some kp \<Rightarrow> Inr kp))"

definition generateNewKeyPairs ::
  "('priv, 'pub) jwt_lib \<Rightarrow> sec_call \<Rightarrow> key_table \<Rightarrow> (sec_error + 'priv \<times> 'pub \<times> string) \<times> key_table" where
  "generateNewKeyPairs L cl t =
     (case generateKeyPair L cl of
        Inl e \<Rightarrow> (Inl e, t)
      | Inr (k, p) \<Rightarrow>
          (case (pem_private L k, pem_public L p) of
             (Some pemPrivate, Some pemPublic) \<Rightarrow>
               (let exp = cl_now cl + 2 * tokenExpirePeriod in
                case CreateStatsKeys cl (utils_NewID ''key'' (cl_id cl)) pemPrivate pemPublic exp t of
                  (Inl e, t') \<Rightarrow> (Inl e, t')
                | (Inr row, t') \<Rightarrow> (Inr (k, p, sk_id row), t'))
           | _ \<Rightarrow> (Inl BadKey, t)))"

definition getSignKeys ::
  "('priv, 'pub) jwt_lib \<Rightarrow> sec_call \<Rightarrow> key_table \<Rightarrow> (sec_error + 'priv \<times> string) \<times> key_table" where
  "getSignKeys L cl t =
     (case getExistingSignKeys L cl t of
        Inl e \<Rightarrow>
          if e \<noteq> ErrNoRows then (Inl e, t)
          else (case generateNewKeyPairs L cl t of
                  (Inl e', t') \<Rightarrow> (Inl e', t')
                | (Inr (k, p, kid), t') \<Rightarrow> (Inr (k, kid), t'))
      | Inr (k, p, kid) \<Rightarrow> (Inr (k, kid), t))"

definition identityUnder :: "unicode \<Rightarrow> mode \<Rightarrow> string \<Rightarrow> string \<Rightarrow> sec_error + string" where
  "identityUnder U m offered messageID =
     (if IdentifiesRecipient m then Inr offered
      else (case ExtractDomainFromMessageID messageID of
              None \<Rightarrow> Inl NoNamespace
            | Some domain \<Rightarrow>
                if \<not> IsolatesRecipient m then Inr (AnonymousIdentity domain)
                else if \<not> IsPseudonym U offered domain then Inl ErrIdentityOutsideNamespace
                else Inr offered))"

definition createJWT :: "('priv, 'pub) jwt_lib \<Rightarrow> claims_json \<Rightarrow> 'priv \<Rightarrow> string \<Rightarrow> sec_error + string" where
  "createJWT L claims k kid =
     (case sign_token L k \<lparr>hd_alg = ''RS512'', hd_kid = Some kid\<rparr> claims of None \<Rightarrow> Inl NotSigned | Some tok \<Rightarrow> Inr tok)"

definition registered :: "('priv, 'pub) jwt_lib \<Rightarrow> string \<Rightarrow> go_time \<Rightarrow> RegisteredClaims" where
  "registered L aud now =
     \<lparr>rc_audience = [aud], rc_expires = Some (numeric_date L (now + tokenExpirePeriod)),
      rc_issued = Some (numeric_date L now)\<rparr>"

definition createOpenToken ::
  "unicode \<Rightarrow> ('priv, 'pub) jwt_lib \<Rightarrow> 'priv \<Rightarrow> string \<Rightarrow> go_time \<Rightarrow> string \<Rightarrow> string \<Rightarrow> mode \<Rightarrow> sec_error + string" where
  "createOpenToken U L k kid now messageID offered m =
     bindR (identityUnder U m offered messageID) (\<lambda>identity.
       createJWT L (open_to_json \<lparr>op_message_id = messageID, op_email = identity, op_mode = m,
         op_registered = registered L audienceOpen now\<rparr>) k kid)"

definition createLinkToken ::
  "unicode \<Rightarrow> ('priv, 'pub) jwt_lib \<Rightarrow> 'priv \<Rightarrow> string \<Rightarrow> go_time \<Rightarrow> string \<Rightarrow> string \<Rightarrow> string \<Rightarrow> mode \<Rightarrow>
     sec_error + string" where
  "createLinkToken U L k kid now messageID offered url m =
     bindR (identityUnder U m offered messageID) (\<lambda>identity.
       createJWT L (link_to_json \<lparr>lk_message_id = messageID, lk_email = identity, lk_url = url, lk_mode = m,
         lk_registered = registered L audienceLink now\<rparr>) k kid)"

definition CreateOpenToken ::
  "unicode \<Rightarrow> ('priv, 'pub) jwt_lib \<Rightarrow> sec_call \<Rightarrow> string \<Rightarrow> string \<Rightarrow> mode \<Rightarrow> key_table \<Rightarrow>
     (sec_error + string) \<times> key_table" where
  "CreateOpenToken U L cl messageID identity m t =
     (case getSignKeys L cl t of
        (Inl e, t') \<Rightarrow> (Inl e, t')
      | (Inr (k, kid), t') \<Rightarrow> (createOpenToken U L k kid (cl_now cl) messageID identity m, t'))"

definition CreateLinkToken ::
  "unicode \<Rightarrow> ('priv, 'pub) jwt_lib \<Rightarrow> sec_call \<Rightarrow> string \<Rightarrow> string \<Rightarrow> string \<Rightarrow> mode \<Rightarrow> key_table \<Rightarrow>
     (sec_error + string) \<times> key_table" where
  "CreateLinkToken U L cl messageID identity url m t =
     (case getSignKeys L cl t of
        (Inl e, t') \<Rightarrow> (Inl e, t')
      | (Inr (k, kid), t') \<Rightarrow> (createLinkToken U L k kid (cl_now cl) messageID identity url m, t'))"

section \<open>Verifying\<close>

definition assertAudience :: "string list \<Rightarrow> mode \<Rightarrow> string \<Rightarrow> sec_error + unit" where
  "assertAudience audience m want =
     (if List.member audience want then Inr ()
      else if m = ModeUnspecified \<and> List.member audience audienceLegacy then Inr ()
      else Inl WrongChannel)"

definition verifyOptions :: parser_options where
  "verifyOptions = \<lparr>po_methods = [''RS512''], po_exp_required = True\<rparr>"

text \<open>\<open>SigningMethodRSA\<close> is the type of these three methods.\<close>

definition rsa_method :: "string \<Rightarrow> bool" where
  "rsa_method a \<longleftrightarrow> a = ''RS256'' \<or> a = ''RS384'' \<or> a = ''RS512''"

definition getVerifyTokenFunc ::
  "('priv, 'pub) jwt_lib \<Rightarrow> bool \<Rightarrow> go_time \<Rightarrow> key_table \<Rightarrow> token_header \<Rightarrow> sec_error + 'pub" where
  "getVerifyTokenFunc L avail db_now t h =
     (if \<not> rsa_method (hd_alg h) then Inl WrongMethod
      else (case hd_kid h of
              None \<Rightarrow> Inl NoKid
            | Some kid \<Rightarrow>
                (case GetValidPublicStatsKeyByKid avail db_now kid t of
                   None \<Rightarrow> Inl UnknownKid
                 | Some pem \<Rightarrow> (case parse_public L pem of None \<Rightarrow> Inl BadKey | Some p \<Rightarrow> Inr p))))"

text \<open>
  \<open>verifyToken\<close> is generic in the type of the claims: \<open>into\<close> reads them from the JSON object, \<open>bound\<close> is
  \<open>boundTo\<close>.
\<close>

definition verifyToken ::
  "('priv, 'pub) jwt_lib \<Rightarrow> bool \<Rightarrow> go_time \<Rightarrow> go_time \<Rightarrow> (claims_json \<Rightarrow> 'c) \<Rightarrow> ('c \<Rightarrow> string list \<times> mode) \<Rightarrow>
     string \<Rightarrow> string \<Rightarrow> key_table \<Rightarrow> sec_error + 'c" where
  "verifyToken L avail db_now now into bound want tok t =
     (case parse_with_claims L verifyOptions (getVerifyTokenFunc L avail db_now t) now tok of
        None \<Rightarrow> Inl Unparsable
      | Some j \<Rightarrow>
          (let claims = into j; (audience, m) = bound claims in
           bindR (assertAudience audience m want) (\<lambda>_. Inr claims)))"

definition open_bound :: "OpenClaims \<Rightarrow> string list \<times> mode" where
  "open_bound c = (rc_audience (op_registered c), op_mode c)"

definition link_bound :: "LinkClaims \<Rightarrow> string list \<times> mode" where
  "link_bound c = (rc_audience (lk_registered c), lk_mode c)"

definition VerifyOpenToken ::
  "('priv, 'pub) jwt_lib \<Rightarrow> bool \<Rightarrow> go_time \<Rightarrow> go_time \<Rightarrow> string \<Rightarrow> key_table \<Rightarrow> sec_error + OpenClaims" where
  "VerifyOpenToken L avail db_now now tok t =
     verifyToken L avail db_now now open_of_json open_bound audienceOpen tok t"

definition VerifyLinkToken ::
  "('priv, 'pub) jwt_lib \<Rightarrow> bool \<Rightarrow> go_time \<Rightarrow> go_time \<Rightarrow> string \<Rightarrow> key_table \<Rightarrow> sec_error + LinkClaims" where
  "VerifyLinkToken L avail db_now now tok t =
     verifyToken L avail db_now now link_of_json link_bound audienceLink tok t"

section \<open>The keys\<close>

definition keys_inv :: "('priv, 'pub) jwt_lib \<Rightarrow> key_table \<Rightarrow> bool" where
  "keys_inv L t \<longleftrightarrow>
     distinct (map sk_id t) \<and>
     (\<forall>r \<in> set t. valid_string (sk_id r) \<and> pg_timestamp (sk_expires r) = sk_expires r \<and>
        (\<exists>k p. parse_private L (sk_private r) = Some k \<and> parse_public L (sk_public r) = Some p \<and> pair_ok L k p))"

text \<open>What happens to the table up to an instant: other calls of the service, and the purge of the worker.\<close>

inductive key_step :: "('priv, 'pub) jwt_lib \<Rightarrow> go_time \<Rightarrow> key_table \<Rightarrow> key_table \<Rightarrow> bool" for L lim where
  sign: "valid_string (utils_NewID ''key'' (cl_id cl)) \<Longrightarrow> key_step L lim t (snd (getSignKeys L cl t))"
| purge: "db_now \<le> lim \<Longrightarrow> key_step L lim t (snd (DeleteExpiredStatsKeys db_now t))"

inductive key_steps :: "('priv, 'pub) jwt_lib \<Rightarrow> go_time \<Rightarrow> key_table \<Rightarrow> key_table \<Rightarrow> bool" for L lim where
  keys_refl: "key_steps L lim t t"
| keys_step: "key_steps L lim t u \<Longrightarrow> key_step L lim u v \<Longrightarrow> key_steps L lim t v"

definition signing_row :: "('priv, 'pub) jwt_lib \<Rightarrow> 'priv \<Rightarrow> StatsKey \<Rightarrow> bool" where
  "signing_row L k r \<longleftrightarrow> parse_private L (sk_private r) = Some k"

lemma jwt_okD:
  assumes "jwt_ok L"
  shows "json_clean L h j \<Longrightarrow> sign_token L k h j = Some tok \<Longrightarrow> read_token L tok = Some (h, j)"
    and "rsa_generate L r = Some (k, p) \<Longrightarrow> pair_ok L k p"
    and "pem_private L k = Some s \<Longrightarrow> parse_private L s = Some k"
    and "pem_public L p = Some s \<Longrightarrow> parse_public L s = Some p"
    and "numeric_date L x \<le> x" and "numeric_date L (numeric_date L x) = numeric_date L x"
proof -
  note c = assms [unfolded jwt_ok_def]
  show "json_clean L h j \<Longrightarrow> sign_token L k h j = Some tok \<Longrightarrow> read_token L tok = Some (h, j)"
    using c [THEN conjunct1] by blast
  show "rsa_generate L r = Some (k, p) \<Longrightarrow> pair_ok L k p"
    using c [THEN conjunct2, THEN conjunct1] by blast
  show "pem_private L k = Some s \<Longrightarrow> parse_private L s = Some k"
    using c [THEN conjunct2, THEN conjunct2, THEN conjunct1] by blast
  show "pem_public L p = Some s \<Longrightarrow> parse_public L s = Some p"
    using c [THEN conjunct2, THEN conjunct2, THEN conjunct2, THEN conjunct1] by blast
  show "numeric_date L x \<le> x" "numeric_date L (numeric_date L x) = numeric_date L x"
    using c [THEN conjunct2, THEN conjunct2, THEN conjunct2, THEN conjunct2, THEN conjunct1] by blast+
qed

lemma parse_with_claims_iff:
  assumes "jwt_ok L"
  shows "parse_with_claims L po kf now tok = Some j \<longleftrightarrow> accepted_by L po kf now tok j"
proof -
  have "parser_ok L"
    by (rule assms [unfolded jwt_ok_def, THEN conjunct2, THEN conjunct2, THEN conjunct2, THEN conjunct2, THEN conjunct2])
  then show ?thesis unfolding parser_ok_def by simp
qed

lemma pg_le: "pg_timestamp x \<le> x" "x < pg_timestamp x + 1000"
  using mult_div_mod_eq [of 1000 x] pos_mod_bound [of 1000 x] pos_mod_sign [of 1000 x]
  unfolding pg_timestamp_def by linarith+

lemma pg_strict:
  assumes "pg_timestamp x < y" and "pg_timestamp y = y"
  shows "x < y"
proof -
  have "x div 1000 < y div 1000" using assms unfolding pg_timestamp_def by linarith
  then have "pg_timestamp x + 1000 \<le> y"
    using assms(2) unfolding pg_timestamp_def by linarith
  then show ?thesis using pg_le(2) [of x] by linarith
qed

lemma pg_idem [simp]: "pg_timestamp (pg_timestamp x) = pg_timestamp x"
  by (simp add: pg_timestamp_def)

text \<open>A key in use was in the table, or is the one row the call added.\<close>

lemma generated_row:
  assumes "jwt_ok L" and "generateNewKeyPairs L cl t = (r, t')"
  obtains "t' = t" "\<And>x. r \<noteq> Inr x"
  | row k p where "t' = t @ [row]" "sk_id row \<notin> sk_id ` set t" "sk_id row = utils_NewID ''key'' (cl_id cl)"
      "parse_private L (sk_private row) = Some k" "parse_public L (sk_public row) = Some p" "pair_ok L k p"
      "sk_expires row = pg_timestamp (cl_now cl + 2 * tokenExpirePeriod)"
      "\<And>k' p' kid. r = Inr (k', p', kid) \<Longrightarrow> k' = k \<and> kid = sk_id row"
proof (cases "generateKeyPair L cl")
  case (Inl e)
  then have "t' = t" "r = Inl e" using assms(2) by (simp_all add: generateNewKeyPairs_def)
  then show ?thesis by (intro that(1)) simp_all
next
  case (Inr kp)
  obtain k p where kp: "kp = (k, p)" by fastforce
  have pair: "pair_ok L k p"
    using Inr jwt_okD(2) [OF assms(1)] by (auto simp: generateKeyPair_def kp split: option.splits)
  show ?thesis
  proof (cases "(pem_private L k, pem_public L p)")
    case (Pair x y)
    show ?thesis
    proof (cases "x = None \<or> y = None")
      case True
      then show ?thesis using assms(2) Inr Pair that(1) by (auto simp: generateNewKeyPairs_def kp split: option.splits)
    next
      case False
      then obtain a b where ab: "pem_private L k = Some a" "pem_public L p = Some b" using Pair by auto
      let ?row = "\<lparr>sk_id = utils_NewID ''key'' (cl_id cl), sk_private = a, sk_public = b,
         sk_created = pg_timestamp (cl_db_now cl), sk_expires = pg_timestamp (cl_now cl + 2 * tokenExpirePeriod)\<rparr>"
      have call: "(r, t') = (case remote (cl_write cl) DbUnavailable (insert_key ?row) t of
            (Inl e, t') \<Rightarrow> (Inl e, t') | (Inr rw, t') \<Rightarrow> (Inr (k, p, sk_id rw), t'))"
        using assms(2) Inr ab by (simp add: generateNewKeyPairs_def kp CreateStatsKeys_def)
      have keys: "parse_private L a = Some k" "parse_public L b = Some p"
        using ab jwt_okD(3,4) [OF assms(1)] by blast+
      show ?thesis
      proof (cases "t' = t")
        case True
        then have "r \<noteq> Inr x" for x
          using call by (cases "cl_write cl") (auto simp: insert_key_def split: if_splits)
        then show ?thesis using True that(1) by blast
      next
        case False
        then have t': "t' = t @ [?row]" "sk_id ?row \<notin> sk_id ` set t"
          using call by (cases "cl_write cl"; simp add: insert_key_def split: if_splits)+
        have "k' = k \<and> kid = sk_id ?row" if "r = Inr (k', p', kid)" for k' p' kid
          using call that by (cases "cl_write cl") (auto simp: insert_key_def split: if_splits)
        then show ?thesis using that(2) [OF t'] keys pair by simp
      qed
    qed
  qed
qed

lemma existing_row:
  assumes "keys_inv L t" and "pick_ok cl" and "getExistingSignKeys L cl t = Inr (k, p, kid)"
  obtains r where "r \<in> set t" "sk_id r = kid" "signing_row L k r" "cl_now cl + tokenExpirePeriod < sk_expires r"
proof -
  obtain r where r: "GetValidStatsKeys cl (cl_now cl + tokenExpirePeriod) t = Inr r"
      "parse_private L (sk_private r) = Some k" "sk_id r = kid"
    using assms(3) by (auto simp: getExistingSignKeys_def bindR_def split: sum.splits option.splits)
  have "cl_pick cl (filter (\<lambda>r. pg_timestamp (cl_now cl + tokenExpirePeriod) < sk_expires r) t) = Some r"
    using r(1) by (auto simp: GetValidStatsKeys_def split: if_splits option.splits)
  then have "r \<in> set (filter (\<lambda>r. pg_timestamp (cl_now cl + tokenExpirePeriod) < sk_expires r) t)"
    using assms(2) unfolding pick_ok_def by blast
  then have "r \<in> set t" and "pg_timestamp (cl_now cl + tokenExpirePeriod) < sk_expires r" by simp_all
  then show ?thesis using that r assms(1) by (auto simp: keys_inv_def signing_row_def intro: pg_strict)
qed

text \<open>Whatever key a call signs with has a row that outlives every token of the call.\<close>

definition covers_token :: "('priv, 'pub) jwt_lib \<Rightarrow> 'priv \<Rightarrow> string \<Rightarrow> go_time \<Rightarrow> StatsKey \<Rightarrow> bool" where
  "covers_token L k kid ex r \<longleftrightarrow> sk_id r = kid \<and> signing_row L k r \<and> ex < sk_expires r"

lemma tokenExpirePeriod_pos: "2000 < tokenExpirePeriod"
  by (simp add: tokenExpirePeriod_def hour_ns_def)

lemma getSignKeys_row:
  assumes "jwt_ok L" and "keys_inv L t" and "pick_ok cl" and "getSignKeys L cl t = (Inr (k, kid), t')"
  obtains r where "r \<in> set t'" "covers_token L k kid (cl_now cl + tokenExpirePeriod) r"
proof (cases "getExistingSignKeys L cl t")
  case (Inr x)
  then obtain p where x: "x = (k, p, kid)" "t' = t" using assms(4) by (cases x) (simp add: getSignKeys_def)
  show ?thesis
    using existing_row [OF assms(2,3) Inr [unfolded x]] that by (auto simp: covers_token_def x)
next
  case (Inl e)
  obtain r where g: "generateNewKeyPairs L cl t = (r, t')" and r: "\<exists>p. r = Inr (k, p, kid)"
    using assms(4) Inl by (cases "generateNewKeyPairs L cl t")
      (auto simp: getSignKeys_def split: if_splits sum.splits prod.splits)
  show ?thesis
  proof (rule generated_row [OF assms(1) g])
    show thesis if "\<And>x. r \<noteq> Inr x" using that r by blast
    fix row k' p'
    assume row: "t' = t @ [row]" "parse_private L (sk_private row) = Some k'"
      "sk_expires row = pg_timestamp (cl_now cl + 2 * tokenExpirePeriod)"
      "\<And>k'' p'' kid. r = Inr (k'', p'', kid) \<Longrightarrow> k'' = k' \<and> kid = sk_id row"
    have "cl_now cl + tokenExpirePeriod < sk_expires row"
      using pg_le(2) [of "cl_now cl + 2 * tokenExpirePeriod"] tokenExpirePeriod_pos
      unfolding row(3) by linarith
    then show thesis using that [of row] row r by (auto simp: covers_token_def signing_row_def)
  qed
qed

lemma getSignKeys_table:
  assumes "jwt_ok L" and "keys_inv L t" and "valid_string (utils_NewID ''key'' (cl_id cl))"
  shows "keys_inv L (snd (getSignKeys L cl t)) \<and> set t \<subseteq> set (snd (getSignKeys L cl t))"
proof -
  obtain r t' where g: "generateNewKeyPairs L cl t = (r, t')" by fastforce
  have "snd (getSignKeys L cl t) = t \<or> snd (getSignKeys L cl t) = t'"
    using g by (auto simp: getSignKeys_def split: sum.splits prod.splits)
  moreover have "keys_inv L t' \<and> set t \<subseteq> set t'"
  proof (rule generated_row [OF assms(1) g])
    show ?thesis if "t' = t" using that assms(2) by simp
    fix row k p
    assume "t' = t @ [row]" "sk_id row \<notin> sk_id ` set t" "sk_id row = utils_NewID ''key'' (cl_id cl)"
      "parse_private L (sk_private row) = Some k" "parse_public L (sk_public row) = Some p" "pair_ok L k p"
      "sk_expires row = pg_timestamp (cl_now cl + 2 * tokenExpirePeriod)"
    then show ?thesis using assms(2,3) by (auto simp: keys_inv_def)
  qed
  ultimately show ?thesis using assms(2) by auto
qed

lemma key_steps_keep:
  assumes "jwt_ok L" and "key_steps L lim t u" and "keys_inv L t" and "r \<in> set t" and "lim \<le> sk_expires r"
  shows "keys_inv L u \<and> r \<in> set u"
  using assms(2-)
proof (induction rule: key_steps.induct)
  case (keys_step t u v)
  then have u: "keys_inv L u" "r \<in> set u" by blast+
  from keys_step.hyps(2) show ?case
  proof cases
    case (sign cl)
    then show ?thesis using getSignKeys_table [OF assms(1) u(1) sign(2)] u(2) by blast
  next
    case (purge db_now)
    then show ?thesis using u keys_step.prems(3) by (auto simp: DeleteExpiredStatsKeys_def keys_inv_def distinct_map_filter)
  qed
qed blast

lemma lookup_row:
  assumes "keys_inv L t" and "r \<in> set t" and "db_now < sk_expires r"
  shows "GetValidPublicStatsKeyByKid True db_now (sk_id r) t = Some (sk_public r)"
proof -
  have "find (\<lambda>q. db_now < sk_expires q \<and> sk_id q = sk_id r) t = Some r"
  proof (cases "find (\<lambda>q. db_now < sk_expires q \<and> sk_id q = sk_id r) t")
    case None
    then show ?thesis using assms(2,3) by (auto simp: find_None_iff)
  next
    case (Some q)
    then have "q \<in> set t" "sk_id q = sk_id r" by (auto simp: find_Some_iff)
    moreover have "inj_on sk_id (set t)" using assms(1) by (simp add: keys_inv_def distinct_map)
    ultimately show ?thesis using Some assms(2) by (auto dest: inj_onD)
  qed
  then show ?thesis by (simp add: GetValidPublicStatsKeyByKid_def)
qed

text \<open>A token of the service is accepted as long as its key and its expiry last, whatever it claims.\<close>

lemma minted_parses:
  assumes "jwt_ok L" and "keys_inv L t" and "r \<in> set t" and "signing_row L k r"
    and "createJWT L j k (sk_id r) = Inr tok"
    and "json_clean L \<lparr>hd_alg = ''RS512'', hd_kid = Some (sk_id r)\<rparr> j"
    and "rc_expires (js_registered j) = Some e" and "db_now < sk_expires r"
  shows "parse_with_claims L verifyOptions (getVerifyTokenFunc L True db_now t) now tok =
     (if now < e then Some j else None)"
proof -
  let ?h = "\<lparr>hd_alg = ''RS512'', hd_kid = Some (sk_id r)\<rparr>" and ?kf = "getVerifyTokenFunc L True db_now t"
  have signed: "sign_token L k ?h j = Some tok" using assms(5) by (simp add: createJWT_def split: option.splits)
  have rd: "read_token L tok = Some (?h, j)" by (rule jwt_okD(1) [OF assms(1,6) signed])
  obtain p where p: "parse_public L (sk_public r) = Some p" "pair_ok L k p"
    using assms(2,3,4) unfolding keys_inv_def signing_row_def by fastforce
  have kf: "?kf ?h = Inr p"
    by (simp add: getVerifyTokenFunc_def rsa_method_def lookup_row [OF assms(2,3,8)] p)
  have "signature_ok L p tok" using p(2) signed unfolding pair_ok_def by blast
  then have "accepted_by L verifyOptions ?kf now tok x \<longleftrightarrow> x = j \<and> now < e" for x
    using rd kf assms(7) unfolding accepted_by_def verifyOptions_def by auto
  then show ?thesis using parse_with_claims_iff [OF assms(1)] by (metis not_Some_eq)
qed

section \<open>The two kinds of claims as one interface\<close>

text \<open>The interface \<open>channelClaims\<close> that \<open>verifyToken\<close> is generic in.\<close>

locale channel_claims =
  fixes to_json :: "'c \<Rightarrow> claims_json"
    and of_json :: "claims_json \<Rightarrow> 'c"
    and bound :: "'c \<Rightarrow> string list \<times> mode"
  assumes of_to: "of_json (to_json c) = c"
    and bound_json: "bound (of_json j) = (rc_audience (js_registered j), member (js_mode j))"
begin

lemma verify_eq:
  "verifyToken L avail db_now now of_json bound want tok t =
     (case parse_with_claims L verifyOptions (getVerifyTokenFunc L avail db_now t) now tok of
        None \<Rightarrow> Inl Unparsable
      | Some j \<Rightarrow> bindR (assertAudience (rc_audience (js_registered j)) (member (js_mode j)) want)
                    (\<lambda>_. Inr (of_json j)))"
  by (simp add: verifyToken_def bound_json Let_def split: option.split)

lemma verified:
  assumes "jwt_ok L" and "verifyToken L avail db_now now of_json bound want tok t = Inr c"
  shows "\<exists>j. c = of_json j \<and> accepted_by L verifyOptions (getVerifyTokenFunc L avail db_now t) now tok j \<and>
     (want \<in> set (rc_audience (js_registered j)) \<or>
      member (js_mode j) = ModeUnspecified \<and> audienceLegacy \<in> set (rc_audience (js_registered j)))"
  using assms(2) unfolding verify_eq
  by (auto simp: parse_with_claims_iff [OF assms(1)] bindR_def assertAudience_def
      split: option.splits sum.splits if_splits)

lemma minted:
  assumes "jwt_ok L" and "keys_inv L t" and "r \<in> set t" and "signing_row L k r"
    and "createJWT L (to_json c) k (sk_id r) = Inr tok"
    and "json_clean L \<lparr>hd_alg = ''RS512'', hd_kid = Some (sk_id r)\<rparr> (to_json c)"
    and "rc_expires (js_registered (to_json c)) = Some e" and "db_now < sk_expires r"
    and "rc_audience (js_registered (to_json c)) = [aud]" and "aud \<noteq> audienceLegacy"
  shows "verifyToken L True db_now now of_json bound want tok t =
     (if now < e then if aud = want then Inr c else Inl WrongChannel else Inl Unparsable)"
  unfolding verify_eq minted_parses [OF assms(1-8)]
  using assms(9,10) by (simp add: of_to assertAudience_def bindR_def)

end

interpretation open_claims: channel_claims open_to_json open_of_json open_bound
  by unfold_locales (rule open_json_roundtrip, simp add: open_bound_def open_of_json_def)

interpretation link_claims: channel_claims link_to_json link_of_json link_bound
  by unfold_locales (rule link_json_roundtrip, simp add: link_bound_def link_of_json_def)

lemma audiences_distinct [simp]:
  "audienceOpen \<noteq> audienceLink" "audienceLink \<noteq> audienceOpen"
  "audienceOpen \<noteq> audienceLegacy" "audienceLink \<noteq> audienceLegacy"
  by (simp_all add: audienceOpen_def audienceLink_def audienceLegacy_def)

text \<open>A token of one channel read through the other one's claims.\<close>

lemma minted_elsewhere:
  assumes "jwt_ok L" and "keys_inv L t" and "r \<in> set t" and "signing_row L k r"
    and "createJWT L j k (sk_id r) = Inr tok"
    and "json_clean L \<lparr>hd_alg = ''RS512'', hd_kid = Some (sk_id r)\<rparr> j"
    and "rc_expires (js_registered j) = Some e" and "db_now < sk_expires r"
    and "rc_audience (js_registered j) = [aud]" and "aud \<noteq> audienceLegacy"
  shows "aud \<noteq> audienceOpen \<Longrightarrow> VerifyOpenToken L True db_now now tok t = Inl (if now < e then WrongChannel else Unparsable)"
    and "aud \<noteq> audienceLink \<Longrightarrow> VerifyLinkToken L True db_now now tok t = Inl (if now < e then WrongChannel else Unparsable)"
  unfolding VerifyOpenToken_def VerifyLinkToken_def open_claims.verify_eq link_claims.verify_eq
    minted_parses [OF assms(1-8)]
  using assms(9,10) by (simp_all add: assertAudience_def bindR_def)

section \<open>Who a token names\<close>

definition token_claims :: "('priv, 'pub) jwt_lib \<Rightarrow> string \<Rightarrow> claims_json option" where
  "token_claims L tok = map_option snd (read_token L tok)"

definition clean_claims :: "string list \<Rightarrow> bool" where
  "clean_claims ss \<longleftrightarrow> list_all valid_string ss"

lemma valid_Nil [simp]: "valid_string []"
  by (simp add: valid_string_def)

lemma valid_RS512: "valid_string ''RS512''"
  by code_simp

lemma json_clean_open:
  assumes "jwt_ok L" and "clean_claims [mid, i, m, kid]"
  shows "json_clean L \<lparr>hd_alg = ''RS512'', hd_kid = Some kid\<rparr>
    (open_to_json \<lparr>op_message_id = mid, op_email = i, op_mode = m, op_registered = registered L aud now\<rparr>)"
  using assms(2) jwt_okD(6) [OF assms(1)]
  by (auto simp: json_clean_def open_to_json_def registered_def clean_claims_def)

lemma json_clean_link:
  assumes "jwt_ok L" and "clean_claims [mid, i, url, m, kid]"
  shows "json_clean L \<lparr>hd_alg = ''RS512'', hd_kid = Some kid\<rparr>
    (link_to_json \<lparr>lk_message_id = mid, lk_email = i, lk_url = url, lk_mode = m, lk_registered = registered L aud now\<rparr>)"
  using assms(2) jwt_okD(6) [OF assms(1)]
  by (auto simp: json_clean_def link_to_json_def registered_def clean_claims_def)

lemma CreateOpenToken_Inr:
  assumes "CreateOpenToken U L cl mid offered m t = (Inr tok, t')"
  obtains k kid i where "getSignKeys L cl t = (Inr (k, kid), t')" "identityUnder U m offered mid = Inr i"
    "createJWT L (open_to_json \<lparr>op_message_id = mid, op_email = i, op_mode = m,
       op_registered = registered L audienceOpen (cl_now cl)\<rparr>) k kid = Inr tok"
  using assms unfolding CreateOpenToken_def createOpenToken_def bindR_def
  by (auto split: prod.splits sum.splits)

lemma CreateLinkToken_Inr:
  assumes "CreateLinkToken U L cl mid offered url m t = (Inr tok, t')"
  obtains k kid i where "getSignKeys L cl t = (Inr (k, kid), t')" "identityUnder U m offered mid = Inr i"
    "createJWT L (link_to_json \<lparr>lk_message_id = mid, lk_email = i, lk_url = url, lk_mode = m,
       lk_registered = registered L audienceLink (cl_now cl)\<rparr>) k kid = Inr tok"
  using assms unfolding CreateLinkToken_def createLinkToken_def bindR_def
  by (auto split: prod.splits sum.splits)

lemma createJWT_read:
  assumes "jwt_ok L" and "createJWT L j k kid = Inr tok"
    and "json_clean L \<lparr>hd_alg = ''RS512'', hd_kid = Some kid\<rparr> j"
  shows "token_claims L tok = Some j"
  using assms(2) jwt_okD(1) [OF assms(1,3)] by (auto simp: createJWT_def token_claims_def split: option.splits)

lemma signing_kid:
  assumes "jwt_ok L" and "keys_inv L t" and "pick_ok cl" and "valid_string (utils_NewID ''key'' (cl_id cl))"
    and "getSignKeys L cl t = (Inr (k, kid), t')"
  shows "keys_inv L t'" and "\<exists>r \<in> set t'. covers_token L k kid (cl_now cl + tokenExpirePeriod) r"
    and "valid_string kid"
proof -
  show inv: "keys_inv L t'" using getSignKeys_table [OF assms(1,2,4)] assms(5) by simp
  obtain r where r: "r \<in> set t'" "covers_token L k kid (cl_now cl + tokenExpirePeriod) r"
    using getSignKeys_row [OF assms(1-3,5)] .
  then show "\<exists>r \<in> set t'. covers_token L k kid (cl_now cl + tokenExpirePeriod) r" by blast
  show "valid_string kid" using inv r by (auto simp: keys_inv_def covers_token_def)
qed

text \<open>The identity decided for a token, by its Mode.\<close>

lemma identityUnder_cases:
  assumes "identityUnder U m offered mid = Inr i"
  shows "IdentifiesRecipient m \<and> i = offered \<or>
     \<not> IsolatesRecipient m \<and> (\<exists>d. ExtractDomainFromMessageID mid = Some d \<and> i = AnonymousIdentity d) \<or>
     IsolatesRecipient m \<and> \<not> IdentifiesRecipient m \<and> i = offered \<and>
       (\<exists>d. ExtractDomainFromMessageID mid = Some d \<and> IsPseudonym U offered d)"
  using assms identifies_isolates [of m] by (auto simp: identityUnder_def split: if_splits option.splits)

lemma identityUnder_anonymous:
  "\<not> IsolatesRecipient m \<Longrightarrow> identityUnder U m a mid = identityUnder U m b mid"
  using identifies_isolates [of m] by (auto simp: identityUnder_def split: option.split)


text \<open>The row a token was signed under is still there and still valid at the token's expiry.\<close>

lemma row_lasts:
  assumes "jwt_ok L" and "key_steps L lim t u" and "keys_inv L t"
    and "\<exists>r \<in> set t. covers_token L k kid (cl_now cl + tokenExpirePeriod) r"
    and "ex = numeric_date L (cl_now cl + tokenExpirePeriod)" and "lim \<le> ex" and "db_now \<le> lim"
  shows "\<exists>r. keys_inv L u \<and> r \<in> set u \<and> db_now < sk_expires r \<and> signing_row L k r \<and> sk_id r = kid"
proof -
  have "lim \<le> cl_now cl + tokenExpirePeriod"
    using assms(5,6) jwt_okD(5) [OF assms(1), of "cl_now cl + tokenExpirePeriod"] by linarith
  moreover obtain r where "r \<in> set t" "covers_token L k kid (cl_now cl + tokenExpirePeriod) r" using assms(4) by blast
  ultimately show ?thesis
    using key_steps_keep [OF assms(1-3), of r] assms(7) by (auto simp: covers_token_def)
qed

lemma minted_open_lasts:
  assumes "jwt_ok L" and "keys_inv L t" and "pick_ok cl" and "valid_string (utils_NewID ''key'' (cl_id cl))"
    and "CreateOpenToken U L cl mid a m t = (Inr tok, t1)" and "identityUnder U m a mid = Inr i"
    and "clean_claims [mid, i, m]" and "key_steps L lim t1 u"
    and "ex = numeric_date L (cl_now cl + tokenExpirePeriod)" and "lim \<le> ex" and "db_now \<le> lim"
  shows "VerifyOpenToken L True db_now now tok u =
       (if now < ex then Inr \<lparr>op_message_id = mid, op_email = i, op_mode = m,
          op_registered = registered L audienceOpen (cl_now cl)\<rparr> else Inl Unparsable) \<and>
     VerifyLinkToken L True db_now now tok u = Inl (if now < ex then WrongChannel else Unparsable)"
proof -
  let ?o = "\<lparr>op_message_id = mid, op_email = i, op_mode = m, op_registered = registered L audienceOpen (cl_now cl)\<rparr>"
  obtain k kid where k: "getSignKeys L cl t = (Inr (k, kid), t1)" and jo: "createJWT L (open_to_json ?o) k kid = Inr tok"
    using CreateOpenToken_Inr [OF assms(5)] assms(6) by (metis Inr_inject)
  note sk = signing_kid [OF assms(1-4) k]
  obtain r where "keys_inv L u" "r \<in> set u" "db_now < sk_expires r" "signing_row L k r" "sk_id r = kid"
    using row_lasts [OF assms(1,8) sk(1,2) assms(9-11)] by blast
  note r = this
  have c: "json_clean L \<lparr>hd_alg = ''RS512'', hd_kid = Some (sk_id r)\<rparr> (open_to_json ?o)"
    using assms(7) sk(3) r(5) by (auto intro!: json_clean_open [OF assms(1)] simp: clean_claims_def)
  have regs: "rc_expires (js_registered (open_to_json ?o)) = Some ex"
    "rc_audience (js_registered (open_to_json ?o)) = [audienceOpen]"
    by (simp_all add: open_to_json_def registered_def assms(9))
  note o = r(1,2,4) jo [folded r(5)] c regs(1) r(3) regs(2)
  show ?thesis
    using open_claims.minted [OF assms(1) o, of now audienceOpen] minted_elsewhere(2) [OF assms(1) o, of now]
    by (simp add: VerifyOpenToken_def)
qed

lemma minted_link_lasts:
  assumes "jwt_ok L" and "keys_inv L t" and "pick_ok cl" and "valid_string (utils_NewID ''key'' (cl_id cl))"
    and "CreateLinkToken U L cl mid b url n t = (Inr tok, t1)" and "identityUnder U n b mid = Inr l"
    and "clean_claims [mid, l, n, url]" and "key_steps L lim t1 u"
    and "ex = numeric_date L (cl_now cl + tokenExpirePeriod)" and "lim \<le> ex" and "db_now \<le> lim"
  shows "VerifyLinkToken L True db_now now tok u =
       (if now < ex then Inr \<lparr>lk_message_id = mid, lk_email = l, lk_url = url, lk_mode = n,
          lk_registered = registered L audienceLink (cl_now cl)\<rparr> else Inl Unparsable) \<and>
     VerifyOpenToken L True db_now now tok u = Inl (if now < ex then WrongChannel else Unparsable)"
proof -
  let ?l = "\<lparr>lk_message_id = mid, lk_email = l, lk_url = url, lk_mode = n,
      lk_registered = registered L audienceLink (cl_now cl)\<rparr>"
  obtain k kid where k: "getSignKeys L cl t = (Inr (k, kid), t1)" and jl: "createJWT L (link_to_json ?l) k kid = Inr tok"
    using CreateLinkToken_Inr [OF assms(5)] assms(6) by (metis Inr_inject)
  note sk = signing_kid [OF assms(1-4) k]
  obtain r where "keys_inv L u" "r \<in> set u" "db_now < sk_expires r" "signing_row L k r" "sk_id r = kid"
    using row_lasts [OF assms(1,8) sk(1,2) assms(9-11)] by blast
  note r = this
  have c: "json_clean L \<lparr>hd_alg = ''RS512'', hd_kid = Some (sk_id r)\<rparr> (link_to_json ?l)"
    using assms(7) sk(3) r(5) by (auto intro!: json_clean_link [OF assms(1)] simp: clean_claims_def)
  have regs: "rc_expires (js_registered (link_to_json ?l)) = Some ex"
    "rc_audience (js_registered (link_to_json ?l)) = [audienceLink]"
    by (simp_all add: link_to_json_def registered_def assms(9))
  note o = r(1,2,4) jl [folded r(5)] c regs(1) r(3) regs(2)
  show ?thesis
    using link_claims.minted [OF assms(1) o, of now audienceLink] minted_elsewhere(1) [OF assms(1) o, of now]
    by (simp add: VerifyLinkToken_def)
qed

lemma CreateLinkToken_table:
  assumes "jwt_ok L" and "keys_inv L t" and "valid_string (utils_NewID ''key'' (cl_id cl))"
    and "CreateLinkToken U L cl mid b url n t = (r, t1)"
  shows "key_step L lim t t1 \<and> keys_inv L t1"
proof -
  have "t1 = snd (getSignKeys L cl t)"
    using assms(4) by (auto simp: CreateLinkToken_def split: prod.splits sum.splits)
  then show ?thesis using key_step.sign [OF assms(3), of L lim t] getSignKeys_table [OF assms(1-3)] by simp
qed

lemma CreateOpenToken_inv:
  assumes "jwt_ok L" and "keys_inv L t" and "valid_string (utils_NewID ''key'' (cl_id cl))"
    and "CreateOpenToken U L cl mid b n t = (r, t1)"
  shows "keys_inv L t1"
proof -
  have "t1 = snd (getSignKeys L cl t)"
    using assms(4) by (auto simp: CreateOpenToken_def split: prod.splits sum.splits)
  then show ?thesis using getSignKeys_table [OF assms(1-3)] by simp
qed

lemma key_steps_trans: "key_steps L lim u v \<Longrightarrow> key_steps L lim t u \<Longrightarrow> key_steps L lim t v"
  by (induction rule: key_steps.induct) (auto intro: key_steps.intros)

text \<open>
  A tracking token is good on its own channel for as long as it claims to be, and on no other.  Mint
  an open and a link token and let the table of keys move on by any number of further mints and purges
  up to the instant of the verification: until its expiry, about three months after it was minted, the
  open token verifies as an open token with exactly the claims it was minted with and the link token as
  a link token, each is refused on the other channel, and from its expiry on it is refused everywhere.
\<close>

theorem token_lifetime:
  assumes "jwt_ok L" and "keys_inv L t" and "pick_ok cl" and "valid_string (utils_NewID ''key'' (cl_id cl))"
    and "CreateOpenToken U L cl mid a m t = (Inr tok, t1)" and "CreateLinkToken U L cl mid b url n t1 = (Inr ltok, t2)"
    and "identityUnder U m a mid = Inr i" and "identityUnder U n b mid = Inr l" and "clean_claims [mid, i, m, l, n, url]"
    and "key_steps L lim t2 u" and "ex = numeric_date L (cl_now cl + tokenExpirePeriod)" and "lim \<le> ex" and "db_now \<le> lim"
  shows "VerifyOpenToken L True db_now now tok u =
       (if now < ex then Inr \<lparr>op_message_id = mid, op_email = i, op_mode = m,
          op_registered = registered L audienceOpen (cl_now cl)\<rparr> else Inl Unparsable) \<and>
     VerifyLinkToken L True db_now now ltok u =
       (if now < ex then Inr \<lparr>lk_message_id = mid, lk_email = l, lk_url = url, lk_mode = n,
          lk_registered = registered L audienceLink (cl_now cl)\<rparr> else Inl Unparsable) \<and>
     VerifyLinkToken L True db_now now tok u = Inl (if now < ex then WrongChannel else Unparsable) \<and>
     VerifyOpenToken L True db_now now ltok u = Inl (if now < ex then WrongChannel else Unparsable)"
proof -
  note c = assms(9)
  have "key_steps L lim t1 u"
    using key_steps_trans [OF assms(10)] key_steps.keys_step [OF key_steps.keys_refl]
      CreateLinkToken_table [OF assms(1) CreateOpenToken_inv [OF assms(1,2,4,5)] assms(4,6)] by blast
  moreover have "clean_claims [mid, i, m]" "clean_claims [mid, l, n, url]" using c by (simp_all add: clean_claims_def)
  ultimately show ?thesis
    using minted_open_lasts [OF assms(1-5,7) _ _ assms(11-13), of u]
      minted_link_lasts [OF assms(1) CreateOpenToken_inv [OF assms(1,2,4,5)] assms(3,4,6,8) _ assms(10-13)] by simp
qed

text \<open>
  C10. What a verified token is worth.  If the tracker accepts a token on a channel, the token was signed
  with RS512 under the key of a row of the table that has not expired, its expiry is stated and still to
  come, and it was minted for that channel; a token of the time before Modes is the one exception, and
  that one states no Mode.  When the database does not answer nothing is accepted.
\<close>

theorem verified_only:
  assumes "jwt_ok L" and "VerifyOpenToken L avail db_now now tok t = Inr c \<or> VerifyLinkToken L avail db_now now tok t = Inr c'"
  shows "avail \<and> (\<exists>h j r p e. read_token L tok = Some (h, j) \<and> hd_alg h = ''RS512'' \<and> r \<in> set t \<and>
     hd_kid h = Some (sk_id r) \<and> db_now < sk_expires r \<and> parse_public L (sk_public r) = Some p \<and>
     signature_ok L p tok \<and> rc_expires (js_registered j) = Some e \<and> now < e \<and>
     (VerifyOpenToken L avail db_now now tok t = Inr c \<longrightarrow> c = open_of_json j \<and>
        (audienceOpen \<in> set (rc_audience (js_registered j)) \<or>
         op_mode c = ModeUnspecified \<and> audienceLegacy \<in> set (rc_audience (js_registered j)))) \<and>
     (VerifyLinkToken L avail db_now now tok t = Inr c' \<longrightarrow> c' = link_of_json j \<and>
        (audienceLink \<in> set (rc_audience (js_registered j)) \<or>
         lk_mode c' = ModeUnspecified \<and> audienceLegacy \<in> set (rc_audience (js_registered j)))))"
proof -
  let ?kf = "getVerifyTokenFunc L avail db_now t"
  have o: "\<exists>j. c = open_of_json j \<and> accepted_by L verifyOptions ?kf now tok j \<and>
      (audienceOpen \<in> set (rc_audience (js_registered j)) \<or>
       member (js_mode j) = ModeUnspecified \<and> audienceLegacy \<in> set (rc_audience (js_registered j)))"
    if "VerifyOpenToken L avail db_now now tok t = Inr c"
    using open_claims.verified [OF assms(1)] that unfolding VerifyOpenToken_def by blast
  have l: "\<exists>j. c' = link_of_json j \<and> accepted_by L verifyOptions ?kf now tok j \<and>
      (audienceLink \<in> set (rc_audience (js_registered j)) \<or>
       member (js_mode j) = ModeUnspecified \<and> audienceLegacy \<in> set (rc_audience (js_registered j)))"
    if "VerifyLinkToken L avail db_now now tok t = Inr c'"
    using link_claims.verified [OF assms(1)] that unfolding VerifyLinkToken_def by blast
  obtain j where j: "accepted_by L verifyOptions ?kf now tok j" using assms(2) o l by blast
  then obtain h p where a: "read_token L tok = Some (h, j)" "hd_alg h = ''RS512''" "?kf h = Inr p" "signature_ok L p tok"
      "case rc_expires (js_registered j) of None \<Rightarrow> False | Some e \<Rightarrow> now < e"
    by (auto simp: accepted_by_def verifyOptions_def split: option.splits)
  have uniq: "j' = j" if "accepted_by L verifyOptions ?kf now tok j'" for j'
    using that a(1) by (auto simp: accepted_by_def)
  obtain e where e: "rc_expires (js_registered j) = Some e" "now < e" using a(5) by (cases "rc_expires (js_registered j)") simp_all
  obtain r where r: "avail" "r \<in> set t" "hd_kid h = Some (sk_id r)" "db_now < sk_expires r"
      "parse_public L (sk_public r) = Some p"
    using a(3) by (auto simp: getVerifyTokenFunc_def GetValidPublicStatsKeyByKid_def find_Some_iff
        split: if_splits option.splits) (metis nth_mem)
  show ?thesis
  proof (intro conjI exI)
    show "VerifyOpenToken L avail db_now now tok t = Inr c \<longrightarrow> c = open_of_json j \<and>
        (audienceOpen \<in> set (rc_audience (js_registered j)) \<or>
         op_mode c = ModeUnspecified \<and> audienceLegacy \<in> set (rc_audience (js_registered j)))"
      using o uniq by (auto simp: open_of_json_def)
    show "VerifyLinkToken L avail db_now now tok t = Inr c' \<longrightarrow> c' = link_of_json j \<and>
        (audienceLink \<in> set (rc_audience (js_registered j)) \<or>
         lk_mode c' = ModeUnspecified \<and> audienceLegacy \<in> set (rc_audience (js_registered j)))"
      using l uniq by (auto simp: link_of_json_def)
  qed (use r a e in simp_all)
qed

section \<open>A library that signs two tokens\<close>

definition example_header :: token_header where
  "example_header = \<lparr>hd_alg = ''RS512'', hd_kid = Some ''key_c1''\<rparr>"

definition example_open :: OpenClaims where
  "example_open =
     \<lparr>op_message_id = ''msg_c1@k.dev'', op_email = ''0aff@track.k.dev'', op_mode = ModePseudonymous,
      op_registered = \<lparr>rc_audience = [audienceOpen], rc_expires = Some tokenExpirePeriod, rc_issued = Some 0\<rparr>\<rparr>"

definition example_link :: LinkClaims where
  "example_link =
     \<lparr>lk_message_id = ''msg_c1@k.dev'', lk_email = ''r@x.org'', lk_url = ''https://k.dev'', lk_mode = ModeFull,
      lk_registered = \<lparr>rc_audience = [audienceLink], rc_expires = Some tokenExpirePeriod, rc_issued = Some 0\<rparr>\<rparr>"

definition example_read :: "string \<Rightarrow> (token_header \<times> claims_json) option" where
  "example_read tok =
     (if tok = ''o'' then Some (example_header, open_to_json example_open)
      else if tok = ''l'' then Some (example_header, link_to_json example_link) else None)"

definition example_jwt :: "(unit, unit) jwt_lib" where
  "example_jwt =
     \<lparr>rsa_generate = (\<lambda>r. Some ((), ())), pem_private = (\<lambda>k. Some ''priv''), pem_public = (\<lambda>p. Some ''pub''),
      parse_private = (\<lambda>s. Some ()), parse_public = (\<lambda>s. Some ()),
      numeric_date = (\<lambda>t. t div 1000000000 * 1000000000),
      sign_token = (\<lambda>k h j. if example_read ''o'' = Some (h, j) then Some ''o''
        else if example_read ''l'' = Some (h, j) then Some ''l'' else None),
      read_token = example_read,
      signature_ok = (\<lambda>p tok. True),
      parse_with_claims = (\<lambda>po kf now tok.
        (case example_read tok of
           None \<Rightarrow> None
         | Some (h, j) \<Rightarrow>
             if List.member (po_methods po) (hd_alg h) \<and> is_ok (kf h) \<and>
                (case rc_expires (js_registered j) of None \<Rightarrow> \<not> po_exp_required po | Some e \<Rightarrow> now < e)
             then Some j else None))\<rparr>"

definition example_call :: sec_call where
  "example_call =
     \<lparr>cl_now = 0, cl_db_now = 0, cl_read = True, cl_write = Answered,
      cl_pick = (\<lambda>rs. case rs of [] \<Rightarrow> None | r # _ \<Rightarrow> Some r), cl_random = Some [], cl_id = ''c1''\<rparr>"

lemma example_jwt_simps:
  "read_token example_jwt = example_read" "signature_ok example_jwt p tok"
  "numeric_date example_jwt x = x div 1000000000 * 1000000000"
  "rsa_generate example_jwt r = Some ((), ())" "parse_private example_jwt s = Some ()" "parse_public example_jwt s = Some ()"
  by (simp_all add: example_jwt_def)

lemma example_parser: "parser_ok example_jwt"
proof -
  have ok: "is_ok x \<longleftrightarrow> (\<exists>p. x = Inr p)" for x :: "sec_error + unit"
    by (cases x) (simp_all add: is_ok_def)
  have "parse_with_claims example_jwt po kf now tok = Some j \<longleftrightarrow> accepted_by example_jwt po kf now tok j" for po kf now tok j
  proof (cases "example_read tok")
    case None
    then show ?thesis by (simp add: example_jwt_def accepted_by_def)
  next
    case (Some hj)
    obtain h i where hj: "hj = (h, i)" by fastforce
    have "parse_with_claims example_jwt po kf now tok =
       (if hd_alg h \<in> set (po_methods po) \<and> is_ok (kf h) \<and>
           (case rc_expires (js_registered i) of None \<Rightarrow> \<not> po_exp_required po | Some e \<Rightarrow> now < e) then Some i else None)"
      using Some by (simp add: example_jwt_def hj)
    then show ?thesis
      unfolding accepted_by_def example_jwt_simps(1) Some hj ok by (auto simp: example_jwt_simps(2))
  qed
  then show ?thesis unfolding parser_ok_def by blast
qed

lemma example_jwt_ok: "jwt_ok example_jwt"
proof -
  have "read_token example_jwt tok = Some (h, j)" if "sign_token example_jwt k h j = Some tok" for k h j tok
    using that by (simp add: example_jwt_def split: if_splits)
  moreover have "x div 1000000000 * 1000000000 \<le> x" for x :: int
    using mult_div_mod_eq [of 1000000000 x] pos_mod_sign [of 1000000000 x] by linarith
  ultimately show ?thesis
    unfolding jwt_ok_def using example_parser
    by (intro conjI allI impI) (auto simp: example_jwt_simps pair_ok_def)
qed

lemma example_pick: "pick_ok example_call"
  by (simp add: pick_ok_def example_call_def split: list.split)

lemma example_keys: "keys_inv L []" "valid_string (utils_NewID ''key'' (cl_id example_call))"
  by (simp add: keys_inv_def) code_simp

definition example_keys_after :: key_table where
  "example_keys_after = snd (getSignKeys example_jwt example_call [])"

lemma example_mints:
  "CreateOpenToken no_unicode example_jwt example_call ''msg_c1@k.dev'' ''0aff@track.k.dev'' ModePseudonymous [] =
     (Inr ''o'', example_keys_after)"
  "CreateLinkToken no_unicode example_jwt example_call ''msg_c1@k.dev'' ''r@x.org'' ''https://k.dev'' ModeFull example_keys_after =
     (Inr ''l'', example_keys_after)"
  by code_simp+

lemma example_identities:
  "identityUnder no_unicode ModePseudonymous ''0aff@track.k.dev'' ''msg_c1@k.dev'' = Inr ''0aff@track.k.dev''"
  "identityUnder no_unicode ModeFull ''r@x.org'' ''msg_c1@k.dev'' = Inr ''r@x.org''"
  "clean_claims [''msg_c1@k.dev'', ''0aff@track.k.dev'', ModePseudonymous, ''r@x.org'', ModeFull, ''https://k.dev'']"
  by code_simp+


lemma token_lifetime_witness:
  "VerifyOpenToken example_jwt True 5 7 ''o'' example_keys_after = Inr example_open \<and>
   VerifyOpenToken example_jwt True 5 7 ''l'' example_keys_after = Inl WrongChannel"
proof -
  have ex: "tokenExpirePeriod = numeric_date example_jwt (cl_now example_call + tokenExpirePeriod)" by code_simp
  have r: "registered example_jwt audienceOpen (cl_now example_call) = op_registered example_open" by code_simp
  have lim: "(5::int) \<le> tokenExpirePeriod" "(5::int) \<le> 5" "(7::int) < tokenExpirePeriod" by code_simp+
  show ?thesis
    using token_lifetime [OF example_jwt_ok example_keys(1) example_pick example_keys(2) example_mints example_identities
        key_steps.keys_refl ex lim(1,2), of 7] lim(3)
    unfolding r by (simp add: example_open_def)
qed

lemma verified_only_witness:
  "\<exists>h. read_token example_jwt ''o'' = Some (h, open_to_json example_open) \<and> hd_kid h = Some ''key_c1'' \<and>
     VerifyOpenToken example_jwt True 5 7 ''o'' example_keys_after = Inr example_open"
proof -
  have v: "VerifyOpenToken example_jwt True 5 7 ''o'' example_keys_after = Inr example_open" by code_simp
  have "hd_alg h = ''RS512''" if "read_token example_jwt ''o'' = Some (h, j)" for h j
    using verified_only [OF example_jwt_ok disjI1 [OF v], of example_link] that by auto
  moreover have "read_token example_jwt ''o'' = Some (example_header, open_to_json example_open)" by code_simp
  ultimately show ?thesis using v by (auto simp: example_header_def)
qed

end
