(* ===== verification/Tracker.thy ===== *)
theory Tracker
  imports StatsSec Dispatcher
begin

text \<open>
  \<open>pkg/tracker\<close>: the two HTTP handlers, opens and clicks.  A request is the part of it they read, a
  response what they write; the router of \<open>net/http\<close> that picks the handler by its prefix is not modelled.
  The state is the streams of the \<open>world\<close>; the keys are only read.
\<close>

record http_request =
  rq_path :: string
  rq_header :: "string \<Rightarrow> string"
  rq_remote :: string

datatype http_response = HttpNotFound | TrackingPixel | TemporaryRedirect string

text \<open>\<open>strings.Replace\<close> of the first occurrence by nothing, and \<open>UserAgent\<close>.\<close>

fun cut_first :: "string \<Rightarrow> string \<Rightarrow> string" where
  "cut_first sub [] = []"
| "cut_first sub (c # cs) =
     (if has_prefix sub (c # cs) then drop (length sub) (c # cs) else c # cut_first sub cs)"

definition UserAgent :: "http_request \<Rightarrow> string" where
  "UserAgent r = rq_header r ''User-Agent''"

definition readUserIP :: "http_request \<Rightarrow> string" where
  "readUserIP r =
     (let IPAddress = rq_header r ''X-Real-Ip'';
          IPAddress = (if IPAddress = [] then rq_header r ''X-Forwarded-For'' else IPAddress) in
      if IPAddress = [] then rq_remote r else IPAddress)"

record engagement =
  en_email :: string
  en_ip :: string
  en_user_agent :: string

definition retained :: "http_request \<Rightarrow> string \<Rightarrow> mode \<Rightarrow> engagement" where
  "retained r claimedIdentity m =
     (if \<not> IsolatesRecipient m then \<lparr>en_email = [], en_ip = [], en_user_agent = []\<rparr>
      else if m \<noteq> ModeFull then \<lparr>en_email = claimedIdentity, en_ip = [], en_user_agent = []\<rparr>
      else \<lparr>en_email = claimedIdentity, en_ip = readUserIP r, en_user_agent = UserAgent r\<rparr>)"

definition buildOpenEvent :: "go_time \<Rightarrow> OpenClaims \<Rightarrow> engagement \<Rightarrow> string \<Rightarrow> Event" where
  "buildOpenEvent ts claims kept domain =
     \<lparr>ev_message = op_message_id claims, ev_domain = domain, ev_email = en_email kept, ev_time = ts,
      ev_outcome = Opened (en_user_agent kept) (en_ip kept), ev_mode = op_mode claims\<rparr>"

definition buildClickEvent :: "go_time \<Rightarrow> LinkClaims \<Rightarrow> engagement \<Rightarrow> string \<Rightarrow> Event" where
  "buildClickEvent ts claims kept domain =
     \<lparr>ev_message = lk_message_id claims, ev_domain = domain, ev_email = en_email kept, ev_time = ts,
      ev_outcome = Clicked (en_user_agent kept) (en_ip kept) (lk_url claims), ev_mode = lk_mode claims\<rparr>"

definition writeRedirect :: "LinkClaims \<Rightarrow> http_response" where
  "writeRedirect claims = TemporaryRedirect (lk_url claims)"

text \<open>
  What a handler meets: whether and at what time the database answers, its own clock, and how the publish
  turns out.
\<close>

record track_call =
  tk_read :: bool
  tk_db_now :: go_time
  tk_now :: go_time
  tk_publish :: reply

definition handleOpen ::
  "('priv, 'pub) jwt_lib \<Rightarrow> 'b codec \<Rightarrow> track_call \<Rightarrow> http_request \<Rightarrow> key_table \<Rightarrow> 'b world \<Rightarrow>
     http_response \<times> 'b world" where
  "handleOpen L cd c r t w =
     (let tok = cut_first ''/o/'' (rq_path r) in
      case VerifyOpenToken L (tk_read c) (tk_db_now c) (tk_now c) tok t of
        Inl e \<Rightarrow> (HttpNotFound, w)
      | Inr claims \<Rightarrow>
          (case ExtractDomainFromMessageID (op_message_id claims) of
             None \<Rightarrow> (HttpNotFound, w)
           | Some domain \<Rightarrow>
               (let kept = retained r (op_email claims) (op_mode claims);
                    event = buildOpenEvent (tk_now c) claims kept domain in
                (TrackingPixel, snd (PublishStat cd (tk_publish c) event w)))))"

definition handleClick ::
  "('priv, 'pub) jwt_lib \<Rightarrow> 'b codec \<Rightarrow> track_call \<Rightarrow> http_request \<Rightarrow> key_table \<Rightarrow> 'b world \<Rightarrow>
     http_response \<times> 'b world" where
  "handleClick L cd c r t w =
     (let tok = cut_first ''/c/'' (rq_path r) in
      case VerifyLinkToken L (tk_read c) (tk_db_now c) (tk_now c) tok t of
        Inl e \<Rightarrow> (HttpNotFound, w)
      | Inr claims \<Rightarrow>
          (case ExtractDomainFromMessageID (lk_message_id claims) of
             None \<Rightarrow> (HttpNotFound, w)
           | Some domain \<Rightarrow>
               (let kept = retained r (lk_email claims) (lk_mode claims);
                    event = buildClickEvent (tk_now c) claims kept domain in
                (writeRedirect claims, snd (PublishStat cd (tk_publish c) event w)))))"

text \<open>\<open>setDefaults\<close> of the tracker's configuration.\<close>

definition tracker_port :: "nat \<Rightarrow> nat" where
  "tracker_port p = (if p = 0 then 8080 else p)"

section \<open>What is observed\<close>

text \<open>The most an event of a Mode may hold of the identity and of the request.\<close>

definition within_mode :: "mode \<Rightarrow> string \<Rightarrow> http_request \<Rightarrow> engagement \<Rightarrow> bool" where
  "within_mode m i r k \<longleftrightarrow>
     (en_email k = [] \<or> IsolatesRecipient m \<and> en_email k = i) \<and>
     (en_ip k = [] \<and> en_user_agent k = [] \<or> m = ModeFull \<and> en_ip k = readUserIP r \<and> en_user_agent k = UserAgent r)"

lemma retained_within: "within_mode m i r (retained r i m)"
  by (simp add: within_mode_def retained_def)

lemma cut_first_prefix [simp]: "sub \<noteq> [] \<Longrightarrow> cut_first sub (sub @ s) = s"
proof -
  assume "sub \<noteq> []"
  then obtain c cs where "sub = c # cs" by (cases sub) simp_all
  then show ?thesis by (simp add: has_prefix_def)
qed

lemma built_engagement [simp]: "built (Opened ua ip)" "built (Clicked ua ip url)"
  by (simp_all add: built_def outcome_defs)

lemma published_event:
  assumes "codec_ok cd" and "PublishStat cd a e w = (r, w')" and "built (ev_outcome e)"
  shows "(w' = w \<or> (\<exists>b. w' = w\<lparr>w_stats := w_stats w @ [(stat_subject (ev_outcome e), b)]\<rparr> \<and>
      decodeEvent (unmarshal_stats cd) b =
        Some (e\<lparr>ev_mode := if known_mode (ev_mode e) then ev_mode e else ModeUnspecified\<rparr>))) \<and>
    (a = Refused \<longrightarrow> w' = w)"
proof (cases "MarshalEvent (marshal_stats cd) e")
  case None
  then show ?thesis using assms(2) by (simp add: PublishStat_def Let_def)
next
  case (Some b)
  have "unmarshal_stats cd b = Some (FromEvent e)"
    using assms(1) Some by (auto simp: codec_ok_def MarshalEvent_def)
  then have "decodeEvent (unmarshal_stats cd) b =
      Some (e\<lparr>ev_mode := if known_mode (ev_mode e) then ev_mode e else ModeUnspecified\<rparr>)"
    using assms(3) by (cases e) (simp add: decodeEvent_def UnmarshalEvent_def ToEvent_def FromEvent_def
        ToOutcome_FromOutcome ToMode_FromMode)
  moreover have "w' \<in> {w, w\<lparr>w_stats := w_stats w @ [(stat_subject (ev_outcome e), b)]\<rparr>}"
    using remote_state [of a Publish_error "publish_stat_msg (stat_subject (ev_outcome e)) b" w] assms(2) Some
    by (auto simp: PublishStat_def publish_stat_msg_def Let_def)
  moreover have "a = Refused \<Longrightarrow> w' = w" using assms(2) Some by (simp add: PublishStat_def Let_def)
  ultimately show ?thesis by blast
qed

text \<open>At most one event was published, the given one, as this build's Mode names it.\<close>

definition published_at_most :: "'b codec \<Rightarrow> Event \<Rightarrow> 'b world \<Rightarrow> 'b world \<Rightarrow> bool" where
  "published_at_most cd e w w' \<longleftrightarrow>
     w' = w \<or> (\<exists>b. w' = w\<lparr>w_stats := w_stats w @ [(stat_subject (ev_outcome e), b)]\<rparr> \<and>
       decodeEvent (unmarshal_stats cd) b =
         Some (e\<lparr>ev_mode := if known_mode (ev_mode e) then ev_mode e else ModeUnspecified\<rparr>))"

lemma published_at_mostI:
  "codec_ok cd \<Longrightarrow> built (ev_outcome e) \<Longrightarrow> published_at_most cd e w (snd (PublishStat cd a e w))"
  using published_event [of cd a e w] unfolding published_at_most_def by (metis prod.collapse)


section \<open>From the mint to the statistics\<close>

lemma consumer_rows:
  assumes "handleStatsMsg U unm avail b s = (disp, s')" and "decodeEvent unm b = Some e"
    and "row \<in> set (sr_rows (sv_repo s'))" and "row \<notin> set (sr_rows (sv_repo s))"
  shows "sr_email row = ev_email e \<and> sr_data row = StatsDataFromOutcome (ev_outcome e) \<and>
     ev_mode e \<noteq> ModeAnonymous \<and> \<not> NamesNobody U (ev_email e) (ev_domain e)"
proof (cases "eventDomain U e")
  case None
  then show ?thesis using assms by (simp add: handleStatsMsg_def)
next
  case (Some dn)
  have row: "row = stat_to_row (sr_next (sv_repo s)) (event_stat dn e)"
    and e: "ev_mode e \<noteq> ModeAnonymous" "\<not> NamesNobody U (ev_email e) (ev_domain e)"
    using assms(1,3,4) unfolding handleStatsMsg_eq [OF assms(2) Some]
    by (auto split: if_splits dest: sql_insert_rows)
  show ?thesis using e by (simp add: row stat_to_row_def event_stat_def NewStat_def)
qed

text \<open>What of an open event reaches a row, given the claims it was built from.\<close>

lemma open_event_row:
  assumes "within_mode m i r k" and "e = buildOpenEvent ts cl k d" and "op_mode cl = m"
    and "handleStatsMsg U unm avail b s = (disp, s')"
    and "decodeEvent unm b = Some (e\<lparr>ev_mode := mm\<rparr>)"
    and "row \<in> set (sr_rows (sv_repo s'))" and "row \<notin> set (sr_rows (sv_repo s))"
  shows "IsolatesRecipient m \<and> sr_email row = i \<and>
     (m \<noteq> ModeFull \<longrightarrow> sd_opened (sr_data row) = Some ([], []))"
proof -
  have nn: "ev_email e \<noteq> []"
    using consumer_rows [OF assms(4,5,6,7)] by (auto simp: NamesNobody_def)
  have row: "sr_email row = ev_email e" "sr_data row = StatsDataFromOutcome (ev_outcome e)"
    using consumer_rows [OF assms(4,5,6,7)] by simp_all
  have "IsolatesRecipient m \<and> en_email k = i"
    using assms(1,2) nn by (auto simp: within_mode_def buildOpenEvent_def)
  moreover have "m \<noteq> ModeFull \<Longrightarrow> en_user_agent k = [] \<and> en_ip k = []"
    using assms(1) by (auto simp: within_mode_def)
  ultimately show ?thesis
    using row by (simp add: assms(2) buildOpenEvent_def StatsDataFromOutcome_def outcome_type_def Opened_def
        zero_outcome_def empty_data_def)
qed

text \<open>
  C11. From the Dispatcher's mint to the statistics nobody is recorded beyond the Mode of the Delivery.
  Mint an open token for a Delivery, let the keys move on, let any client request the pixel with it before
  it expires, and feed whatever message the tracker published to the statistics consumer: the client gets
  the pixel, and any row that is added carries the identity the Mode grants - the Recipient's address only
  under a naming Mode, the pseudonym under pseudonymous, and no row at all under a Mode that cannot tell
  Recipients apart - and holds no user agent and no client address unless the Mode is full.
\<close>

theorem engagement_within_mode:
  assumes "jwt_ok L" and "codec_ok cd" and "keys_inv L t" and "pick_ok cl"
    and "valid_string (utils_NewID ''key'' (cl_id cl))"
    and "CreateOpenToken U L cl mid a m t = (Inr tok, t1)" and "identityUnder U m a mid = Inr i"
    and "clean_claims [mid, i, m]" and "ExtractDomainFromMessageID mid = Some d"
    and "key_steps L lim t1 u" and "lim \<le> numeric_date L (cl_now cl + tokenExpirePeriod)"
    and "rq_path r = ''/o/'' @ tok" and "tk_read c" and "tk_db_now c \<le> lim"
    and "tk_now c < numeric_date L (cl_now cl + tokenExpirePeriod)"
  shows "fst (handleOpen L cd c r u w) = TrackingPixel \<and>
     (\<forall>subj b avail s row.
        w_stats (snd (handleOpen L cd c r u w)) = w_stats w @ [(subj, b)] \<and>
        row \<in> set (sr_rows (sv_repo (snd (handleStatsMsg U (unmarshal_stats cd) avail b s)))) - set (sr_rows (sv_repo s)) \<longrightarrow>
        IsolatesRecipient m \<and> sr_email row = i \<and>
        (IdentifiesRecipient m \<or> IsPseudonym U (sr_email row) d) \<and>
        (m \<noteq> ModeFull \<longrightarrow> sd_opened (sr_data row) = Some ([], [])))"
proof -
  let ?cl = "\<lparr>op_message_id = mid, op_email = i, op_mode = m, op_registered = registered L audienceOpen (cl_now cl)\<rparr>"
  let ?k = "retained r i m"
  let ?e = "buildOpenEvent (tk_now c) ?cl ?k d"
  have v: "VerifyOpenToken L (tk_read c) (tk_db_now c) (tk_now c) tok u = Inr ?cl"
    using minted_open_lasts [OF assms(1,3-8,10) refl assms(11,14)] assms(13,15) by simp
  have h: "handleOpen L cd c r u w = (TrackingPixel, snd (PublishStat cd (tk_publish c) ?e w))"
    using v assms(9) cut_first_prefix [of "''/o/''" tok]
    unfolding handleOpen_def assms(12) by (simp add: Let_def del: cut_first.simps)
  have p: "published_at_most cd ?e w (snd (handleOpen L cd c r u w))"
    unfolding h snd_conv by (rule published_at_mostI [OF assms(2)]) (simp add: buildOpenEvent_def)
  show ?thesis
  proof (intro conjI allI impI; (elim conjE)?)
    show "fst (handleOpen L cd c r u w) = TrackingPixel" by (simp add: h)
    fix subj b avail s row
    assume new: "w_stats (snd (handleOpen L cd c r u w)) = w_stats w @ [(subj, b)]"
      and row: "row \<in> set (sr_rows (sv_repo (snd (handleStatsMsg U (unmarshal_stats cd) avail b s)))) - set (sr_rows (sv_repo s))"
    obtain disp s' where hs: "handleStatsMsg U (unmarshal_stats cd) avail b s = (disp, s')" by fastforce
    obtain mm where d: "decodeEvent (unmarshal_stats cd) b = Some (?e\<lparr>ev_mode := mm\<rparr>)"
      using p new unfolding published_at_most_def by auto
    have concl: "IsolatesRecipient m \<and> sr_email row = i \<and> (m \<noteq> ModeFull \<longrightarrow> sd_opened (sr_data row) = Some ([], []))"
    proof (rule open_event_row [OF retained_within refl _ hs d])
      show "row \<in> set (sr_rows (sv_repo s'))" "row \<notin> set (sr_rows (sv_repo s))" using row hs by simp_all
    qed simp
    show "IsolatesRecipient m" "sr_email row = i" "m \<noteq> ModeFull \<Longrightarrow> sd_opened (sr_data row) = Some ([], [])"
      using concl by simp_all
    show "IdentifiesRecipient m \<or> IsPseudonym U (sr_email row) d"
      using identityUnder_cases [OF assms(7)] concl assms(9) by auto
  qed
qed

definition example_request :: http_request where
  "example_request =
     \<lparr>rq_path = ''/o/o'', rq_header = (\<lambda>h. if h = ''User-Agent'' then ''ua'' else []), rq_remote = ''10.0.0.1:9''\<rparr>"

definition example_track :: track_call where
  "example_track = \<lparr>tk_read = True, tk_db_now = 5, tk_now = 7, tk_publish = Answered\<rparr>"

definition empty_world :: "(wire_stats + EmailToSend) world" where
  "empty_world = \<lparr>w_pool = \<lparr>rows = [], next_id = 1\<rparr>, w_stats = [], w_sending = []\<rparr>"


lemma engagement_within_mode_witness:
  "fst (handleOpen example_jwt plain_codec example_track example_request example_keys_after empty_world) = TrackingPixel"
proof -
  have c: "clean_claims [''msg_c1@k.dev'', ''0aff@track.k.dev'', ModePseudonymous]"
    "ExtractDomainFromMessageID ''msg_c1@k.dev'' = Some ''k.dev''" by code_simp+
  have t: "(5 :: int) \<le> numeric_date example_jwt (cl_now example_call + tokenExpirePeriod)"
    "rq_path example_request = ''/o/'' @ ''o''" "tk_read example_track" "tk_db_now example_track \<le> 5"
    "tk_now example_track < numeric_date example_jwt (cl_now example_call + tokenExpirePeriod)"
    by code_simp+
  show ?thesis
    using engagement_within_mode [OF example_jwt_ok plain_codec_ok example_keys(1) example_pick example_keys(2)
        example_mints(1) example_identities(1) c key_steps.keys_refl t] by blast
qed

end
