(* ===== verification/ApiKeys.thy ===== *)
theory ApiKeys
  imports Authz DeliveryStore
begin

text \<open>
  \<open>internal/apikeys\<close> with its two repositories (\<open>internal/db/key_repo.go\<close> over the statements of
  \<open>apikeys.sql.go\<close>, and \<open>helpers/inmemory_repo.go\<close>): what a Domain authenticates a send with.  A key keeps a
  digest of its secret; the digest function is the parameter \<open>digest\<close>, of which nothing is assumed unless
  a property says so.  One call of a repository meets a \<open>key_call\<close>: whether the database answers, its
  clock, the rows its constraints admit and the order it lists rows of one creation time in.
\<close>

section \<open>Identifiers and references\<close>

type_synonym key_id = string

definition keyIDPrefix :: string where "keyIDPrefix = ''key_''"

definition NewKeyID :: "string \<Rightarrow> key_id" where
  "NewKeyID cuid = keyIDPrefix @ cuid"

datatype key_error =
    KeyIDRequired | KeyIDNoPrefix | KeyBadDomain parse_error | KeyNameRequired | KeyNameTooLong
  | KeyExpiryPast | KeyNoRandom | ErrKeyNotFound | ErrKeyAlreadyExists | KeyRowNotCanonical | KeyDbError | KeyPanic

definition ParseKeyID :: "string \<Rightarrow> key_error + key_id" where
  "ParseKeyID s =
     (if s = [] then Inl KeyIDRequired
      else if \<not> has_prefix keyIDPrefix s then Inl KeyIDNoPrefix
      else Inr s)"

record KeyRef =
  ref_domain :: DomainName
  ref_id :: key_id

definition NewKeyRef :: "DomainName \<Rightarrow> key_id \<Rightarrow> KeyRef" where
  "NewKeyRef d i = \<lparr>ref_domain = d, ref_id = i\<rparr>"

definition ParseKeyRef :: "unicode \<Rightarrow> string \<Rightarrow> string \<Rightarrow> key_error + KeyRef" where
  "ParseKeyRef U domain i =
     (case parse U domain of
        Inl e \<Rightarrow> Inl (KeyBadDomain e)
      | Inr d \<Rightarrow> bindR (ParseKeyID i) (\<lambda>p. Inr (NewKeyRef d p)))"

section \<open>The key\<close>

record APIKey =
  ak_id :: key_id
  ak_hash :: string
  ak_prefix :: string
  ak_name :: string
  ak_domain :: DomainName
  ak_created :: go_time
  ak_expires :: "go_time option"
  ak_active :: bool
  ak_deactivated :: "go_time option"

record CreateResult =
  cr_key :: APIKey
  cr_plaintext :: string

definition keyPrefix :: string where "keyPrefix = ''k_''"
definition keyLength :: nat where "keyLength = 64"
definition maskedKeyLength :: nat where "maskedKeyLength = 8"

definition key_charset :: string where
  "key_charset = ''abcdefghijklmnopqrstuvwxyzABCDEFGHIJKLMNOPQRSTUVWXYZ0123456789''"

text \<open>The random source fills \<open>keyLength\<close> bytes or fails.\<close>

definition generateKey :: "string option \<Rightarrow> key_error + string" where
  "generateKey rand =
     (case rand of
        None \<Rightarrow> Inl KeyNoRandom
      | Some b \<Rightarrow> Inr (keyPrefix @ map (\<lambda>x. key_charset ! (code x mod length key_charset)) b))"

definition validateName :: "string \<Rightarrow> key_error + unit" where
  "validateName name =
     (if name = [] then Inl KeyNameRequired
      else if 100 < length name then Inl KeyNameTooLong
      else Inr ())"

definition validateExpiresAt :: "go_time \<Rightarrow> go_time option \<Rightarrow> key_error + unit" where
  "validateExpiresAt now exp =
     (case exp of None \<Rightarrow> Inr () | Some e \<Rightarrow> if e < now then Inl KeyExpiryPast else Inr ())"

text \<open>What the creation of a key draws from its surroundings.\<close>

record key_material =
  km_now :: go_time
  km_cuid :: string
  km_random :: "string option"

definition NewAPIKey ::
  "(string \<Rightarrow> string) \<Rightarrow> key_material \<Rightarrow> DomainName \<Rightarrow> string \<Rightarrow> go_time option \<Rightarrow> key_error + CreateResult" where
  "NewAPIKey digest m domain name exp =
     bindR (validateName name) (\<lambda>_. bindR (validateExpiresAt (km_now m) exp) (\<lambda>_.
       bindR (generateKey (km_random m)) (\<lambda>plaintext.
         Inr \<lparr>cr_key =
                \<lparr>ak_id = NewKeyID (km_cuid m), ak_hash = digest plaintext,
                 ak_prefix = take maskedKeyLength plaintext, ak_name = name, ak_domain = domain,
                 ak_created = km_now m, ak_expires = exp, ak_active = True, ak_deactivated = None\<rparr>,
              cr_plaintext = plaintext\<rparr>)))"

definition MaskedKey :: "APIKey \<Rightarrow> string" where
  "MaskedKey k = ak_prefix k @ ''...''"

definition IsValid :: "go_time \<Rightarrow> APIKey \<Rightarrow> bool" where
  "IsValid now k =
     (if \<not> ak_active k then False
      else if (case ak_expires k of None \<Rightarrow> False | Some e \<Rightarrow> e < now) then False
      else True)"

definition Deactivate :: "go_time \<Rightarrow> APIKey \<Rightarrow> APIKey" where
  "Deactivate now k = (if ak_active k then k\<lparr>ak_active := False, ak_deactivated := Some now\<rparr> else k)"

definition IsExpired :: "go_time \<Rightarrow> APIKey \<Rightarrow> bool" where
  "IsExpired now k = (case ak_expires k of None \<Rightarrow> False | Some e \<Rightarrow> e < now)"

definition key_principal :: "unicode \<Rightarrow> APIKey \<Rightarrow> Principal option" where
  "key_principal U k =
     (case NewGrant RoleSender (DomainAnchor (ak_domain k)) of
        Inl _ \<Rightarrow> None
      | Inr grant \<Rightarrow> NewPrincipal U (ak_id k @ ''@'' @ dn_string (ak_domain k)) [grant])"

section \<open>The interface of a repository\<close>

text \<open>An update function gets the loaded key and returns what it made of it, or an error.\<close>

type_synonym key_update = "APIKey \<Rightarrow> key_error + APIKey"

record 's key_repo =
  kr_create :: "APIKey \<Rightarrow> 's \<Rightarrow> (key_error + unit) \<times> 's"
  kr_update :: "KeyRef \<Rightarrow> key_update \<Rightarrow> 's \<Rightarrow> (key_error + APIKey) \<times> 's"
  kr_by_hash :: "DomainName \<Rightarrow> string \<Rightarrow> 's \<Rightarrow> key_error + APIKey"
  kr_by_id :: "KeyRef \<Rightarrow> 's \<Rightarrow> key_error + APIKey"
  kr_list :: "DomainName \<Rightarrow> bool \<Rightarrow> int \<Rightarrow> int \<Rightarrow> 's \<Rightarrow> key_error + APIKey list"
  kr_count :: "DomainName \<Rightarrow> bool \<Rightarrow> 's \<Rightarrow> key_error + int"

section \<open>The SQL repository\<close>

record api_key_row =
  akr_id :: string
  akr_name :: string
  akr_domain :: string
  akr_created :: go_time
  akr_expires :: "go_time option"
  akr_active :: bool
  akr_deactivated :: "go_time option"
  akr_hash :: string
  akr_prefix :: string

type_synonym key_rows = "api_key_row list"

record key_call =
  kc_up :: bool
  kc_now :: go_time
  kc_admits :: "api_key_row \<Rightarrow> bool"
  kc_order :: "api_key_row list \<Rightarrow> api_key_row list"

record CreateAPIKeyParams =
  cap_id :: string
  cap_domain :: string
  cap_hash :: string
  cap_prefix :: string
  cap_name :: string
  cap_expires :: "go_time option"

text \<open>The primary key, the unique index on the digest and the remaining constraints refuse a row.\<close>

definition sqlCreateAPIKey :: "key_call \<Rightarrow> CreateAPIKeyParams \<Rightarrow> key_rows \<Rightarrow> (key_error + api_key_row) \<times> key_rows" where
  "sqlCreateAPIKey c p t =
     (let row = \<lparr>akr_id = cap_id p, akr_name = cap_name p, akr_domain = cap_domain p,
                 akr_created = pg_timestamp (kc_now c), akr_expires = map_option pg_timestamp (cap_expires p),
                 akr_active = True, akr_deactivated = None, akr_hash = cap_hash p, akr_prefix = cap_prefix p\<rparr> in
      if \<not> kc_up c \<or> cap_id p \<in> akr_id ` set t \<or> cap_hash p \<in> akr_hash ` set t \<or> \<not> kc_admits c row
      then (Inl KeyDbError, t)
      else (Inr row, t @ [row]))"

definition sqlGetAPIKeyByHash :: "string \<Rightarrow> string \<Rightarrow> key_rows \<Rightarrow> api_key_row option" where
  "sqlGetAPIKeyByHash h d = List.find (\<lambda>r. akr_hash r = h \<and> akr_domain r = d)"

definition sqlGetAPIKeyByID :: "string \<Rightarrow> string \<Rightarrow> key_rows \<Rightarrow> api_key_row option" where
  "sqlGetAPIKeyByID i d = List.find (\<lambda>r. akr_id r = i \<and> akr_domain r = d)"

text \<open>The same rows, locked until the transaction ends.\<close>

definition sqlGetAPIKeyByIDForUpdate :: "string \<Rightarrow> string \<Rightarrow> key_rows \<Rightarrow> api_key_row option" where
  "sqlGetAPIKeyByIDForUpdate i d = List.find (\<lambda>r. akr_id r = i \<and> akr_domain r = d)"

record UpdateAPIKeyParams =
  uap_id :: string
  uap_domain :: string
  uap_name :: string
  uap_expires :: "go_time option"
  uap_active :: bool
  uap_deactivated :: "go_time option"

definition sqlUpdateAPIKey :: "UpdateAPIKeyParams \<Rightarrow> key_rows \<Rightarrow> key_rows" where
  "sqlUpdateAPIKey p =
     map (\<lambda>r. if akr_id r = uap_id p \<and> akr_domain r = uap_domain p
              then r\<lparr>akr_name := uap_name p, akr_expires := map_option pg_timestamp (uap_expires p),
                     akr_active := uap_active p, akr_deactivated := map_option pg_timestamp (uap_deactivated p)\<rparr>
              else r)"

definition keys_of_domain :: "string \<Rightarrow> bool \<Rightarrow> key_rows \<Rightarrow> key_rows" where
  "keys_of_domain d onlyActive = filter (\<lambda>r. akr_domain r = d \<and> (onlyActive \<longrightarrow> akr_active r))"

text \<open>A negative \<open>LIMIT\<close> or \<open>OFFSET\<close> is an error of the statement.\<close>

definition sqlListAPIKeysByDomain ::
  "key_call \<Rightarrow> string \<Rightarrow> bool \<Rightarrow> int \<Rightarrow> int \<Rightarrow> key_rows \<Rightarrow> key_error + api_key_row list" where
  "sqlListAPIKeysByDomain c d onlyActive lim off t =
     (if lim < 0 \<or> off < 0 then Inl KeyDbError
      else Inr (take (nat lim) (drop (nat off) (kc_order c (keys_of_domain d onlyActive t)))))"

definition sqlCountAPIKeysByDomain :: "string \<Rightarrow> bool \<Rightarrow> key_rows \<Rightarrow> int" where
  "sqlCountAPIKeysByDomain d onlyActive t = int (length (keys_of_domain d onlyActive t))"

definition rowToAPIKey :: "unicode \<Rightarrow> api_key_row \<Rightarrow> key_error + APIKey" where
  "rowToAPIKey U row =
     (case parse U (akr_domain row) of
        Inl _ \<Rightarrow> Inl KeyRowNotCanonical
      | Inr d \<Rightarrow>
          Inr \<lparr>ak_id = akr_id row, ak_hash = akr_hash row, ak_prefix = akr_prefix row, ak_name = akr_name row,
               ak_domain = d, ak_created = akr_created row, ak_expires = akr_expires row,
               ak_active = akr_active row, ak_deactivated = akr_deactivated row\<rparr>)"

definition key_create_params :: "APIKey \<Rightarrow> CreateAPIKeyParams" where
  "key_create_params k =
     \<lparr>cap_id = ak_id k, cap_domain = dn_string (ak_domain k), cap_hash = ak_hash k, cap_prefix = ak_prefix k,
      cap_name = ak_name k, cap_expires = ak_expires k\<rparr>"

definition key_update_params :: "APIKey \<Rightarrow> UpdateAPIKeyParams" where
  "key_update_params k =
     \<lparr>uap_id = ak_id k, uap_domain = dn_string (ak_domain k), uap_name = ak_name k,
      uap_expires = ak_expires k, uap_active = ak_active k, uap_deactivated = ak_deactivated k\<rparr>"

definition keyrepo_Create :: "key_call \<Rightarrow> APIKey \<Rightarrow> key_rows \<Rightarrow> (key_error + unit) \<times> key_rows" where
  "keyrepo_Create c key t =
     (case sqlCreateAPIKey c (key_create_params key) t of
        (Inl e, t') \<Rightarrow> (Inl e, t')
      | (Inr _, t') \<Rightarrow> (Inr (), t'))"

text \<open>One transaction: whatever fails on the way, the rollback leaves the rows as they were.\<close>

definition keyrepo_Update ::
  "unicode \<Rightarrow> key_call \<Rightarrow> KeyRef \<Rightarrow> key_update \<Rightarrow> key_rows \<Rightarrow> (key_error + APIKey) \<times> key_rows" where
  "keyrepo_Update U c ref f t =
     (if \<not> kc_up c then (Inl KeyDbError, t)
      else case sqlGetAPIKeyByIDForUpdate (ref_id ref) (dn_string (ref_domain ref)) t of
        None \<Rightarrow> (Inl ErrKeyNotFound, t)
      | Some row \<Rightarrow>
          (case rowToAPIKey U row of
             Inl e \<Rightarrow> (Inl e, t)
           | Inr key \<Rightarrow>
               (case f key of
                  Inl e \<Rightarrow> (Inl e, t)
                | Inr key' \<Rightarrow> (Inr key', sqlUpdateAPIKey (key_update_params key') t))))"

definition keyrepo_GetByKeyHash ::
  "unicode \<Rightarrow> key_call \<Rightarrow> DomainName \<Rightarrow> string \<Rightarrow> key_rows \<Rightarrow> key_error + APIKey" where
  "keyrepo_GetByKeyHash U c d h t =
     (if \<not> kc_up c then Inl KeyDbError
      else case sqlGetAPIKeyByHash h (dn_string d) t of
        None \<Rightarrow> Inl ErrKeyNotFound
      | Some row \<Rightarrow> rowToAPIKey U row)"

definition keyrepo_GetByID :: "unicode \<Rightarrow> key_call \<Rightarrow> KeyRef \<Rightarrow> key_rows \<Rightarrow> key_error + APIKey" where
  "keyrepo_GetByID U c ref t =
     (if \<not> kc_up c then Inl KeyDbError
      else case sqlGetAPIKeyByID (ref_id ref) (dn_string (ref_domain ref)) t of
        None \<Rightarrow> Inl ErrKeyNotFound
      | Some row \<Rightarrow> rowToAPIKey U row)"

fun load_keys :: "unicode \<Rightarrow> api_key_row list \<Rightarrow> key_error + APIKey list" where
  "load_keys U [] = Inr []"
| "load_keys U (r # rs) = bindR (rowToAPIKey U r) (\<lambda>k. bindR (load_keys U rs) (\<lambda>ks. Inr (k # ks)))"

definition keyrepo_List ::
  "unicode \<Rightarrow> key_call \<Rightarrow> DomainName \<Rightarrow> bool \<Rightarrow> int \<Rightarrow> int \<Rightarrow> key_rows \<Rightarrow> key_error + APIKey list" where
  "keyrepo_List U c d onlyActive lim off t =
     (if \<not> kc_up c then Inl KeyDbError
      else bindR (sqlListAPIKeysByDomain c (dn_string d) onlyActive (int32 lim) (int32 off) t) (load_keys U))"

definition keyrepo_Count :: "key_call \<Rightarrow> DomainName \<Rightarrow> bool \<Rightarrow> key_rows \<Rightarrow> key_error + int" where
  "keyrepo_Count c d onlyActive t =
     (if \<not> kc_up c then Inl KeyDbError else Inr (sqlCountAPIKeysByDomain (dn_string d) onlyActive t))"

definition sql_key_repo :: "unicode \<Rightarrow> key_call \<Rightarrow> key_rows key_repo" where
  "sql_key_repo U c =
     \<lparr>kr_create = keyrepo_Create c, kr_update = keyrepo_Update U c, kr_by_hash = keyrepo_GetByKeyHash U c,
      kr_by_id = keyrepo_GetByID U c, kr_list = keyrepo_List U c, kr_count = keyrepo_Count c\<rparr>"

section \<open>The repository in memory\<close>

record mem_keys =
  mk_byID :: "DomainName \<rightharpoonup> (key_id \<rightharpoonup> APIKey)"
  mk_byHash :: "DomainName \<rightharpoonup> (string \<rightharpoonup> APIKey)"

definition NewInMemoryRepository :: mem_keys where
  "NewInMemoryRepository = \<lparr>mk_byID = Map.empty, mk_byHash = Map.empty\<rparr>"

definition inner :: "(DomainName \<rightharpoonup> ('k \<rightharpoonup> 'v)) \<Rightarrow> DomainName \<Rightarrow> ('k \<rightharpoonup> 'v)" where
  "inner m d = (case m d of None \<Rightarrow> Map.empty | Some n \<Rightarrow> n)"

definition memkeys_Create :: "APIKey \<Rightarrow> mem_keys \<Rightarrow> (key_error + unit) \<times> mem_keys" where
  "memkeys_Create key s =
     (let d = ak_domain key in
      if inner (mk_byHash s) d (ak_hash key) \<noteq> None then (Inl ErrKeyAlreadyExists, s)
      else (Inr (),
            s\<lparr>mk_byID := (mk_byID s)(d \<mapsto> (inner (mk_byID s) d)(ak_id key \<mapsto> key)),
              mk_byHash := (mk_byHash s)(d \<mapsto> (inner (mk_byHash s) d)(ak_hash key \<mapsto> key))\<rparr>))"

text \<open>The entry is replaced under the digest it had before the update.\<close>

definition memkeys_Update :: "KeyRef \<Rightarrow> key_update \<Rightarrow> mem_keys \<Rightarrow> (key_error + APIKey) \<times> mem_keys" where
  "memkeys_Update ref f s =
     (let d = ref_domain ref in
      case inner (mk_byID s) d (ref_id ref) of
        None \<Rightarrow> (Inl ErrKeyNotFound, s)
      | Some key \<Rightarrow>
          (case f key of
             Inl e \<Rightarrow> (Inl e, s)
           | Inr key' \<Rightarrow>
               (Inr key',
                s\<lparr>mk_byID := (mk_byID s)(d \<mapsto> (inner (mk_byID s) d)(ref_id ref \<mapsto> key')),
                  mk_byHash := (mk_byHash s)(d \<mapsto> (inner (mk_byHash s) d)(ak_hash key \<mapsto> key'))\<rparr>)))"

definition memkeys_GetByKeyHash :: "DomainName \<Rightarrow> string \<Rightarrow> mem_keys \<Rightarrow> key_error + APIKey" where
  "memkeys_GetByKeyHash d h s =
     (case inner (mk_byHash s) d h of None \<Rightarrow> Inl ErrKeyNotFound | Some k \<Rightarrow> Inr k)"

definition memkeys_GetByID :: "KeyRef \<Rightarrow> mem_keys \<Rightarrow> key_error + APIKey" where
  "memkeys_GetByID ref s =
     (case inner (mk_byID s) (ref_domain ref) (ref_id ref) of None \<Rightarrow> Inl ErrKeyNotFound | Some k \<Rightarrow> Inr k)"

text \<open>The values of a map in the order the iteration yields them are the parameter \<open>range_map\<close>.\<close>

type_synonym map_range = "(key_id \<rightharpoonup> APIKey) \<Rightarrow> APIKey list"

definition memkeys_selected :: "map_range \<Rightarrow> DomainName \<Rightarrow> bool \<Rightarrow> mem_keys \<Rightarrow> APIKey list" where
  "memkeys_selected range_map d onlyActive s =
     filter (\<lambda>k. \<not> (onlyActive \<and> \<not> ak_active k)) (range_map (inner (mk_byID s) d))"

definition memkeys_List ::
  "map_range \<Rightarrow> DomainName \<Rightarrow> bool \<Rightarrow> int \<Rightarrow> int \<Rightarrow> mem_keys \<Rightarrow> key_error + APIKey list" where
  "memkeys_List range_map d onlyActive lim off s =
     (case mk_byID s d of
        None \<Rightarrow> Inr []
      | Some _ \<Rightarrow>
          (let ks = memkeys_selected range_map d onlyActive s; n = int (length ks) in
           if n < off then Inr []
           else let stop = (if n < off + lim then n else off + lim) in
             if stop < off \<or> (off < 0 \<and> off < stop) then Inl KeyPanic
             else Inr (take (nat (stop - off)) (drop (nat off) ks))))"

definition memkeys_Count :: "map_range \<Rightarrow> DomainName \<Rightarrow> bool \<Rightarrow> mem_keys \<Rightarrow> key_error + int" where
  "memkeys_Count range_map d onlyActive s =
     (case mk_byID s d of
        None \<Rightarrow> Inr 0
      | Some _ \<Rightarrow> Inr (int (length (memkeys_selected range_map d onlyActive s))))"

definition mem_key_repo :: "map_range \<Rightarrow> mem_keys key_repo" where
  "mem_key_repo range_map =
     \<lparr>kr_create = memkeys_Create, kr_update = memkeys_Update, kr_by_hash = memkeys_GetByKeyHash,
      kr_by_id = memkeys_GetByID, kr_list = memkeys_List range_map, kr_count = memkeys_Count range_map\<rparr>"

section \<open>The service\<close>

definition key_resource :: "KeyRef \<Rightarrow> Resource" where
  "key_resource ref = APIKeyR (ref_domain ref) (ref_id ref)"

definition CreateKey ::
  "(string \<Rightarrow> string) \<Rightarrow> 's key_repo \<Rightarrow> key_material \<Rightarrow> ctx \<Rightarrow> DomainName \<Rightarrow> string \<Rightarrow> go_time option \<Rightarrow>
     Decision list \<Rightarrow> 's \<Rightarrow> (key_error guarded_error + CreateResult) \<times> Decision list \<times> 's" where
  "CreateKey digest R m c domain name exp =
     Guard c Create (APIKeys domain) (\<lambda>s.
       case NewAPIKey digest m domain name exp of
         Inl e \<Rightarrow> (Inl e, s)
       | Inr result \<Rightarrow>
           (case kr_create R (cr_key result) s of
              (Inl e, s') \<Rightarrow> (Inl e, s')
            | (Inr _, s') \<Rightarrow> (Inr result, s')))"

definition GetKey ::
  "'s key_repo \<Rightarrow> ctx \<Rightarrow> KeyRef \<Rightarrow> Decision list \<Rightarrow> 's \<Rightarrow> (key_error guarded_error + APIKey) \<times> Decision list \<times> 's" where
  "GetKey R c ref = Guard c Read (key_resource ref) (\<lambda>s. (kr_by_id R ref s, s))"

definition ListKeys ::
  "'s key_repo \<Rightarrow> ctx \<Rightarrow> DomainName \<Rightarrow> bool \<Rightarrow> int \<Rightarrow> int \<Rightarrow> Decision list \<Rightarrow> 's \<Rightarrow>
     (key_error guarded_error + APIKey list \<times> int) \<times> Decision list \<times> 's" where
  "ListKeys R c domain onlyActive lim off =
     Guard c List (APIKeys domain) (\<lambda>s.
       (bindR (kr_list R domain onlyActive lim off s) (\<lambda>keys.
          bindR (kr_count R domain onlyActive s) (\<lambda>total. Inr (keys, total))), s))"

definition DeactivateKey ::
  "'s key_repo \<Rightarrow> go_time \<Rightarrow> ctx \<Rightarrow> KeyRef \<Rightarrow> Decision list \<Rightarrow> 's \<Rightarrow>
     (key_error guarded_error + APIKey) \<times> Decision list \<times> 's" where
  "DeactivateKey R now c ref = Guard c Delete (key_resource ref) (kr_update R ref (\<lambda>k. Inr (Deactivate now k)))"

definition ValidateForAuth ::
  "(string \<Rightarrow> string) \<Rightarrow> 's key_repo \<Rightarrow> go_time \<Rightarrow> DomainName \<Rightarrow> string \<Rightarrow> 's \<Rightarrow> key_error + APIKey" where
  "ValidateForAuth digest R now domain key s =
     (case kr_by_hash R domain (digest key) s of
        Inl _ \<Rightarrow> Inl ErrKeyNotFound
      | Inr k \<Rightarrow> if \<not> IsValid now k then Inl ErrKeyNotFound else Inr k)"

section \<open>The life of a key, over any repository\<close>

datatype 'c key_op =
    OpCreate 'c key_material ctx DomainName string "go_time option"
  | OpDeactivate 'c go_time ctx KeyRef

type_synonym 's key_state = "Decision list \<times> 's"

fun run_key_op :: "(string \<Rightarrow> string) \<Rightarrow> ('c \<Rightarrow> 's key_repo) \<Rightarrow> 'c key_op \<Rightarrow> 's key_state \<Rightarrow> 's key_state" where
  "run_key_op digest R (OpCreate c m x d name exp) (recs, s) = snd (CreateKey digest (R c) m x d name exp recs s)"
| "run_key_op digest R (OpDeactivate c now x ref) (recs, s) = snd (DeactivateKey (R c) now x ref recs s)"

text \<open>An operation that revokes a key: a Principal who may, on a database that answers.\<close>

fun revokes :: "('c \<Rightarrow> bool) \<Rightarrow> KeyRef \<Rightarrow> 'c key_op \<Rightarrow> bool" where
  "revokes up ref (OpCreate c m x d name exp) \<longleftrightarrow> False"
| "revokes up ref (OpDeactivate c now x r) \<longleftrightarrow> r = ref \<and> up c \<and> permitted x Delete (key_resource r)"

text \<open>How a repository keeps a key: its clock may be coarser than the program's.\<close>

definition stored_as :: "(go_time \<Rightarrow> go_time) \<Rightarrow> APIKey \<Rightarrow> APIKey \<Rightarrow> bool" where
  "stored_as norm k k' \<longleftrightarrow>
     ak_id k' = ak_id k \<and> ak_hash k' = ak_hash k \<and> ak_prefix k' = ak_prefix k \<and> ak_name k' = ak_name k \<and>
     ak_domain k' = ak_domain k \<and> ak_active k' = ak_active k \<and> ak_expires k' = map_option norm (ak_expires k) \<and>
     (ak_deactivated k' = None \<longleftrightarrow> ak_deactivated k = None)"

definition keeps_identity :: "key_update \<Rightarrow> bool" where
  "keeps_identity f \<longleftrightarrow>
     (\<forall>k k'. f k = Inr k' \<longrightarrow> ak_id k' = ak_id k \<and> ak_hash k' = ak_hash k \<and> ak_prefix k' = ak_prefix k \<and>
                             ak_domain k' = ak_domain k)"

definition key_valid_at :: "go_time \<Rightarrow> go_time option \<Rightarrow> bool" where
  "key_valid_at now e \<longleftrightarrow> (case e of None \<Rightarrow> True | Some t \<Rightarrow> now \<le> t)"

lemma IsValid_iff: "IsValid now k \<longleftrightarrow> ak_active k \<and> key_valid_at now (ak_expires k)"
  by (auto simp: IsValid_def key_valid_at_def split: option.splits)

lemma Deactivate_simps [simp]:
  "ak_id (Deactivate now k) = ak_id k" "ak_hash (Deactivate now k) = ak_hash k"
  "ak_prefix (Deactivate now k) = ak_prefix k" "ak_domain (Deactivate now k) = ak_domain k"
  "ak_expires (Deactivate now k) = ak_expires k" "\<not> ak_active (Deactivate now k)"
  by (simp_all add: Deactivate_def)

lemma Deactivate_keeps: "keeps_identity (\<lambda>k. Inr (Deactivate now k))"
  by (simp add: keeps_identity_def)

lemma NewAPIKey_key:
  "NewAPIKey digest m d name exp = Inr res \<Longrightarrow>
     ak_domain (cr_key res) = d \<and> ak_hash (cr_key res) = digest (cr_plaintext res) \<and> ak_active (cr_key res) \<and>
     ak_expires (cr_key res) = exp \<and> ak_id (cr_key res) = NewKeyID (km_cuid m) \<and> ak_name (cr_key res) = name \<and>
     has_prefix keyPrefix (cr_plaintext res)"
  by (auto simp: NewAPIKey_def generateKey_def bindR_eq_Inr has_prefix_iff split: option.splits)

locale key_repository =
  fixes R :: "'c \<Rightarrow> 's key_repo"
    and up :: "'c \<Rightarrow> bool"
    and inv :: "'s \<Rightarrow> bool"
    and stored :: "'s \<Rightarrow> DomainName \<Rightarrow> key_id \<Rightarrow> APIKey option"
    and creatable :: "APIKey \<Rightarrow> 's \<Rightarrow> bool"
    and norm :: "go_time \<Rightarrow> go_time"
  assumes norm_idem: "norm (norm t) = norm t"
    and create_failed: "kr_create (R c) k s = (Inl e, s') \<Longrightarrow> s' = s"
    and create_done: "inv s \<Longrightarrow> creatable k s \<Longrightarrow> kr_create (R c) k s = (Inr u, s') \<Longrightarrow>
      inv s' \<and> stored s (ak_domain k) (ak_id k) = None \<and>
      (\<exists>k'. stored_as norm k k' \<and>
        (\<forall>d i. stored s' d i = (if d = ak_domain k \<and> i = ak_id k then Some k' else stored s d i)))"
    and update_failed: "kr_update (R c) ref f s = (Inl e, s') \<Longrightarrow> s' = s"
    and update_done: "inv s \<Longrightarrow> keeps_identity f \<Longrightarrow> kr_update (R c) ref f s = (Inr k', s') \<Longrightarrow>
      inv s' \<and> (\<exists>k k''. stored s (ref_domain ref) (ref_id ref) = Some k \<and> f k = Inr k' \<and> stored_as norm k' k'' \<and>
        (\<forall>d i. stored s' d i = (if d = ref_domain ref \<and> i = ref_id ref then Some k'' else stored s d i)))"
    and update_answers: "inv s \<Longrightarrow> is_ok (fst (kr_update (R c) ref f s)) \<longleftrightarrow>
      up c \<and> (\<exists>k. stored s (ref_domain ref) (ref_id ref) = Some k \<and> is_ok (f k))"
    and by_hash: "inv s \<Longrightarrow> kr_by_hash (R c) d h s = Inr k \<longleftrightarrow> up c \<and> (\<exists>i. stored s d i = Some k \<and> ak_hash k = h)"
    and by_id: "inv s \<Longrightarrow> kr_by_id (R c) ref s = Inr k \<longleftrightarrow> up c \<and> stored s (ref_domain ref) (ref_id ref) = Some k"
    and hash_unique: "inv s \<Longrightarrow> stored s d i = Some k \<Longrightarrow> stored s d j = Some k' \<Longrightarrow> ak_hash k = ak_hash k' \<Longrightarrow> i = j"
begin

lemma auth_iff:
  assumes "inv s"
  shows "ValidateForAuth digest (R c) now d key s = Inr k \<longleftrightarrow>
     up c \<and> (\<exists>i. stored s d i = Some k \<and> ak_hash k = digest key) \<and> IsValid now k"
proof -
  have "ValidateForAuth digest (R c) now d key s = Inr k \<longleftrightarrow> kr_by_hash (R c) d (digest key) s = Inr k \<and> IsValid now k"
    by (auto simp: ValidateForAuth_def split: sum.splits)
  then show ?thesis using by_hash [OF assms] by blast
qed

text \<open>The key with a digest, what it is worth and until when.\<close>

definition tracks :: "KeyRef \<Rightarrow> string \<Rightarrow> go_time option \<Rightarrow> bool \<Rightarrow> 's \<Rightarrow> bool" where
  "tracks ref h e b s \<longleftrightarrow>
     (\<exists>k. stored s (ref_domain ref) (ref_id ref) = Some k \<and> ak_hash k = h \<and> ak_active k = b \<and>
          ak_expires k = map_option norm e)"

lemma tracked_auth:
  assumes "inv s" and "tracks ref (digest key) e b s"
  shows "is_ok (ValidateForAuth digest (R c) now (ref_domain ref) key s) \<longleftrightarrow>
     up c \<and> b \<and> key_valid_at now (map_option norm e)"
proof -
  obtain k where k: "stored s (ref_domain ref) (ref_id ref) = Some k" "ak_hash k = digest key"
      "ak_active k = b" "ak_expires k = map_option norm e"
    using assms(2) unfolding tracks_def by blast
  have only: "(\<exists>i. stored s (ref_domain ref) i = Some k' \<and> ak_hash k' = digest key) \<longleftrightarrow> k' = k" for k'
    using hash_unique [OF assms(1) _ k(1)] k(1,2) by (metis option.inject)
  show ?thesis
    unfolding is_ok_iff auth_iff [OF assms(1)] only using k(3,4) by (simp add: IsValid_iff)
qed

lemma created_tracks:
  assumes "inv s" and "creatable k s" and "kr_create (R c) k s = (Inr u, s')" and "ak_active k"
  shows "inv s' \<and> tracks (NewKeyRef (ak_domain k) (ak_id k)) (ak_hash k) (ak_expires k) True s'"
  using create_done [OF assms(1-3)] assms(4) by (auto simp: tracks_def stored_as_def NewKeyRef_def)

lemma create_tracks:
  assumes "inv s" and "tracks ref h e b s" and "creatable k s" and "kr_create (R c) k s = (r, s')"
  shows "inv s' \<and> tracks ref h e b s'"
proof (cases r)
  case (Inl e)
  then show ?thesis using assms create_failed by blast
next
  case (Inr u)
  have c: "inv s'" "stored s (ak_domain k) (ak_id k) = None"
      "\<exists>k'. \<forall>d i. stored s' d i = (if d = ak_domain k \<and> i = ak_id k then Some k' else stored s d i)"
    using create_done [OF assms(1,3), of c u s'] assms(4) Inr by blast+
  obtain x where x: "stored s (ref_domain ref) (ref_id ref) = Some x" "ak_hash x = h" "ak_active x = b"
      "ak_expires x = map_option norm e"
    using assms(2) unfolding tracks_def by blast
  have "stored s' (ref_domain ref) (ref_id ref) = Some x"
    using c(2,3) x(1) by (metis option.distinct(1))
  then show ?thesis using c(1) x unfolding tracks_def by blast
qed

lemma deactivate_tracks:
  assumes "inv s" and "tracks ref h e b s"
    and up: "kr_update (R c) ref' (\<lambda>k. Inr (Deactivate now k)) s = (r, s')"
  shows "inv s' \<and> tracks ref h e (b \<and> \<not> (ref' = ref \<and> up c)) s'"
proof (cases r)
  case (Inl err)
  have "\<not> (ref' = ref \<and> up c)"
    using update_answers [OF assms(1), of c ref' "\<lambda>k. Inr (Deactivate now k)"] up Inl assms(2)
    by (auto simp: tracks_def)
  then show ?thesis using update_failed [of c ref' _ s err s'] up Inl assms(1,2) by auto
next
  case (Inr k1)
  have "up c"
    using update_answers [OF assms(1), of c ref' "\<lambda>k. Inr (Deactivate now k)"] up Inr by simp
  obtain k k2 where u: "inv s'" "stored s (ref_domain ref') (ref_id ref') = Some k" "k1 = Deactivate now k"
      "stored_as norm k1 k2"
      "\<forall>d i. stored s' d i = (if d = ref_domain ref' \<and> i = ref_id ref' then Some k2 else stored s d i)"
    using update_done [OF assms(1) Deactivate_keeps, of c ref' now k1 s'] up Inr by auto
  show ?thesis
  proof (cases "ref' = ref")
    case True
    then show ?thesis
      using assms(2) u \<open>up c\<close> by (auto simp: tracks_def stored_as_def option.map_comp o_def norm_idem)
  next
    case False
    then have "\<not> (ref_domain ref = ref_domain ref' \<and> ref_id ref = ref_id ref')" by (cases ref; cases ref') auto
    then have "stored s' (ref_domain ref) (ref_id ref) = stored s (ref_domain ref) (ref_id ref)" using u(5) by metis
    then show ?thesis using assms(2) u(1) False by (simp add: tracks_def)
  qed
qed

text \<open>One operation of the service.\<close>

lemma op_tracks:
  assumes inv: "inv s" and tr: "tracks ref h e b s"
    and ok: "\<And>c m x d name exp res. op = OpCreate c m x d name exp \<Longrightarrow>
      NewAPIKey digest m d name exp = Inr res \<Longrightarrow> creatable (cr_key res) s"
  shows "inv (snd (run_key_op digest R op (recs, s))) \<and>
     tracks ref h e (b \<and> \<not> revokes up ref op) (snd (run_key_op digest R op (recs, s)))"
proof (cases op)
  case (OpCreate c m x d name exp)
  show ?thesis
  proof (cases "permitted x Create (APIKeys d) \<and> is_ok (NewAPIKey digest m d name exp)")
    case True
    then obtain res where res: "NewAPIKey digest m d name exp = Inr res" by (auto simp: is_ok_iff)
    obtain r s' where k: "kr_create (R c) (cr_key res) s = (r, s')" by (metis surj_pair)
    have "inv s' \<and> tracks ref h e b s'"
      using create_tracks [OF inv tr ok [OF OpCreate res] k] .
    then show ?thesis
      using True res k by (simp add: OpCreate CreateKey_def Guard_permitted split: sum.splits)
  next
    case False
    then show ?thesis using inv tr
      by (cases "NewAPIKey digest m d name exp") (auto simp: OpCreate CreateKey_def Guard_cases)
  qed
next
  case (OpDeactivate c now x r)
  show ?thesis
  proof (cases "permitted x Delete (key_resource r)")
    case True
    obtain u s' where k: "kr_update (R c) r (\<lambda>k. Inr (Deactivate now k)) s = (u, s')" by (metis surj_pair)
    show ?thesis
      using deactivate_tracks [OF inv tr k] True k by (simp add: OpDeactivate DeactivateKey_def Guard_permitted)
  next
    case False
    then show ?thesis using inv tr by (simp add: OpDeactivate DeactivateKey_def Guard_refused_state)
  qed
qed

end

section \<open>Both repositories keep the contract\<close>

definition keys_ok :: "key_rows \<Rightarrow> bool" where
  "keys_ok t \<longleftrightarrow>
     distinct (map akr_id t) \<and> distinct (map akr_hash t) \<and> list_all (\<lambda>r. canonical (akr_domain r)) t"

definition key_entity :: "api_key_row \<Rightarrow> APIKey" where
  "key_entity r =
     \<lparr>ak_id = akr_id r, ak_hash = akr_hash r, ak_prefix = akr_prefix r, ak_name = akr_name r,
      ak_domain = DomainName (akr_domain r), ak_created = akr_created r, ak_expires = akr_expires r,
      ak_active = akr_active r, ak_deactivated = akr_deactivated r\<rparr>"

definition sql_stored :: "key_rows \<Rightarrow> DomainName \<Rightarrow> key_id \<Rightarrow> APIKey option" where
  "sql_stored t d i = map_option key_entity (sqlGetAPIKeyByID i (dn_string d) t)"

lemma key_rows_inject:
  assumes "keys_ok t" and "x \<in> set t" and "y \<in> set t"
  shows "akr_id x = akr_id y \<Longrightarrow> x = y" and "akr_hash x = akr_hash y \<Longrightarrow> x = y"
  using assms by (auto simp: keys_ok_def distinct_map dest: inj_onD)

lemma key_finds:
  assumes "keys_ok t"
  shows "sqlGetAPIKeyByID i d t = Some r \<longleftrightarrow> r \<in> set t \<and> akr_id r = i \<and> akr_domain r = d"
    and "sqlGetAPIKeyByIDForUpdate i d t = Some r \<longleftrightarrow> r \<in> set t \<and> akr_id r = i \<and> akr_domain r = d"
    and "sqlGetAPIKeyByHash h d t = Some r \<longleftrightarrow> r \<in> set t \<and> akr_hash r = h \<and> akr_domain r = d"
  unfolding sqlGetAPIKeyByID_def sqlGetAPIKeyByIDForUpdate_def sqlGetAPIKeyByHash_def
  by (subst find_unique; use assms key_rows_inject in blast)+

lemma rowToAPIKey_ok: "keys_ok t \<Longrightarrow> r \<in> set t \<Longrightarrow> rowToAPIKey U r = Inr (key_entity r)"
  by (auto simp: keys_ok_def list_all_iff rowToAPIKey_def key_entity_def parse_canonical)

lemma sql_stored_Some:
  "keys_ok t \<Longrightarrow> sql_stored t d i = Some k \<longleftrightarrow>
     (\<exists>r\<in>set t. akr_id r = i \<and> akr_domain r = dn_string d \<and> k = key_entity r)"
  by (auto simp: sql_stored_def key_finds)

lemma sql_stored_eqI:
  assumes "keys_ok t" and "\<And>k. sql_stored t d i = Some k \<longleftrightarrow> x = Some k"
  shows "sql_stored t d i = x"
  using assms(2) by (metis not_None_eq)

lemma keys_ok_update:
  assumes "keys_ok t"
  shows "keys_ok (sqlUpdateAPIKey p t)"
proof -
  let ?f = "\<lambda>r. if akr_id r = uap_id p \<and> akr_domain r = uap_domain p
              then r\<lparr>akr_name := uap_name p, akr_expires := map_option pg_timestamp (uap_expires p),
                     akr_active := uap_active p, akr_deactivated := map_option pg_timestamp (uap_deactivated p)\<rparr>
              else r"
  have "map akr_id (map ?f t) = map akr_id t" "map akr_hash (map ?f t) = map akr_hash t" by auto
  moreover have "list_all (\<lambda>r. canonical (akr_domain r)) (map ?f t)"
    using assms by (auto simp: keys_ok_def list_all_iff)
  ultimately show ?thesis using assms by (simp only: keys_ok_def sqlUpdateAPIKey_def)
qed

lemma pg_timestamp_idem: "pg_timestamp (pg_timestamp t) = pg_timestamp t"
  by (simp add: pg_timestamp_def)

text \<open>A key as \<open>NewAPIKey\<close> makes it for a Domain that has a name.\<close>

definition fresh_key :: "APIKey \<Rightarrow> bool" where
  "fresh_key k \<longleftrightarrow> canonical_name (ak_domain k) \<and> ak_active k \<and> ak_deactivated k = None"

lemma NewAPIKey_fresh: "NewAPIKey digest m d name exp = Inr res \<Longrightarrow> fresh_key (cr_key res) \<longleftrightarrow> canonical_name d"
  by (auto simp: NewAPIKey_def bindR_eq_Inr fresh_key_def)

lemma keyrepo_Create_row:
  assumes "fresh_key k" and "keyrepo_Create c k t = (Inr u, t')"
  shows "\<exists>row. t' = t @ [row] \<and> akr_id row = ak_id k \<and> akr_domain row = dn_string (ak_domain k) \<and>
     akr_hash row = ak_hash k \<and> ak_id k \<notin> akr_id ` set t \<and> ak_hash k \<notin> akr_hash ` set t \<and>
     stored_as pg_timestamp k (key_entity row)"
  using assms
  by (cases "ak_domain k")
     (auto simp: keyrepo_Create_def sqlCreateAPIKey_def key_create_params_def Let_def fresh_key_def stored_as_def
        key_entity_def split: if_splits)

lemma keyrepo_create_done:
  assumes ok: "keys_ok t" and can: "fresh_key k" and cr: "keyrepo_Create c k t = (Inr u, t')"
  shows "keys_ok t' \<and> sql_stored t (ak_domain k) (ak_id k) = None \<and>
      (\<exists>k'. stored_as pg_timestamp k k' \<and>
        (\<forall>d i. sql_stored t' d i = (if d = ak_domain k \<and> i = ak_id k then Some k' else sql_stored t d i)))"
proof -
  obtain row where row: "t' = t @ [row]" "akr_id row = ak_id k" "akr_domain row = dn_string (ak_domain k)"
      "akr_hash row = ak_hash k" "ak_id k \<notin> akr_id ` set t" "ak_hash k \<notin> akr_hash ` set t"
      "stored_as pg_timestamp k (key_entity row)"
    using keyrepo_Create_row [OF can cr] by blast
  have ok': "keys_ok t'"
    using ok row can by (auto simp: keys_ok_def canonical_name_def fresh_key_def)
  have none: "sql_stored t d (ak_id k) = None" for d
    using row(5) sql_stored_Some [OF ok] by (metis image_eqI option.exhaust)
  have same: "dn_string (ak_domain k) = dn_string d \<longleftrightarrow> d = ak_domain k" for d
    by (cases d; cases "ak_domain k") auto
  have eq: "sql_stored t' d i = Some k' \<longleftrightarrow>
      (ak_id k = i \<and> d = ak_domain k \<and> k' = key_entity row) \<or> sql_stored t d i = Some k'" for d i k'
  proof -
    have "set t' = insert row (set t)" by (simp add: row(1))
    then show ?thesis
      unfolding sql_stored_Some [OF ok'] sql_stored_Some [OF ok] by (simp add: row(2,3) same)
  qed
  have "sql_stored t' d i = (if d = ak_domain k \<and> i = ak_id k then Some (key_entity row) else sql_stored t d i)" for d i
    by (rule sql_stored_eqI [OF ok']) (use eq none in auto)
  with ok' none row(7) show ?thesis by blast
qed

lemma keyrepo_Update_row:
  assumes ok: "keys_ok t" and up: "keyrepo_Update U c ref f t = (Inr k', t')"
  shows "\<exists>row\<in>set t. akr_id row = ref_id ref \<and> akr_domain row = dn_string (ref_domain ref) \<and>
     f (key_entity row) = Inr k' \<and> t' = sqlUpdateAPIKey (key_update_params k') t"
  using up key_finds(2) [OF ok] rowToAPIKey_ok [OF ok, of _ U]
  by (fastforce simp: keyrepo_Update_def split: if_splits option.splits sum.splits)

lemma keyrepo_update_done:
  assumes ok: "keys_ok t" and keep: "keeps_identity f" and up: "keyrepo_Update U c ref f t = (Inr k', t')"
  shows "keys_ok t' \<and> (\<exists>k k''. sql_stored t (ref_domain ref) (ref_id ref) = Some k \<and> f k = Inr k' \<and>
      stored_as pg_timestamp k' k'' \<and>
      (\<forall>d i. sql_stored t' d i = (if d = ref_domain ref \<and> i = ref_id ref then Some k'' else sql_stored t d i)))"
proof -
  obtain row where row: "row \<in> set t" "akr_id row = ref_id ref" "akr_domain row = dn_string (ref_domain ref)"
      "f (key_entity row) = Inr k'" "t' = sqlUpdateAPIKey (key_update_params k') t"
    using keyrepo_Update_row [OF ok up] by blast
  let ?g = "\<lambda>r. r\<lparr>akr_name := ak_name k', akr_expires := map_option pg_timestamp (ak_expires k'),
      akr_active := ak_active k', akr_deactivated := map_option pg_timestamp (ak_deactivated k')\<rparr>"
  have id: "ak_id k' = ref_id ref" "ak_domain k' = ref_domain ref" "ak_hash k' = akr_hash row" "ak_prefix k' = akr_prefix row"
    using keep row(2-4) by (cases "ref_domain ref"; auto simp: keeps_identity_def key_entity_def)+
  have sel: "r \<in> set t \<Longrightarrow> akr_id r = ref_id ref \<and> akr_domain r = dn_string (ref_domain ref) \<longleftrightarrow> r = row" for r
    using row(1-3) key_rows_inject(1) [OF ok _ row(1)] by metis
  have ok': "keys_ok t'" using keys_ok_update [OF ok] row(5) by simp
  obtain h where h: "t' = map h t" "\<And>r. akr_id (h r) = akr_id r \<and> akr_domain (h r) = akr_domain r"
      "h row = ?g row" "\<And>r. r \<noteq> row \<Longrightarrow> h r = r"
  proof
    show "t' = map (\<lambda>r. if r = row then ?g r else r) t"
      unfolding row(5) sqlUpdateAPIKey_def key_update_params_def
      by (rule map_cong [OF refl]) (simp add: id sel)
  qed auto
  have same: "dn_string (ref_domain ref) = dn_string d \<longleftrightarrow> d = ref_domain ref" for d
    by (cases d; cases "ref_domain ref") auto
  have "sql_stored t' d i = (if d = ref_domain ref \<and> i = ref_id ref then Some (key_entity (?g row)) else sql_stored t d i)" for d i
  proof (rule sql_stored_eqI [OF ok'])
    fix k
    have eq: "sql_stored t' d i = Some k \<longleftrightarrow>
        (\<exists>r\<in>set t. akr_id r = i \<and> akr_domain r = dn_string d \<and> k = key_entity (h r))"
    proof -
      have "set t' = h ` set t" by (simp add: h(1))
      then show ?thesis using h(2) by (simp add: sql_stored_Some [OF ok'])
    qed
    show "sql_stored t' d i = Some k \<longleftrightarrow>
        (if d = ref_domain ref \<and> i = ref_id ref then Some (key_entity (?g row)) else sql_stored t d i) = Some k"
    proof (cases "d = ref_domain ref \<and> i = ref_id ref")
      case True
      then have "(\<exists>r\<in>set t. akr_id r = i \<and> akr_domain r = dn_string d \<and> k = key_entity (h r)) \<longleftrightarrow> k = key_entity (?g row)"
        using row(1-3) sel h(3) by metis
      then show ?thesis using True eq by auto
    next
      case False
      then have "\<not> (akr_id row = i \<and> akr_domain row = dn_string d)" using row(2,3) same [of d] by metis
      then have "(\<exists>r\<in>set t. akr_id r = i \<and> akr_domain r = dn_string d \<and> k = key_entity (h r)) \<longleftrightarrow>
          (\<exists>r\<in>set t. akr_id r = i \<and> akr_domain r = dn_string d \<and> k = key_entity r)" using h(4) by metis
      then show ?thesis unfolding if_not_P [OF False] eq using sql_stored_Some [OF ok, of d i k] by simp
    qed
  qed
  moreover have "stored_as pg_timestamp k' (key_entity (?g row))"
    using row(2,3) id by (cases "ak_domain k'") (auto simp: stored_as_def key_entity_def)
  moreover have "sql_stored t (ref_domain ref) (ref_id ref) = Some (key_entity row)"
    using row(1-3) by (auto simp: sql_stored_Some [OF ok])
  ultimately show ?thesis using ok' row(4) by blast
qed

lemma keyrepo_Update_answers:
  assumes ok: "keys_ok t"
  shows "is_ok (fst (keyrepo_Update U c ref f t)) \<longleftrightarrow>
      kc_up c \<and> (\<exists>k. sql_stored t (ref_domain ref) (ref_id ref) = Some k \<and> is_ok (f k))"
proof (cases "sqlGetAPIKeyByID (ref_id ref) (dn_string (ref_domain ref)) t")
  case None
  then show ?thesis
    by (simp add: keyrepo_Update_def sqlGetAPIKeyByIDForUpdate_def sqlGetAPIKeyByID_def sql_stored_def)
next
  case (Some row)
  then have "rowToAPIKey U row = Inr (key_entity row)" using key_finds(1) [OF ok] rowToAPIKey_ok [OF ok] by blast
  with Some show ?thesis
    by (auto simp: keyrepo_Update_def sqlGetAPIKeyByIDForUpdate_def sqlGetAPIKeyByID_def sql_stored_def split: sum.splits)
qed

lemma sql_stored_hash:
  "keys_ok t \<Longrightarrow> (\<exists>i. sql_stored t d i = Some k \<and> ak_hash k = h) \<longleftrightarrow>
     (\<exists>r\<in>set t. akr_hash r = h \<and> akr_domain r = dn_string d \<and> k = key_entity r)"
  by (auto simp: sql_stored_Some key_entity_def)

lemma keyrepo_GetByKeyHash_iff:
  assumes ok: "keys_ok t"
  shows "keyrepo_GetByKeyHash U c d h t = Inr k \<longleftrightarrow> kc_up c \<and> (\<exists>i. sql_stored t d i = Some k \<and> ak_hash k = h)"
proof (cases "sqlGetAPIKeyByHash h (dn_string d) t")
  case None
  then show ?thesis
    using key_finds(3) [OF ok, of h "dn_string d"] unfolding sql_stored_hash [OF ok]
    by (auto simp: keyrepo_GetByKeyHash_def)
next
  case (Some row)
  then have r: "row \<in> set t" "akr_hash row = h" "akr_domain row = dn_string d" using key_finds(3) [OF ok] by blast+
  then have "(\<exists>r\<in>set t. akr_hash r = h \<and> akr_domain r = dn_string d \<and> k = key_entity r) \<longleftrightarrow> k = key_entity row"
    using key_rows_inject(2) [OF ok _ r(1)] by metis
  then show ?thesis
    using Some rowToAPIKey_ok [OF ok r(1)] unfolding sql_stored_hash [OF ok]
    by (auto simp: keyrepo_GetByKeyHash_def)
qed

lemma keyrepo_GetByID_iff:
  assumes ok: "keys_ok t"
  shows "keyrepo_GetByID U c ref t = Inr k \<longleftrightarrow> kc_up c \<and> sql_stored t (ref_domain ref) (ref_id ref) = Some k"
proof (cases "sqlGetAPIKeyByID (ref_id ref) (dn_string (ref_domain ref)) t")
  case (Some row)
  then have "rowToAPIKey U row = Inr (key_entity row)" using key_finds(1) [OF ok] rowToAPIKey_ok [OF ok] by blast
  with Some show ?thesis by (auto simp: keyrepo_GetByID_def sql_stored_def)
qed (simp add: keyrepo_GetByID_def sql_stored_def)

interpretation sql_keys: key_repository "sql_key_repo U" kc_up keys_ok sql_stored "\<lambda>k _. fresh_key k" pg_timestamp
  for U
proof unfold_locales
  fix c k t e t' u
  show "kr_create (sql_key_repo U c) k t = (Inl e, t') \<Longrightarrow> t' = t"
    by (auto simp: sql_key_repo_def keyrepo_Create_def sqlCreateAPIKey_def Let_def split: if_splits)
  show "keys_ok t \<Longrightarrow> fresh_key k \<Longrightarrow> kr_create (sql_key_repo U c) k t = (Inr u, t') \<Longrightarrow>
      keys_ok t' \<and> sql_stored t (ak_domain k) (ak_id k) = None \<and>
      (\<exists>k'. stored_as pg_timestamp k k' \<and>
        (\<forall>d i. sql_stored t' d i = (if d = ak_domain k \<and> i = ak_id k then Some k' else sql_stored t d i)))"
    using keyrepo_create_done [of t k c u t'] by (simp add: sql_key_repo_def)
next
  fix c ref f t e t' k'
  show "kr_update (sql_key_repo U c) ref f t = (Inl e, t') \<Longrightarrow> t' = t"
    by (auto simp: sql_key_repo_def keyrepo_Update_def split: if_splits option.splits sum.splits)
  show "keys_ok t \<Longrightarrow> keeps_identity f \<Longrightarrow> kr_update (sql_key_repo U c) ref f t = (Inr k', t') \<Longrightarrow>
      keys_ok t' \<and> (\<exists>k k''. sql_stored t (ref_domain ref) (ref_id ref) = Some k \<and> f k = Inr k' \<and>
        stored_as pg_timestamp k' k'' \<and>
        (\<forall>d i. sql_stored t' d i = (if d = ref_domain ref \<and> i = ref_id ref then Some k'' else sql_stored t d i)))"
    using keyrepo_update_done [of t f U c ref k' t'] by (simp add: sql_key_repo_def)
  assume ok: "keys_ok t"
  show "is_ok (fst (kr_update (sql_key_repo U c) ref f t)) \<longleftrightarrow>
      kc_up c \<and> (\<exists>k. sql_stored t (ref_domain ref) (ref_id ref) = Some k \<and> is_ok (f k))"
    using keyrepo_Update_answers [OF ok] by (simp add: sql_key_repo_def)
next
  fix c d h t k ref
  assume ok: "keys_ok t"
  show "kr_by_hash (sql_key_repo U c) d h t = Inr k \<longleftrightarrow> kc_up c \<and> (\<exists>i. sql_stored t d i = Some k \<and> ak_hash k = h)"
    using keyrepo_GetByKeyHash_iff [OF ok] by (simp add: sql_key_repo_def)
  show "kr_by_id (sql_key_repo U c) ref t = Inr k \<longleftrightarrow> kc_up c \<and> sql_stored t (ref_domain ref) (ref_id ref) = Some k"
    using keyrepo_GetByID_iff [OF ok] by (simp add: sql_key_repo_def)
next
  fix t d i j k k'
  assume ok: "keys_ok t" and s: "sql_stored t d i = Some k" "sql_stored t d j = Some k'" and h: "ak_hash k = ak_hash k'"
  obtain r r' where r: "r \<in> set t" "akr_id r = i" "k = key_entity r" and r': "r' \<in> set t" "akr_id r' = j" "k' = key_entity r'"
    using s unfolding sql_stored_Some [OF ok] by blast
  have "r = r'" using h key_rows_inject(2) [OF ok r(1) r'(1)] by (simp add: r r' key_entity_def)
  with r r' show "i = j" by simp
qed (simp add: pg_timestamp_idem)

text \<open>In memory both maps hold the same keys, each under its own id and digest.\<close>

definition mem_keys_ok :: "mem_keys \<Rightarrow> bool" where
  "mem_keys_ok s \<longleftrightarrow>
     (\<forall>d i k. inner (mk_byID s) d i = Some k \<longrightarrow>
        ak_id k = i \<and> ak_domain k = d \<and> inner (mk_byHash s) d (ak_hash k) = Some k) \<and>
     (\<forall>d h k. inner (mk_byHash s) d h = Some k \<longrightarrow> ak_hash k = h \<and> inner (mk_byID s) d (ak_id k) = Some k)"

lemma inner_upd: "inner (m(d \<mapsto> n)) d' = (if d' = d then n else inner m d')"
  by (simp add: inner_def)

lemma mem_keys_okD:
  assumes "mem_keys_ok s"
  shows "inner (mk_byID s) d i = Some k \<Longrightarrow> ak_id k = i \<and> ak_domain k = d \<and> inner (mk_byHash s) d (ak_hash k) = Some k"
    and "inner (mk_byHash s) d h = Some k \<Longrightarrow> ak_hash k = h \<and> inner (mk_byID s) d (ak_id k) = Some k"
  using assms unfolding mem_keys_ok_def by blast+

text \<open>
  Putting a key under its id and its digest keeps the agreement when the entries it replaces are those of
  one key with this id and this digest, or nothing.
\<close>

lemma mem_keys_ok_put:
  assumes ok: "mem_keys_ok s"
    and old: "\<And>x. inner (mk_byID s) (ak_domain k) (ak_id k) = Some x \<Longrightarrow> ak_hash x = ak_hash k"
      "\<And>x. inner (mk_byHash s) (ak_domain k) (ak_hash k) = Some x \<Longrightarrow> ak_id x = ak_id k"
    and s': "\<And>d i. inner (mk_byID s') d i = (if d = ak_domain k \<and> i = ak_id k then Some k else inner (mk_byID s) d i)"
      "\<And>d h. inner (mk_byHash s') d h = (if d = ak_domain k \<and> h = ak_hash k then Some k else inner (mk_byHash s) d h)"
  shows "mem_keys_ok s'"
  unfolding mem_keys_ok_def
proof (intro conjI allI impI)
  fix d i x
  assume x: "inner (mk_byID s') d i = Some x"
  consider "d = ak_domain k" "i = ak_id k" "x = k" | "\<not> (d = ak_domain k \<and> i = ak_id k)" "inner (mk_byID s) d i = Some x"
    using x unfolding s' by (auto split: if_splits)
  then show "ak_id x = i" "ak_domain x = d" "inner (mk_byHash s') d (ak_hash x) = Some x"
    using mem_keys_okD(1) [OF ok, of d i x] old(2) [of x] by (cases; auto simp: s')+
next
  fix d h x
  assume x: "inner (mk_byHash s') d h = Some x"
  consider "d = ak_domain k" "h = ak_hash k" "x = k" | "\<not> (d = ak_domain k \<and> h = ak_hash k)" "inner (mk_byHash s) d h = Some x"
    using x unfolding s' by (auto split: if_splits)
  then show "ak_hash x = h" "inner (mk_byID s') d (ak_id x) = Some x"
    using mem_keys_okD(2) [OF ok, of d h x] old(1) [of x] by (cases; auto simp: s')+
qed

lemma memkeys_create_done:
  assumes ok: "mem_keys_ok s" and new: "inner (mk_byID s) (ak_domain k) (ak_id k) = None"
    and cr: "memkeys_Create k s = (Inr u, s')"
  shows "mem_keys_ok s' \<and>
     (\<forall>d i. inner (mk_byID s') d i = (if d = ak_domain k \<and> i = ak_id k then Some k else inner (mk_byID s) d i))"
proof -
  have h: "inner (mk_byHash s) (ak_domain k) (ak_hash k) = None"
    using cr by (auto simp: memkeys_Create_def Let_def split: if_splits)
  have s': "inner (mk_byID s') d i = (if d = ak_domain k \<and> i = ak_id k then Some k else inner (mk_byID s) d i)"
    "inner (mk_byHash s') d hh = (if d = ak_domain k \<and> hh = ak_hash k then Some k else inner (mk_byHash s) d hh)" for d i hh
    using cr by (auto simp: memkeys_Create_def Let_def inner_upd split: if_splits)
  show ?thesis using mem_keys_ok_put [OF ok _ _ s'] new h s'(1) by simp
qed

lemma memkeys_update_done:
  assumes ok: "mem_keys_ok s" and keep: "keeps_identity f" and up: "memkeys_Update ref f s = (Inr k', s')"
  shows "mem_keys_ok s' \<and> (\<exists>k. inner (mk_byID s) (ref_domain ref) (ref_id ref) = Some k \<and> f k = Inr k') \<and>
     (\<forall>d i. inner (mk_byID s') d i = (if d = ref_domain ref \<and> i = ref_id ref then Some k' else inner (mk_byID s) d i))"
proof -
  let ?d = "ref_domain ref" and ?i = "ref_id ref"
  obtain k where k: "inner (mk_byID s) ?d ?i = Some k" "f k = Inr k'"
    and u: "mk_byID s' = (mk_byID s)(?d \<mapsto> (inner (mk_byID s) ?d)(?i \<mapsto> k'))"
      "mk_byHash s' = (mk_byHash s)(?d \<mapsto> (inner (mk_byHash s) ?d)(ak_hash k \<mapsto> k'))"
    using up by (auto simp: memkeys_Update_def Let_def split: option.splits sum.splits)
  have id: "ak_id k' = ?i" "ak_domain k' = ?d" "ak_hash k' = ak_hash k"
    using keep k mem_keys_okD(1) [OF ok k(1)] by (auto simp: keeps_identity_def)
  have s': "inner (mk_byID s') d i = (if d = ak_domain k' \<and> i = ak_id k' then Some k' else inner (mk_byID s) d i)"
    "inner (mk_byHash s') d hh = (if d = ak_domain k' \<and> hh = ak_hash k' then Some k' else inner (mk_byHash s) d hh)" for d i hh
    by (simp_all add: u inner_upd id)
  have "mem_keys_ok s'"
    using mem_keys_okD(1) [OF ok k(1)] k(1) by (intro mem_keys_ok_put [OF ok _ _ s']) (auto simp: id)
  then show ?thesis using k s'(1) by (auto simp: id)
qed

interpretation mem_keys: key_repository mem_key_repo "\<lambda>_. True" mem_keys_ok "\<lambda>s. inner (mk_byID s)"
  "\<lambda>k s. inner (mk_byID s) (ak_domain k) (ak_id k) = None" "\<lambda>t. t"
proof unfold_locales
  fix c :: map_range and k s e s' u
  show "kr_create (mem_key_repo c) k s = (Inl e, s') \<Longrightarrow> s' = s"
    by (auto simp: mem_key_repo_def memkeys_Create_def Let_def split: if_splits)
  show "mem_keys_ok s \<Longrightarrow> inner (mk_byID s) (ak_domain k) (ak_id k) = None \<Longrightarrow>
      kr_create (mem_key_repo c) k s = (Inr u, s') \<Longrightarrow>
      mem_keys_ok s' \<and> inner (mk_byID s) (ak_domain k) (ak_id k) = None \<and>
      (\<exists>k'. stored_as (\<lambda>t. t) k k' \<and>
        (\<forall>d i. inner (mk_byID s') d i = (if d = ak_domain k \<and> i = ak_id k then Some k' else inner (mk_byID s) d i)))"
    using memkeys_create_done [of s k u s'] by (auto simp: mem_key_repo_def stored_as_def option.map_ident)
next
  fix c :: map_range and ref f s e s' k'
  show "kr_update (mem_key_repo c) ref f s = (Inl e, s') \<Longrightarrow> s' = s"
    by (auto simp: mem_key_repo_def memkeys_Update_def Let_def split: option.splits sum.splits)
  show "mem_keys_ok s \<Longrightarrow> keeps_identity f \<Longrightarrow> kr_update (mem_key_repo c) ref f s = (Inr k', s') \<Longrightarrow>
      mem_keys_ok s' \<and> (\<exists>k k''. inner (mk_byID s) (ref_domain ref) (ref_id ref) = Some k \<and> f k = Inr k' \<and>
        stored_as (\<lambda>t. t) k' k'' \<and>
        (\<forall>d i. inner (mk_byID s') d i = (if d = ref_domain ref \<and> i = ref_id ref then Some k'' else inner (mk_byID s) d i)))"
    using memkeys_update_done [of s f ref k' s'] by (auto simp: mem_key_repo_def stored_as_def option.map_ident)
  show "is_ok (fst (kr_update (mem_key_repo c) ref f s)) \<longleftrightarrow>
      True \<and> (\<exists>k. inner (mk_byID s) (ref_domain ref) (ref_id ref) = Some k \<and> is_ok (f k))"
    by (simp add: mem_key_repo_def memkeys_Update_def Let_def is_ok_def split: option.split sum.split)
next
  fix c :: map_range and d h s k ref
  assume ok: "mem_keys_ok s"
  show "kr_by_hash (mem_key_repo c) d h s = Inr k \<longleftrightarrow> True \<and> (\<exists>i. inner (mk_byID s) d i = Some k \<and> ak_hash k = h)"
    using mem_keys_okD(1) [OF ok, of d _ k] mem_keys_okD(2) [OF ok, of d h k]
    by (auto simp: mem_key_repo_def memkeys_GetByKeyHash_def split: option.splits)
  show "kr_by_id (mem_key_repo c) ref s = Inr k \<longleftrightarrow> True \<and> inner (mk_byID s) (ref_domain ref) (ref_id ref) = Some k"
    by (auto simp: mem_key_repo_def memkeys_GetByID_def split: option.splits)
next
  fix s d i j k k'
  assume ok: "mem_keys_ok s" and s: "inner (mk_byID s) d i = Some k" "inner (mk_byID s) d j = Some k'"
    and h: "ak_hash k = ak_hash k'"
  have "inner (mk_byHash s) d (ak_hash k) = Some k" "inner (mk_byHash s) d (ak_hash k') = Some k'" "ak_id k = i" "ak_id k' = j"
    using mem_keys_okD(1) [OF ok s(1)] mem_keys_okD(1) [OF ok s(2)] by simp_all
  then show "i = j" using h by (metis option.inject)
qed simp

section \<open>What a key is good for, and for how long\<close>

lemma ascii_trim_nonblank:
  assumes "c \<in> set s" and "\<not> space_char c"
  shows "ascii_trim s \<noteq> []"
proof -
  have "dropWhile space_char s \<noteq> []" using assms by (auto simp: dropWhile_eq_Nil_conv)
  then obtain x xs where x: "dropWhile space_char s = x # xs" by (meson neq_Nil_conv)
  then have "\<not> space_char x" by (metis hd_dropWhile list.distinct(1) list.sel(1))
  then have "x \<in> set (rev (dropWhile space_char s)) \<and> \<not> space_char x" using x by simp
  then show ?thesis by (auto simp: ascii_trim_def dropWhile_eq_Nil_conv)
qed

lemma key_principal_Some:
  assumes "canonical_name (ak_domain k)" and "all_ascii (ak_id k)"
  shows "\<exists>p. key_principal U k = Some p"
proof -
  obtain d where d: "ak_domain k = DomainName d" by (cases "ak_domain k")
  have al: "list_all isAllowed d" and ne: "d \<noteq> []" using assms(1) by (auto simp: d canonical_name_def canonical_def)
  have g: "grant_issued \<lparr>g_role = RoleSender, g_anchor = DomainAnchor (DomainName d)\<rparr>"
    using ne by (simp add: grant_issued_def DomainAnchor_def anchor_kind_def anchor_wf_def isLiteral_def literalSegment_def
        segDomains_def isGrantable_def scope_accepts_def sender_role_def)
  have asc: "all_ascii (ak_id k @ ''@'' @ d)"
  proof -
    have "list_all ascii d" using al by (auto simp: list_all_iff isAllowed_ascii)
    then show ?thesis using assms(2) by (simp add: all_ascii_def ascii_def)
  qed
  have "ascii_trim (ak_id k @ ''@'' @ d) \<noteq> []"
    by (rule ascii_trim_nonblank [where c = "CHR ''@''"]) (auto simp: space_char_def)
  with asc have "trim_space U (ak_id k @ ''@'' @ d) \<noteq> []" by (simp only: trim_space_def if_True not_False_eq_True)
  moreover have "NewGrant RoleSender (DomainAnchor (DomainName d)) = Inr \<lparr>g_role = RoleSender, g_anchor = DomainAnchor (DomainName d)\<rparr>"
    using g by (simp only: NewGrant_Inr_iff simp_thms)
  ultimately show ?thesis by (simp add: key_principal_def NewPrincipal_def d)
qed

lemma key_principal_Can:
  assumes "key_principal U k = Some p"
  shows "Can p a r \<longleftrightarrow> a = Create \<and> resource_wf (DomainR (ak_domain k)) \<and> resource_wf r \<and> beneath (Batches (ak_domain k)) r"
proof -
  have "p_grants p = [\<lparr>g_role = RoleSender, g_anchor = AnchorOf (DomainR (ak_domain k))\<rparr>]"
    using assms by (auto simp: key_principal_def NewPrincipal_def NewGrant_Inr_iff DomainAnchor_AnchorOf split: sum.splits if_splits)
  then show ?thesis
    by (auto simp: Can_grants_on grants_on_AnchorOf DomainR_def Batches_def under_def)
qed

text \<open>The operations of the service name Domains, not the zero value.\<close>

fun op_named :: "'c key_op \<Rightarrow> bool" where
  "op_named (OpCreate c m x d name exp) \<longleftrightarrow> canonical_name d"
| "op_named (OpDeactivate c now x ref) \<longleftrightarrow> True"

lemma sql_op_tracks:
  assumes "keys_ok t" and "sql_keys.tracks ref h e b t" and "op_named op"
  shows "keys_ok (snd (run_key_op digest (sql_key_repo U) op (recs, t))) \<and>
     sql_keys.tracks ref h e (b \<and> \<not> revokes kc_up ref op) (snd (run_key_op digest (sql_key_repo U) op (recs, t)))"
  using assms NewAPIKey_fresh by (intro sql_keys.op_tracks) auto

lemma sql_run_tracks:
  "keys_ok t \<Longrightarrow> sql_keys.tracks ref h e b t \<Longrightarrow> list_all op_named ops \<Longrightarrow>
     (let t' = snd (fold (run_key_op digest (sql_key_repo U)) ops (recs, t)) in
      keys_ok t' \<and> sql_keys.tracks ref h e (b \<and> \<not> list_ex (revokes kc_up ref) ops) t')"
proof (induction ops arbitrary: recs t b)
  case (Cons op ops)
  obtain recs1 t1 where r: "run_key_op digest (sql_key_repo U) op (recs, t) = (recs1, t1)" by (metis surj_pair)
  have "keys_ok t1 \<and> sql_keys.tracks ref h e (b \<and> \<not> revokes kc_up ref op) t1"
    using sql_op_tracks [of t ref h e b op digest U recs] Cons.prems r by simp
  then show ?case using Cons.IH [of t1 "b \<and> \<not> revokes kc_up ref op" recs1] Cons.prems(3) r by (simp add: Let_def conj_assoc)
qed simp

text \<open>
  C29. What a presented secret is worth.  A key authenticates for a Domain exactly when the database answers
  and holds, for that very Domain, a row with its digest that is active and not past its expiry; every other
  case - a wrong secret, another Domain's key, a revoked or expired one, a database that is down - gives the
  one error, so nothing of what exists can be told from it.  The key that authenticates is that row, and the
  Principal made of it may create Batches of its own Domain and nothing else whatever.
\<close>

theorem key_authenticates:
  assumes "keys_ok t"
  shows "(ValidateForAuth digest (sql_key_repo U c) now d secret t = Inr k \<longleftrightarrow>
       kc_up c \<and> (\<exists>r\<in>set t. akr_hash r = digest secret \<and> akr_domain r = dn_string d \<and> akr_active r \<and>
          key_valid_at now (akr_expires r) \<and> k = key_entity r)) \<and>
     (ValidateForAuth digest (sql_key_repo U c) now d secret t = Inl e \<longrightarrow> e = ErrKeyNotFound) \<and>
     (ValidateForAuth digest (sql_key_repo U c) now d secret t = Inr k \<and> all_ascii (ak_id k) \<longrightarrow>
        (\<exists>p. key_principal U k = Some p \<and>
           (\<forall>a r. Can p a r \<longleftrightarrow> a = Create \<and> resource_wf r \<and> beneath (Batches d) r)))"
proof (intro conjI impI)
  have iff: "ValidateForAuth digest (sql_key_repo U c) now d secret t = Inr k \<longleftrightarrow>
      kc_up c \<and> (\<exists>r\<in>set t. akr_hash r = digest secret \<and> akr_domain r = dn_string d \<and> k = key_entity r) \<and> IsValid now k"
    unfolding sql_keys.auth_iff [OF assms] sql_stored_hash [OF assms] ..
  also have "\<dots> \<longleftrightarrow> kc_up c \<and> (\<exists>r\<in>set t. akr_hash r = digest secret \<and> akr_domain r = dn_string d \<and> akr_active r \<and>
          key_valid_at now (akr_expires r) \<and> k = key_entity r)"
    by (auto simp: IsValid_iff key_entity_def)
  finally show main: "ValidateForAuth digest (sql_key_repo U c) now d secret t = Inr k \<longleftrightarrow> \<dots>" .
  show "ValidateForAuth digest (sql_key_repo U c) now d secret t = Inl e \<Longrightarrow> e = ErrKeyNotFound"
    by (auto simp: ValidateForAuth_def split: sum.splits if_splits)
  assume v: "ValidateForAuth digest (sql_key_repo U c) now d secret t = Inr k \<and> all_ascii (ak_id k)"
  then have d: "ak_domain k = d" and "\<exists>r\<in>set t. akr_domain r = dn_string d"
    using iff by (cases d; auto simp: key_entity_def)+
  then have can: "canonical_name d" using assms by (auto simp: keys_ok_def list_all_iff canonical_name_def)
  then have "resource_wf (DomainR d)"
    using canonical_name_nonzero [OF can] by (auto simp: resource_wf_def DomainR_def seg_defs)
  then show "\<exists>p. key_principal U k = Some p \<and>
           (\<forall>a r. Can p a r \<longleftrightarrow> a = Create \<and> resource_wf r \<and> beneath (Batches d) r)"
    using key_principal_Some [of k U] key_principal_Can [of U k] can v unfolding d by metis
qed

text \<open>
  C13. The life of an API key, from the call that makes it through any later use of the service.  Creating it
  takes a Principal that may create keys of the Domain.  From then on, after any sequence of creations and
  deactivations by anybody, the secret authenticates for the Domain exactly when the database answers, its
  expiry (as the database keeps it, whole microseconds) is not past and no deactivation naming this key and
  its Domain was run by a Principal that may delete it; so a revoked key never comes back.
\<close>

theorem key_lifecycle:
  assumes "keys_ok t" and "canonical_name d" and "list_all op_named ops"
    and created: "CreateKey digest (sql_key_repo U c) m x d name exp recs t = (Inr res, recs', t')"
  shows "permitted x Create (APIKeys d) \<and>
     (is_ok (ValidateForAuth digest (sql_key_repo U c') now d (cr_plaintext res)
        (snd (fold (run_key_op digest (sql_key_repo U)) ops (recs', t')))) \<longleftrightarrow>
      kc_up c' \<and> key_valid_at now (map_option pg_timestamp exp) \<and>
      \<not> list_ex (revokes kc_up (NewKeyRef d (ak_id (cr_key res)))) ops)"
proof -
  let ?ref = "NewKeyRef d (ak_id (cr_key res))"
  have p: "permitted x Create (APIKeys d)" and n: "NewAPIKey digest m d name exp = Inr res"
    and k: "kr_create (sql_key_repo U c) (cr_key res) t = (Inr (), t')"
    using created by (auto simp: CreateKey_def Guard_cases split: if_splits sum.splits prod.splits)
  have "keys_ok t' \<and> sql_keys.tracks ?ref (digest (cr_plaintext res)) exp True t'"
    using sql_keys.created_tracks [OF assms(1) _ k] NewAPIKey_key [OF n] NewAPIKey_fresh [OF n] assms(2) by simp
  then have "keys_ok (snd (fold (run_key_op digest (sql_key_repo U)) ops (recs', t'))) \<and>
      sql_keys.tracks ?ref (digest (cr_plaintext res)) exp (\<not> list_ex (revokes kc_up ?ref) ops)
        (snd (fold (run_key_op digest (sql_key_repo U)) ops (recs', t')))"
    using sql_run_tracks [of t' ?ref "digest (cr_plaintext res)" exp True ops digest U recs'] assms(3)
    by (simp add: Let_def)
  then show ?thesis
    using sql_keys.tracked_auth [of _ ?ref digest "cr_plaintext res" exp _ U c' now] p
    by (auto simp: NewKeyRef_def)
qed

definition example_key_call :: key_call where
  "example_key_call = \<lparr>kc_up = True, kc_now = 5000, kc_admits = (\<lambda>r. True), kc_order = (\<lambda>rs. rs)\<rparr>"

definition example_material :: key_material where
  "example_material = \<lparr>km_now = 4000, km_cuid = ''c1'', km_random = Some ''0123456789''\<rparr>"

definition admin_ctx :: ctx where
  "admin_ctx = \<lparr>c_principal = Some root_admin, c_now = 4000\<rparr>"

definition nobody_ctx :: ctx where
  "nobody_ctx = \<lparr>c_principal = None, c_now = 4000\<rparr>"

definition example_key_row :: api_key_row where
  "example_key_row =
     \<lparr>akr_id = ''key_c1'', akr_name = ''k'', akr_domain = ''k.dev'', akr_created = 0, akr_expires = Some 9000,
      akr_active = True, akr_deactivated = None, akr_hash = ''secret'', akr_prefix = ''secret''\<rparr>"

lemma key_authenticates_witness:
  "ValidateForAuth (\<lambda>s. s) (sql_key_repo no_unicode example_key_call) 8000 (DomainName ''k.dev'') ''secret'' [example_key_row] =
     Inr (key_entity example_key_row) \<and>
   (\<exists>p. key_principal no_unicode (key_entity example_key_row) = Some p \<and> Can p Create (Batches (DomainName ''k.dev'')))"
proof -
  have ok: "keys_ok [example_key_row]" by code_simp
  have r: "kc_up example_key_call" "akr_hash example_key_row = ''secret''" "akr_domain example_key_row = ''k.dev''"
      "akr_active example_key_row" "key_valid_at 8000 (akr_expires example_key_row)" "all_ascii (ak_id (key_entity example_key_row))"
    by code_simp+
  have wf: "resource_wf (Batches (DomainName ''k.dev''))" "beneath (Batches (DomainName ''k.dev'')) (Batches (DomainName ''k.dev''))"
    by code_simp+
  note a = key_authenticates [OF ok, where digest = "\<lambda>s. s" and U = no_unicode and c = example_key_call and now = 8000
      and d = "DomainName ''k.dev''" and secret = "''secret''" and k = "key_entity example_key_row"]
  have v: "ValidateForAuth (\<lambda>s. s) (sql_key_repo no_unicode example_key_call) 8000 (DomainName ''k.dev'') ''secret'' [example_key_row] =
     Inr (key_entity example_key_row)"
    using a r by simp
  then show ?thesis using a r(6) wf by blast
qed

lemma key_lifecycle_witness:
  "\<exists>res recs t. CreateKey (\<lambda>s. s) (sql_key_repo no_unicode example_key_call) example_material admin_ctx (DomainName ''k.dev'')
       ''k'' (Some 9500) [] [] = (Inr res, recs, t) \<and>
     is_ok (ValidateForAuth (\<lambda>s. s) (sql_key_repo no_unicode example_key_call) 9000 (DomainName ''k.dev'') (cr_plaintext res)
       (snd (fold (run_key_op (\<lambda>s. s) (sql_key_repo no_unicode))
         [OpDeactivate example_key_call 4000 nobody_ctx (NewKeyRef (DomainName ''k.dev'') ''key_c1'')] (recs, t)))) \<and>
     \<not> is_ok (ValidateForAuth (\<lambda>s. s) (sql_key_repo no_unicode example_key_call) 9001 (DomainName ''k.dev'') (cr_plaintext res) t)"
proof -
  have d: "canonical_name (DomainName ''k.dev'')" and t: "keys_ok []" by code_simp+
  obtain r recs t where cr: "CreateKey (\<lambda>s. s) (sql_key_repo no_unicode example_key_call) example_material admin_ctx
      (DomainName ''k.dev'') ''k'' (Some 9500) [] [] = (r, recs, t)" by (metis surj_pair)
  have "is_ok (fst (CreateKey (\<lambda>s. s) (sql_key_repo no_unicode example_key_call) example_material admin_ctx
      (DomainName ''k.dev'') ''k'' (Some 9500) [] []))" by code_simp
  then obtain res where res: "r = Inr res" by (auto simp: cr is_ok_iff)
  have up: "kc_up example_key_call" "\<not> permitted nobody_ctx Delete (key_resource (NewKeyRef (DomainName ''k.dev'') ''key_c1''))"
      "key_valid_at 9000 (map_option pg_timestamp (Some 9500))" "\<not> key_valid_at 9001 (map_option pg_timestamp (Some 9500))"
    by code_simp+
  note life = key_lifecycle [OF t d _ cr [unfolded res], where c' = example_key_call]
  show ?thesis
    using cr life [of "[OpDeactivate example_key_call 4000 nobody_ctx (NewKeyRef (DomainName ''k.dev'') ''key_c1'')]" 9000]
      life [of "[]" 9001] up by (auto simp: res)
qed

end
