(* ===== verification/Domains.thy ===== *)
theory Domains
  imports Authz Tracking
begin

text \<open>
  \<open>internal/domains\<close> with its repository (\<open>internal/db/domains_repo.go\<close> over the statements of
  \<open>q.sql.go\<close>): the tenants, their DKIM keys and the ceiling of their Tracking Policy.  The generator of key
  pairs is not part of the tree, so the pair it gave (or its failure) is an argument.  A \<open>domain_call\<close> is
  what a statement meets: whether the database answers and the rows its constraints admit.
\<close>

record Domain =
  do_id :: nat
  do_name :: DomainName
  do_private :: string
  do_public :: string
  do_created :: go_time
  do_tracking :: policy

datatype domain_error = ErrDomainNotFound | DomainKeysFailed | DomainRowNotCanonical | DomainDbError

text \<open>\<open>domains.New\<close> and \<open>domains.Load\<close>; the id, the time and the policy come from the database.\<close>

definition NewDomain :: "DomainName \<Rightarrow> (string \<times> string) option \<Rightarrow> domain_error + Domain" where
  "NewDomain name pair =
     (case pair of
        None \<Rightarrow> Inl DomainKeysFailed
      | Some (priv, pub) \<Rightarrow>
          Inr \<lparr>do_id = 0, do_name = name, do_private = priv, do_public = pub, do_created = 0, do_tracking = zero_policy\<rparr>)"

record domain_row =
  dr_id :: nat
  dr_domain :: string
  dr_created :: go_time
  dr_private :: string
  dr_public :: string
  dr_tracking :: policy

record domain_table =
  dt_rows :: "domain_row list" \<comment> \<open>by id\<close>
  dt_next :: nat

record domain_call =
  dc_up :: bool
  dc_now :: go_time
  dc_admits :: "domain_row \<Rightarrow> bool"

section \<open>The statements\<close>

text \<open>The column's default: both axes identified.\<close>

definition default_ceiling :: policy where
  "default_ceiling = \<lparr>opens = ModeIdentified, links = ModeIdentified\<rparr>"

definition sqlCreateDomain ::
  "domain_call \<Rightarrow> string \<Rightarrow> string \<Rightarrow> string \<Rightarrow> domain_table \<Rightarrow> (domain_error + domain_row) \<times> domain_table" where
  "sqlCreateDomain c name priv pub t =
     (let row = \<lparr>dr_id = dt_next t, dr_domain = name, dr_created = dc_now c, dr_private = priv, dr_public = pub,
                 dr_tracking = default_ceiling\<rparr> in
      if \<not> dc_up c \<or> name \<in> dr_domain ` set (dt_rows t) \<or> \<not> canonical name \<or> \<not> dc_admits c row
      then (Inl DomainDbError, t)
      else (Inr row, t\<lparr>dt_rows := dt_rows t @ [row], dt_next := dt_next t + 1\<rparr>))"

definition sqlFindDomain :: "string \<Rightarrow> domain_table \<Rightarrow> domain_row option" where
  "sqlFindDomain name t = List.find (\<lambda>r. dr_domain r = name) (dt_rows t)"

definition sqlGetAllDomains :: "domain_table \<Rightarrow> domain_row list" where
  "sqlGetAllDomains t = dt_rows t"

definition sqlSetDomainTracking :: "string \<Rightarrow> policy \<Rightarrow> domain_table \<Rightarrow> domain_row option \<times> domain_table" where
  "sqlSetDomainTracking name p t =
     (let t' = t\<lparr>dt_rows := map (\<lambda>r. if dr_domain r = name then r\<lparr>dr_tracking := p\<rparr> else r) (dt_rows t)\<rparr> in
      (sqlFindDomain name t', t'))"

section \<open>The repository\<close>

definition rowToDomain :: "unicode \<Rightarrow> domain_row \<Rightarrow> domain_error + Domain" where
  "rowToDomain U row =
     (case parse U (dr_domain row) of
        Inl _ \<Rightarrow> Inl DomainRowNotCanonical
      | Inr name \<Rightarrow>
          Inr \<lparr>do_id = dr_id row, do_name = name, do_private = dr_private row, do_public = dr_public row,
               do_created = dr_created row, do_tracking = Normalized (dr_tracking row)\<rparr>)"

text \<open>A successful \<open>Create\<close> gives the Domain back as the database keeps it.\<close>

definition domains_Create ::
  "unicode \<Rightarrow> domain_call \<Rightarrow> Domain \<Rightarrow> domain_table \<Rightarrow> (domain_error + Domain) \<times> domain_table" where
  "domains_Create U c d t =
     (case sqlCreateDomain c (dn_string (do_name d)) (do_private d) (do_public d) t of
        (Inl e, t') \<Rightarrow> (Inl e, t')
      | (Inr row, t') \<Rightarrow> (rowToDomain U row, t'))"

definition domains_SetTrackingPolicy ::
  "unicode \<Rightarrow> domain_call \<Rightarrow> DomainName \<Rightarrow> policy \<Rightarrow> domain_table \<Rightarrow> (domain_error + Domain) \<times> domain_table" where
  "domains_SetTrackingPolicy U c name p t =
     (if \<not> dc_up c then (Inl DomainDbError, t)
      else case sqlSetDomainTracking (dn_string name) (Normalized p) t of
        (None, t') \<Rightarrow> (Inl ErrDomainNotFound, t')
      | (Some row, t') \<Rightarrow> (rowToDomain U row, t'))"

definition domains_FindByName ::
  "unicode \<Rightarrow> domain_call \<Rightarrow> DomainName \<Rightarrow> domain_table \<Rightarrow> domain_error + Domain" where
  "domains_FindByName U c name t =
     (if \<not> dc_up c then Inl DomainDbError
      else case sqlFindDomain (dn_string name) t of
        None \<Rightarrow> Inl ErrDomainNotFound
      | Some row \<Rightarrow> rowToDomain U row)"

fun load_domains :: "unicode \<Rightarrow> domain_row list \<Rightarrow> domain_error + Domain list" where
  "load_domains U [] = Inr []"
| "load_domains U (r # rs) = bindR (rowToDomain U r) (\<lambda>d. bindR (load_domains U rs) (\<lambda>ds. Inr (d # ds)))"

definition domains_List :: "unicode \<Rightarrow> domain_call \<Rightarrow> domain_table \<Rightarrow> domain_error + Domain list" where
  "domains_List U c t = (if \<not> dc_up c then Inl DomainDbError else load_domains U (sqlGetAllDomains t))"

section \<open>The service\<close>

definition CreateDomain ::
  "unicode \<Rightarrow> domain_call \<Rightarrow> (string \<times> string) option \<Rightarrow> ctx \<Rightarrow> DomainName \<Rightarrow> Decision list \<Rightarrow> domain_table \<Rightarrow>
     (domain_error guarded_error + Domain) \<times> Decision list \<times> domain_table" where
  "CreateDomain U c pair x name =
     Guard x Create Domains (\<lambda>t.
       case NewDomain name pair of Inl e \<Rightarrow> (Inl e, t) | Inr d \<Rightarrow> domains_Create U c d t)"

definition GetDomains ::
  "unicode \<Rightarrow> domain_call \<Rightarrow> ctx \<Rightarrow> Decision list \<Rightarrow> domain_table \<Rightarrow>
     (domain_error guarded_error + Domain list) \<times> Decision list \<times> domain_table" where
  "GetDomains U c x = Guard x List Domains (\<lambda>t. (domains_List U c t, t))"

definition GetDomain ::
  "unicode \<Rightarrow> domain_call \<Rightarrow> ctx \<Rightarrow> DomainName \<Rightarrow> Decision list \<Rightarrow> domain_table \<Rightarrow>
     (domain_error guarded_error + Domain) \<times> Decision list \<times> domain_table" where
  "GetDomain U c x name = Guard x Read (DomainR name) (\<lambda>t. (domains_FindByName U c name t, t))"

definition SetTrackingPolicy ::
  "unicode \<Rightarrow> domain_call \<Rightarrow> ctx \<Rightarrow> DomainName \<Rightarrow> policy \<Rightarrow> Decision list \<Rightarrow> domain_table \<Rightarrow>
     (domain_error guarded_error + Domain) \<times> Decision list \<times> domain_table" where
  "SetTrackingPolicy U c x name p = Guard x Update (DomainR name) (domains_SetTrackingPolicy U c name p)"

section \<open>The ceiling of a Domain\<close>

definition domains_ok :: "domain_table \<Rightarrow> bool" where
  "domains_ok t \<longleftrightarrow>
     distinct (map dr_domain (dt_rows t)) \<and> list_all canonical (map dr_domain (dt_rows t)) \<and>
     sorted_wrt (<) (map dr_id (dt_rows t)) \<and> list_all (\<lambda>i. i < dt_next t) (map dr_id (dt_rows t))"

lemma Domain_names_inject:
  "domains_ok t \<Longrightarrow> x \<in> set (dt_rows t) \<Longrightarrow> y \<in> set (dt_rows t) \<Longrightarrow> dr_domain x = dr_domain y \<Longrightarrow> x = y"
  by (auto simp: domains_ok_def distinct_map dest: inj_onD)

text \<open>What the tenant table says of a name: its ceiling, if it is a tenant.\<close>

definition ceiling_of :: "DomainName \<Rightarrow> domain_table \<Rightarrow> policy option" where
  "ceiling_of name t = map_option (\<lambda>r. Normalized (dr_tracking r)) (sqlFindDomain (dn_string name) t)"

lemma sqlFindDomain_set:
  "sqlFindDomain n (snd (sqlSetDomainTracking name p t)) =
     map_option (\<lambda>r. if n = name then r\<lparr>dr_tracking := p\<rparr> else r) (sqlFindDomain n t)"
  unfolding sqlSetDomainTracking_def sqlFindDomain_def Let_def
  by (auto simp: find_map_same find_Some_iff split: option.splits intro: option.map_cong)

lemma domains_ok_set:
  assumes "domains_ok t"
  shows "domains_ok (snd (sqlSetDomainTracking name p t))" (is "domains_ok ?t")
proof -
  have "map dr_domain (dt_rows ?t) = map dr_domain (dt_rows t)" "map dr_id (dt_rows ?t) = map dr_id (dt_rows t)"
      "dt_next ?t = dt_next t"
    by (simp_all add: sqlSetDomainTracking_def Let_def)
  with assms show ?thesis by (simp only: domains_ok_def)
qed

lemma domains_ok_create:
  "domains_ok t \<Longrightarrow> sqlCreateDomain c name priv pub t = (r, t') \<Longrightarrow> domains_ok t'"
  by (auto simp: sqlCreateDomain_def domains_ok_def Let_def list_all_iff sorted_wrt_append less_Suc_eq split: if_splits)

lemma ceiling_create:
  "sqlCreateDomain c n priv pub t = (r, t') \<Longrightarrow> ceiling_of name t = Some p \<Longrightarrow> ceiling_of name t' = Some p"
  by (auto simp: sqlCreateDomain_def ceiling_of_def sqlFindDomain_def Let_def find_snoc split: if_splits option.splits)

lemma ceiling_set:
  "ceiling_of n (snd (sqlSetDomainTracking (dn_string name) (Normalized p) t)) =
     (if n = name then map_option (\<lambda>_. Normalized p) (ceiling_of n t) else ceiling_of n t)"
  by (cases n; cases name) (auto simp: ceiling_of_def sqlFindDomain_set option.map_comp o_def Normalized_idem)

text \<open>The operations of the service that write.\<close>

datatype domain_op =
    OpCreateDomain domain_call "(string \<times> string) option" ctx DomainName
  | OpSetTracking domain_call ctx DomainName policy

fun run_domain_op :: "unicode \<Rightarrow> domain_op \<Rightarrow> Decision list \<times> domain_table \<Rightarrow> Decision list \<times> domain_table" where
  "run_domain_op U (OpCreateDomain c pair x n) (recs, t) = snd (CreateDomain U c pair x n recs t)"
| "run_domain_op U (OpSetTracking c x n p) (recs, t) = snd (SetTrackingPolicy U c x n p recs t)"

text \<open>What one of them makes of the ceiling of a tenant.\<close>

fun new_ceiling :: "DomainName \<Rightarrow> domain_op \<Rightarrow> policy \<Rightarrow> policy" where
  "new_ceiling name (OpCreateDomain c pair x n) p = p"
| "new_ceiling name (OpSetTracking c x n q) p =
     (if n = name \<and> dc_up c \<and> permitted x Update (DomainR n) then Normalized q else p)"

lemma domains_Create_cases:
  "\<exists>r. sqlCreateDomain c (dn_string (do_name d)) (do_private d) (do_public d) t = (r, snd (domains_Create U c d t))"
  by (cases "sqlCreateDomain c (dn_string (do_name d)) (do_private d) (do_public d) t")
     (auto simp: domains_Create_def split: sum.splits)

lemma domain_op_step:
  assumes "domains_ok t" and "ceiling_of name t = Some p"
  shows "domains_ok (snd (run_domain_op U op (recs, t))) \<and>
     ceiling_of name (snd (run_domain_op U op (recs, t))) = Some (new_ceiling name op p)"
proof (cases op)
  case (OpCreateDomain c pair x n)
  show ?thesis
  proof (cases "permitted x Create Domains \<and> is_ok (NewDomain n pair)")
    case True
    then obtain d where d: "NewDomain n pair = Inr d" by (auto simp: is_ok_iff)
    obtain r where "sqlCreateDomain c (dn_string (do_name d)) (do_private d) (do_public d) t = (r, snd (domains_Create U c d t))"
      using domains_Create_cases by blast
    then show ?thesis
      using True d domains_ok_create [OF assms(1)] ceiling_create [OF _ assms(2)]
      by (simp add: OpCreateDomain CreateDomain_def Guard_permitted)
  next
    case False
    then show ?thesis using assms by (cases "NewDomain n pair") (auto simp: OpCreateDomain CreateDomain_def Guard_cases)
  qed
next
  case (OpSetTracking c x n q)
  have t': "snd (domains_SetTrackingPolicy U c n q t) =
      (if dc_up c then snd (sqlSetDomainTracking (dn_string n) (Normalized q) t) else t)"
    by (auto simp: domains_SetTrackingPolicy_def sqlSetDomainTracking_def Let_def split: option.splits)
  show ?thesis
    using assms domains_ok_set [OF assms(1)]
    by (auto simp: OpSetTracking SetTrackingPolicy_def Guard_cases t' ceiling_set)
qed

lemma FindByName_ceiling:
  assumes "domains_ok t"
  shows "domains_FindByName U c name t = Inr d \<Longrightarrow>
     do_name d = name \<and> ceiling_of name t = Some (do_tracking d) \<and> Normalized (do_tracking d) = do_tracking d"
    and "dc_up c \<Longrightarrow> ceiling_of name t = Some p \<Longrightarrow> \<exists>d. domains_FindByName U c name t = Inr d \<and> do_tracking d = p"
proof -
  have p: "sqlFindDomain (dn_string name) t = Some r \<Longrightarrow> parse U (dr_domain r) = Inr name" for r
  proof -
    assume "sqlFindDomain (dn_string name) t = Some r"
    then have "r \<in> set (dt_rows t)" "dr_domain r = dn_string name" by (auto simp: sqlFindDomain_def find_Some_iff)
    then show ?thesis using assms by (cases name) (auto simp: domains_ok_def list_all_iff intro: parse_canonical)
  qed
  show "domains_FindByName U c name t = Inr d \<Longrightarrow>
     do_name d = name \<and> ceiling_of name t = Some (do_tracking d) \<and> Normalized (do_tracking d) = do_tracking d"
    using p by (auto simp: domains_FindByName_def rowToDomain_def ceiling_of_def Normalized_idem split: if_splits option.splits)
  show "dc_up c \<Longrightarrow> ceiling_of name t = Some p \<Longrightarrow> \<exists>d. domains_FindByName U c name t = Inr d \<and> do_tracking d = p"
    using p by (auto simp: domains_FindByName_def rowToDomain_def ceiling_of_def)
qed

text \<open>
  C23. A tenant's ceiling is the last one set on it.  After any sequence of Domain creations and policy
  updates by any callers, reading a tenant gives the Policy of the last update that named it, reached a
  database that answered and was asked by a Principal with Update on that very Domain - normalised, so that
  nothing unstated is ever kept - and the Policy it had before when there was none.  Names stay unique and
  canonical throughout.
\<close>

theorem ceiling_is_last_set:
  assumes "domains_ok t" and "ceiling_of name t = Some p"
  shows "let t' = snd (fold (run_domain_op U) ops (recs, t)); p' = fold (new_ceiling name) ops p in
     domains_ok t' \<and> ceiling_of name t' = Some p' \<and>
     (dc_up c \<longrightarrow> (\<exists>d. domains_FindByName U c name t' = Inr d \<and> do_name d = name \<and> do_tracking d = p'))"
proof -
  have run: "domains_ok t \<Longrightarrow> ceiling_of name t = Some p \<Longrightarrow>
      domains_ok (snd (fold (run_domain_op U) ops (recs, t))) \<and>
      ceiling_of name (snd (fold (run_domain_op U) ops (recs, t))) = Some (fold (new_ceiling name) ops p)" for t p recs
  proof (induction ops arbitrary: recs t p)
    case (Cons op ops)
    obtain recs1 t1 where r: "run_domain_op U op (recs, t) = (recs1, t1)" by (metis surj_pair)
    then show ?case using Cons.IH [of t1 "new_ceiling name op p" recs1] domain_op_step [OF Cons.prems, of U op recs] by simp
  qed simp
  show ?thesis unfolding Let_def using run [OF assms] FindByName_ceiling by blast
qed

definition example_domains :: domain_table where
  "example_domains =
     \<lparr>dt_rows = [\<lparr>dr_id = 1, dr_domain = ''k.dev'', dr_created = 0, dr_private = ''priv'', dr_public = ''pub'',
                  dr_tracking = default_ceiling\<rparr>], dt_next = 2\<rparr>"

definition example_domain_call :: domain_call where
  "example_domain_call = \<lparr>dc_up = True, dc_now = 0, dc_admits = (\<lambda>r. True)\<rparr>"

lemma ceiling_is_last_set_witness:
  "\<exists>d. domains_FindByName no_unicode example_domain_call (DomainName ''k.dev'')
      (snd (fold (run_domain_op no_unicode)
        [OpSetTracking example_domain_call \<lparr>c_principal = Some root_admin, c_now = 0\<rparr> (DomainName ''k.dev'')
           \<lparr>opens = ModeOff, links = ModeUnspecified\<rparr>,
         OpSetTracking example_domain_call \<lparr>c_principal = None, c_now = 0\<rparr> (DomainName ''k.dev'')
           \<lparr>opens = ModeFull, links = ModeFull\<rparr>] ([], example_domains))) = Inr d \<and>
     do_tracking d = \<lparr>opens = ModeOff, links = ModeOff\<rparr>"
proof -
  let ?ops = "[OpSetTracking example_domain_call \<lparr>c_principal = Some root_admin, c_now = 0\<rparr> (DomainName ''k.dev'')
           \<lparr>opens = ModeOff, links = ModeUnspecified\<rparr>,
         OpSetTracking example_domain_call \<lparr>c_principal = None, c_now = 0\<rparr> (DomainName ''k.dev'')
           \<lparr>opens = ModeFull, links = ModeFull\<rparr>]"
  have ok: "domains_ok example_domains" "ceiling_of (DomainName ''k.dev'') example_domains = Some default_ceiling"
    "fold (new_ceiling (DomainName ''k.dev'')) ?ops default_ceiling = \<lparr>opens = ModeOff, links = ModeOff\<rparr>"
    "dc_up example_domain_call" by code_simp+
  show ?thesis
    using ceiling_is_last_set [OF ok(1,2), of no_unicode ?ops "[]" example_domain_call] ok(3,4)
    unfolding Let_def by metis
qed

end
