(* ===== verification/TemplateStore.thy ===== *)
theory TemplateStore
  imports Authz
begin

text \<open>
  \<open>internal/templates\<close> with its repository (\<open>internal/db/templates.go\<close> over the statements of
  \<open>templates.sql.go\<close> and \<open>q.sql.go\<close>): the Templates of a Domain, their identifiers, which name the Domain,
  and the guarded service.  A \<open>template_call\<close> is what a statement meets: whether the database answers, its
  clock, and the rows its constraints admit.
\<close>

type_synonym template_id = string
type_synonym template_type = string

definition TypeTransient :: template_type where "TypeTransient = ''transient''"
definition TypePersistent :: template_type where "TypePersistent = ''template''"

record Template =
  tp_id :: template_id
  tp_html :: string
  tp_title :: string
  tp_domain :: DomainName
  tp_type :: template_type
  tp_created :: go_time
  tp_updated :: go_time

datatype template_error =
  ErrTemplateNotFound | TemplateIdSeparators nat | TemplateIdNoDomain parse_error | TemplateRowNotCanonical | TemplateDbError

definition idSeparator :: string where "idSeparator = ''@''"

definition newTemplateID :: "string \<Rightarrow> DomainName \<Rightarrow> template_id" where
  "newTemplateID cuid domain = ''template_'' @ cuid @ idSeparator @ dn_string domain"

text \<open>The count of the one-byte separator.\<close>

definition separators :: "string \<Rightarrow> nat" where
  "separators s = length (filter (\<lambda>c. [c] = idSeparator) s)"

definition DomainFromID :: "unicode \<Rightarrow> template_id \<Rightarrow> template_error + DomainName" where
  "DomainFromID U i =
     (if separators i \<noteq> 1 then Inl (TemplateIdSeparators (separators i))
      else case cut_char (hd idSeparator) i of
        (_, raw, _) \<Rightarrow>
          (case parse U raw of Inl e \<Rightarrow> Inl (TemplateIdNoDomain e) | Inr d \<Rightarrow> Inr d))"

definition NewPersistent :: "string \<Rightarrow> DomainName \<Rightarrow> string \<Rightarrow> string \<Rightarrow> Template" where
  "NewPersistent cuid domain html title =
     \<lparr>tp_id = newTemplateID cuid domain, tp_html = html, tp_title = title, tp_domain = domain,
      tp_type = TypePersistent, tp_created = 0, tp_updated = 0\<rparr>"

definition NewTransient :: "string \<Rightarrow> DomainName \<Rightarrow> string \<Rightarrow> Template" where
  "NewTransient cuid domain html =
     \<lparr>tp_id = newTemplateID cuid domain, tp_html = html, tp_title = [], tp_domain = domain,
      tp_type = TypeTransient, tp_created = 0, tp_updated = 0\<rparr>"

section \<open>The statements\<close>

record template_row =
  tr_id :: nat
  tr_template :: template_id
  tr_html :: string
  tr_domain :: string
  tr_type :: string
  tr_title :: string
  tr_created :: go_time
  tr_updated :: go_time

record template_table =
  tt_rows :: "template_row list" \<comment> \<open>by id\<close>
  tt_next :: nat

record template_call =
  tc_up :: bool
  tc_now :: go_time
  tc_admits :: "template_row \<Rightarrow> bool"

definition sqlCreateTemplate ::
  "template_call \<Rightarrow> template_id \<Rightarrow> string \<Rightarrow> string \<Rightarrow> string \<Rightarrow> string \<Rightarrow> template_table \<Rightarrow>
     (template_error + template_row) \<times> template_table" where
  "sqlCreateTemplate c i html title domain typ t =
     (let row = \<lparr>tr_id = tt_next t, tr_template = i, tr_html = html, tr_domain = domain, tr_type = typ,
                 tr_title = title, tr_created = tc_now c, tr_updated = tc_now c\<rparr> in
      if \<not> tc_up c \<or> \<not> tc_admits c row then (Inl TemplateDbError, t)
      else (Inr row, t\<lparr>tt_rows := tt_rows t @ [row], tt_next := tt_next t + 1\<rparr>))"

definition sqlGetTemplate :: "template_id \<Rightarrow> template_table \<Rightarrow> template_row option" where
  "sqlGetTemplate i t = List.find (\<lambda>r. tr_template r = i) (tt_rows t)"

definition sqlFindTemplate :: "template_id \<Rightarrow> string \<Rightarrow> template_table \<Rightarrow> template_row option" where
  "sqlFindTemplate i domain t = List.find (\<lambda>r. tr_template r = i \<and> tr_domain r = domain) (tt_rows t)"

definition sqlUpdateTemplate ::
  "template_call \<Rightarrow> template_id \<Rightarrow> string \<Rightarrow> string \<Rightarrow> template_table \<Rightarrow> template_row option \<times> template_table" where
  "sqlUpdateTemplate c i html title t =
     (let t' = t\<lparr>tt_rows := map (\<lambda>r. if tr_template r = i
           then r\<lparr>tr_html := html, tr_title := title, tr_updated := tc_now c\<rparr> else r) (tt_rows t)\<rparr> in
      (sqlGetTemplate i t', t'))"

definition sqlDeleteTemplate :: "template_id \<Rightarrow> template_table \<Rightarrow> template_row option \<times> template_table" where
  "sqlDeleteTemplate i t = (sqlGetTemplate i t, t\<lparr>tt_rows := filter (\<lambda>r. tr_template r \<noteq> i) (tt_rows t)\<rparr>)"

definition persistent_rows :: "string \<Rightarrow> template_table \<Rightarrow> template_row list" where
  "persistent_rows domain t = filter (\<lambda>r. tr_domain r = domain \<and> tr_type r = ''template'') (tt_rows t)"

definition sqlGetTemplates :: "string \<Rightarrow> int \<Rightarrow> int \<Rightarrow> template_table \<Rightarrow> template_error + template_row list" where
  "sqlGetTemplates domain skip tk t =
     (if skip < 0 \<or> tk < 0 then Inl TemplateDbError
      else Inr (take (nat tk) (drop (nat skip) (persistent_rows domain t))))"

definition sqlCountTemplates :: "string \<Rightarrow> template_table \<Rightarrow> int" where
  "sqlCountTemplates domain t = int (length (persistent_rows domain t))"

section \<open>The repository\<close>

definition toSQLCTemplateType :: "template_type \<Rightarrow> string" where
  "toSQLCTemplateType t =
     (if t = TypeTransient then ''transient'' else if t = TypePersistent then ''template'' else ''transient'')"

definition fromSQLCTemplateType :: "string \<Rightarrow> template_type" where
  "fromSQLCTemplateType t =
     (if t = ''transient'' then TypeTransient else if t = ''template'' then TypePersistent else TypeTransient)"

definition rowToTemplate :: "unicode \<Rightarrow> template_row \<Rightarrow> template_error + Template" where
  "rowToTemplate U row =
     (case parse U (tr_domain row) of
        Inl _ \<Rightarrow> Inl TemplateRowNotCanonical
      | Inr d \<Rightarrow>
          Inr \<lparr>tp_id = tr_template row, tp_html = tr_html row, tp_title = tr_title row, tp_domain = d,
               tp_type = fromSQLCTemplateType (tr_type row), tp_created = tr_created row, tp_updated = tr_updated row\<rparr>)"

text \<open>A successful \<open>Create\<close> gives the Template back as the database keeps it.\<close>

definition templates_Create ::
  "unicode \<Rightarrow> template_call \<Rightarrow> Template \<Rightarrow> template_table \<Rightarrow> (template_error + Template) \<times> template_table" where
  "templates_Create U c tpl t =
     (case sqlCreateTemplate c (tp_id tpl) (tp_html tpl) (tp_title tpl) (dn_string (tp_domain tpl))
             (toSQLCTemplateType (tp_type tpl)) t of
        (Inl e, t') \<Rightarrow> (Inl e, t')
      | (Inr row, t') \<Rightarrow> (rowToTemplate U row, t'))"

definition one_template :: "unicode \<Rightarrow> template_call \<Rightarrow> template_row option \<Rightarrow> template_error + Template" where
  "one_template U c r =
     (if \<not> tc_up c then Inl TemplateDbError
      else case r of None \<Rightarrow> Inl ErrTemplateNotFound | Some row \<Rightarrow> rowToTemplate U row)"

definition templates_GetByID ::
  "unicode \<Rightarrow> template_call \<Rightarrow> template_id \<Rightarrow> template_table \<Rightarrow> template_error + Template" where
  "templates_GetByID U c i t = one_template U c (sqlGetTemplate i t)"

definition templates_FindByDomain ::
  "unicode \<Rightarrow> template_call \<Rightarrow> DomainName \<Rightarrow> template_id \<Rightarrow> template_table \<Rightarrow> template_error + Template" where
  "templates_FindByDomain U c domain i t = one_template U c (sqlFindTemplate i (dn_string domain) t)"

text \<open>The second half of \<open>Update\<close>: the statement that writes what the function made of the Template read.\<close>

definition templates_write ::
  "unicode \<Rightarrow> template_call \<Rightarrow> Template \<Rightarrow> template_table \<Rightarrow> (template_error + Template) \<times> template_table" where
  "templates_write U c current t =
     (if \<not> tc_up c then (Inl TemplateDbError, t)
      else case sqlUpdateTemplate c (tp_id current) (tp_html current) (tp_title current) t of
        (r, t') \<Rightarrow> (one_template U c r, t'))"

definition templates_Update ::
  "unicode \<Rightarrow> template_call \<Rightarrow> template_id \<Rightarrow> (Template \<Rightarrow> template_error + Template) \<Rightarrow> template_table \<Rightarrow>
     (template_error + Template) \<times> template_table" where
  "templates_Update U c i f t =
     (case templates_GetByID U c i t of
        Inl e \<Rightarrow> (Inl e, t)
      | Inr current \<Rightarrow>
          (case f current of Inl e \<Rightarrow> (Inl e, t) | Inr current' \<Rightarrow> templates_write U c current' t))"

definition templates_Delete ::
  "unicode \<Rightarrow> template_call \<Rightarrow> template_id \<Rightarrow> template_table \<Rightarrow> (template_error + Template) \<times> template_table" where
  "templates_Delete U c i t =
     (if \<not> tc_up c then (Inl TemplateDbError, t)
      else case sqlDeleteTemplate i t of (r, t') \<Rightarrow> (one_template U c r, t'))"

fun load_templates :: "unicode \<Rightarrow> template_row list \<Rightarrow> template_error + Template list" where
  "load_templates U [] = Inr []"
| "load_templates U (r # rs) = bindR (rowToTemplate U r) (\<lambda>x. bindR (load_templates U rs) (\<lambda>xs. Inr (x # xs)))"

definition templates_List ::
  "unicode \<Rightarrow> template_call \<Rightarrow> DomainName \<Rightarrow> nat \<Rightarrow> nat \<Rightarrow> template_table \<Rightarrow> template_error + Template list" where
  "templates_List U c domain skip tk t =
     (if \<not> tc_up c then Inl TemplateDbError
      else bindR (sqlGetTemplates (dn_string domain) (int32 (int skip)) (int32 (int tk)) t) (load_templates U))"

definition templates_Count :: "template_call \<Rightarrow> DomainName \<Rightarrow> template_table \<Rightarrow> template_error + int" where
  "templates_Count c domain t =
     (if \<not> tc_up c then Inl TemplateDbError else Inr (sqlCountTemplates (dn_string domain) t))"

section \<open>The service\<close>

type_synonym 'a template_op =
  "Decision list \<Rightarrow> template_table \<Rightarrow> (template_error guarded_error + 'a) \<times> Decision list \<times> template_table"

definition CreateTemplate ::
  "unicode \<Rightarrow> template_call \<Rightarrow> string \<Rightarrow> ctx \<Rightarrow> DomainName \<Rightarrow> string \<Rightarrow> string \<Rightarrow> Template template_op" where
  "CreateTemplate U c cuid x domain html title =
     Guard x Create (Templates domain) (templates_Create U c (NewPersistent cuid domain html title))"

definition GetTemplates ::
  "unicode \<Rightarrow> template_call \<Rightarrow> ctx \<Rightarrow> DomainName \<Rightarrow> nat \<Rightarrow> nat \<Rightarrow> (Template list \<times> int) template_op" where
  "GetTemplates U c x domain skip tk =
     Guard x List (Templates domain) (\<lambda>t.
       (bindR (templates_List U c domain skip tk t) (\<lambda>found.
          bindR (templates_Count c domain t) (\<lambda>total. Inr (found, total))), t))"

definition GetTemplate ::
  "unicode \<Rightarrow> template_call \<Rightarrow> ctx \<Rightarrow> DomainName \<Rightarrow> template_id \<Rightarrow> Template template_op" where
  "GetTemplate U c x domain i =
     Guard x Read (TemplateR domain i) (\<lambda>t. (templates_FindByDomain U c domain i t, t))"

definition UpdateTemplate ::
  "unicode \<Rightarrow> template_call \<Rightarrow> ctx \<Rightarrow> DomainName \<Rightarrow> template_id \<Rightarrow> string \<Rightarrow> string \<Rightarrow> Template template_op" where
  "UpdateTemplate U c x domain i html title =
     Guard x Update (TemplateR domain i) (\<lambda>t.
       case templates_FindByDomain U c domain i t of
         Inl e \<Rightarrow> (Inl e, t)
       | Inr _ \<Rightarrow> templates_Update U c i (\<lambda>tpl. Inr (tpl\<lparr>tp_html := html, tp_title := title\<rparr>)) t)"

definition DeleteTemplate ::
  "unicode \<Rightarrow> template_call \<Rightarrow> ctx \<Rightarrow> DomainName \<Rightarrow> template_id \<Rightarrow> Template template_op" where
  "DeleteTemplate U c x domain i =
     Guard x Delete (TemplateR domain i) (\<lambda>t.
       case templates_FindByDomain U c domain i t of
         Inl e \<Rightarrow> (Inl e, t)
       | Inr _ \<Rightarrow> templates_Delete U c i t)"

section \<open>Identifiers name their Domain\<close>

lemma separators_simps [simp]:
  "separators [] = 0" "separators (c # s) = (if c = CHR ''@'' then 1 else 0) + separators s"
  "separators (s @ t) = separators s + separators t"
  by (simp_all add: separators_def idSeparator_def)

lemma separators_none: "CHR ''@'' \<notin> set s \<Longrightarrow> separators s = 0"
  by (induction s) auto

lemma DomainFromID_new:
  assumes "CHR ''@'' \<notin> set cuid" and "canonical_name d"
  shows "DomainFromID U (newTemplateID cuid d) = Inr d"
proof -
  obtain s where d: "d = DomainName s" by (cases d)
  have s: "canonical s" "CHR ''@'' \<notin> set s"
    using assms(2) canonical_no_char [of s "CHR ''@''"] not_isAllowed by (auto simp: d canonical_name_def)
  have "newTemplateID cuid d = (''template_'' @ cuid) @ CHR ''@'' # s" by (simp add: newTemplateID_def idSeparator_def d)
  moreover have "separators ((''template_'' @ cuid) @ CHR ''@'' # s) = 1"
    using assms(1) s(2) by (simp add: separators_none)
  moreover have "cut_char CHR ''@'' ((''template_'' @ cuid) @ CHR ''@'' # s) = (''template_'' @ cuid, s, True)"
    by (rule cut_char_append) (use assms(1) in simp)
  ultimately show ?thesis using s(1) by (simp add: DomainFromID_def idSeparator_def d parse_canonical del: separators_simps)
qed

section \<open>Templates stay with their Domain\<close>

text \<open>Identifiers are unique and made by \<open>newTemplateID\<close> for the row's own, canonical Domain.\<close>

definition template_row_ok :: "template_row \<Rightarrow> bool" where
  "template_row_ok r \<longleftrightarrow>
     canonical (tr_domain r) \<and>
     (\<exists>cuid. CHR ''@'' \<notin> set cuid \<and> tr_template r = newTemplateID cuid (DomainName (tr_domain r)))"

definition templates_ok :: "template_table \<Rightarrow> bool" where
  "templates_ok t \<longleftrightarrow> distinct (map tr_template (tt_rows t)) \<and> (\<forall>r\<in>set (tt_rows t). template_row_ok r)"

definition foreign :: "DomainName \<Rightarrow> template_table \<Rightarrow> template_row list" where
  "foreign d t = filter (\<lambda>r. tr_domain r \<noteq> dn_string d) (tt_rows t)"

lemma template_domain_unique:
  assumes "template_row_ok r" and "template_row_ok r'" and "tr_template r = tr_template r'"
  shows "tr_domain r = tr_domain r'"
proof -
  have "DomainFromID U (tr_template r) = Inr (DomainName (tr_domain r))" if "template_row_ok r" for r and U :: unicode
    using that DomainFromID_new by (auto simp: template_row_ok_def canonical_name_def)
  from this [OF assms(1)] this [OF assms(2)] assms(3) show ?thesis by simp
qed

lemma FindByDomain_Inr:
  assumes "templates_ok t" and "templates_FindByDomain U c d i t = Inr tpl"
  shows "\<exists>r\<in>set (tt_rows t). tr_template r = i \<and> tr_domain r = dn_string d \<and> tp_id tpl = i \<and> tp_domain tpl = d \<and>
     tp_html tpl = tr_html r \<and> tp_title tpl = tr_title r \<and> tc_up c"
proof -
  obtain r where r: "sqlFindTemplate i (dn_string d) t = Some r" "rowToTemplate U r = Inr tpl" "tc_up c"
    using assms(2) by (auto simp: templates_FindByDomain_def one_template_def split: if_splits option.splits)
  then have "r \<in> set (tt_rows t)" "tr_template r = i" "tr_domain r = dn_string d"
    by (auto simp: sqlFindTemplate_def find_Some_iff)
  then show ?thesis using assms(1) r(2,3)
    by (cases d; intro bexI [of _ r]) (auto simp: templates_ok_def template_row_ok_def rowToTemplate_def parse_canonical)
qed

lemma foreign_rows:
  assumes ok: "templates_ok t" and r: "r \<in> set (tt_rows t)" "tr_template r = i" "tr_domain r = dn_string d"
  shows "foreign d (snd (sqlUpdateTemplate c i html title t)) = foreign d t" and "foreign d (snd (sqlDeleteTemplate i t)) = foreign d t"
proof -
  have own: "x \<in> set (tt_rows t) \<Longrightarrow> tr_template x = i \<Longrightarrow> tr_domain x = dn_string d" for x
    using template_domain_unique [of x r] ok r by (auto simp: templates_ok_def)
  show "foreign d (snd (sqlDeleteTemplate i t)) = foreign d t"
    using own by (auto simp: foreign_def sqlDeleteTemplate_def filter_filter intro!: filter_cong)
  have f: "filter (\<lambda>r. tr_domain r \<noteq> dn_string d) (map f rs) = filter (\<lambda>r. tr_domain r \<noteq> dn_string d) rs"
    if "\<forall>x\<in>set rs. tr_domain (f x) = tr_domain x \<and> (tr_domain x \<noteq> dn_string d \<longrightarrow> f x = x)" for f rs
    using that by (induction rs) auto
  show "foreign d (snd (sqlUpdateTemplate c i html title t)) = foreign d t"
    unfolding foreign_def sqlUpdateTemplate_def Let_def snd_conv template_table.simps
    using own by (simp add: f)
qed

lemma templates_ok_write:
  assumes "templates_ok t"
  shows "templates_ok (snd (sqlUpdateTemplate c i html title t))" (is "templates_ok ?t")
proof -
  let ?f = "\<lambda>r. if tr_template r = i then r\<lparr>tr_html := html, tr_title := title, tr_updated := tc_now c\<rparr> else r"
  have rows: "tt_rows ?t = map ?f (tt_rows t)" by (simp add: sqlUpdateTemplate_def Let_def)
  have ids: "map tr_template (map ?f (tt_rows t)) = map tr_template (tt_rows t)" by auto
  show ?thesis using assms unfolding templates_ok_def rows ids by (auto simp: template_row_ok_def)
qed

lemma templates_ok_delete: "templates_ok t \<Longrightarrow> templates_ok (snd (sqlDeleteTemplate i t))"
  by (auto simp: templates_ok_def sqlDeleteTemplate_def distinct_map intro: inj_on_subset)

lemma templates_ok_create:
  assumes "templates_ok t" and "CHR ''@'' \<notin> set cuid" and "canonical_name d"
    and "newTemplateID cuid d \<notin> tr_template ` set (tt_rows t)"
  shows "templates_ok (snd (sqlCreateTemplate c (newTemplateID cuid d) html title (dn_string d) typ t))"
    and "foreign d (snd (sqlCreateTemplate c (newTemplateID cuid d) html title (dn_string d) typ t)) = foreign d t"
  using assms by (auto simp: templates_ok_def sqlCreateTemplate_def Let_def template_row_ok_def canonical_name_def foreign_def)

lemma written_template:
  assumes ok: "templates_ok t" and r: "r \<in> set (tt_rows t)" "tr_template r = i" "tr_domain r = dn_string d" and up: "tc_up c"
    and that: "tp_id x = i"
  shows "\<exists>tpl. templates_write U c x t = (Inr tpl, snd (sqlUpdateTemplate c i (tp_html x) (tp_title x) t)) \<and>
     tp_id tpl = i \<and> tp_domain tpl = d \<and> tp_html tpl = tp_html x \<and> tp_title tpl = tp_title x"
proof -
  let ?f = "\<lambda>r. if tr_template r = i then r\<lparr>tr_html := tp_html x, tr_title := tp_title x, tr_updated := tc_now c\<rparr> else r"
  have "List.find (\<lambda>r. tr_template r = i) (tt_rows t) = Some r"
    using ok r by (subst find_unique) (auto simp: templates_ok_def distinct_map dest: inj_onD)
  then have "sqlGetTemplate i (snd (sqlUpdateTemplate c i (tp_html x) (tp_title x) t)) = Some (?f r)"
    by (simp add: sqlGetTemplate_def sqlUpdateTemplate_def Let_def find_map_same)
  moreover have "parse U (tr_domain r) = Inr d"
    using ok r by (cases d) (auto simp: templates_ok_def template_row_ok_def parse_canonical)
  ultimately show ?thesis
    using r up that by (auto simp: templates_write_def one_template_def rowToTemplate_def sqlUpdateTemplate_def Let_def)
qed

lemma UpdateTemplate_done:
  assumes ok: "templates_ok t" and u: "UpdateTemplate U c x d i html title recs t = (r, recs', t')"
  shows "foreign d t' = foreign d t \<and> templates_ok t' \<and>
     (\<forall>tpl. r = Inr tpl \<longrightarrow> permitted x Update (TemplateR d i) \<and> tp_id tpl = i \<and> tp_domain tpl = d \<and> tp_html tpl = html \<and>
        tp_title tpl = title) \<and> (\<not> is_ok r \<longrightarrow> t' = t)"
proof (cases "permitted x Update (TemplateR d i) \<and> is_ok (templates_FindByDomain U c d i t)")
  case False
  then have "\<not> is_ok r \<and> t' = t"
    using u by (cases "templates_FindByDomain U c d i t") (auto simp: UpdateTemplate_def Guard_cases split: if_splits)
  then show ?thesis using ok by auto
next
  case True
  then obtain tpl where f: "templates_FindByDomain U c d i t = Inr tpl" by (auto simp: is_ok_iff)
  obtain row where row: "row \<in> set (tt_rows t)" "tr_template row = i" "tr_domain row = dn_string d" "tc_up c"
    using FindByDomain_Inr [OF ok f] by blast
  have "List.find (\<lambda>r. tr_template r = i) (tt_rows t) = Some row"
    using ok row by (subst find_unique) (auto simp: templates_ok_def distinct_map dest: inj_onD)
  moreover have "parse U (tr_domain row) = Inr d"
    using ok row by (cases d) (auto simp: templates_ok_def template_row_ok_def parse_canonical)
  ultimately obtain cur where cur: "templates_GetByID U c i t = Inr cur" "tp_id cur = i"
    using row by (auto simp: templates_GetByID_def one_template_def sqlGetTemplate_def rowToTemplate_def)
  obtain new where w: "templates_write U c (cur\<lparr>tp_html := html, tp_title := title\<rparr>) t =
      (Inr new, snd (sqlUpdateTemplate c i html title t))" "tp_id new = i" "tp_domain new = d" "tp_html new = html" "tp_title new = title"
    using written_template [OF ok row, of "cur\<lparr>tp_html := html, tp_title := title\<rparr>" U] cur(2) by auto
  have "r = Inr new" "t' = snd (sqlUpdateTemplate c i html title t)"
    using u True f cur w(1) by (auto simp: UpdateTemplate_def Guard_permitted templates_Update_def)
  then show ?thesis
    using True w foreign_rows(1) [OF ok row(1-3)] templates_ok_write [OF ok] by simp
qed

lemma DeleteTemplate_done:
  assumes ok: "templates_ok t" and u: "DeleteTemplate U c x d i recs t = (r, recs', t')"
  shows "foreign d t' = foreign d t \<and> templates_ok t' \<and>
     (\<forall>tpl. r = Inr tpl \<longrightarrow> permitted x Delete (TemplateR d i) \<and> tp_id tpl = i \<and> i \<notin> tr_template ` set (tt_rows t')) \<and>
     (\<not> is_ok r \<longrightarrow> t' = t)"
proof (cases "permitted x Delete (TemplateR d i) \<and> is_ok (templates_FindByDomain U c d i t)")
  case False
  then have "\<not> is_ok r \<and> t' = t"
    using u by (cases "templates_FindByDomain U c d i t") (auto simp: DeleteTemplate_def Guard_cases split: if_splits)
  then show ?thesis using ok by auto
next
  case True
  then obtain tpl where f: "templates_FindByDomain U c d i t = Inr tpl" by (auto simp: is_ok_iff)
  obtain row where row: "row \<in> set (tt_rows t)" "tr_template row = i" "tr_domain row = dn_string d" "tc_up c"
    using FindByDomain_Inr [OF ok f] by blast
  have "List.find (\<lambda>r. tr_template r = i) (tt_rows t) = Some row"
    using ok row by (subst find_unique) (auto simp: templates_ok_def distinct_map dest: inj_onD)
  moreover have "parse U (tr_domain row) = Inr d"
    using ok row by (cases d) (auto simp: templates_ok_def template_row_ok_def parse_canonical)
  ultimately obtain old where del: "templates_Delete U c i t = (Inr old, snd (sqlDeleteTemplate i t))" "tp_id old = i"
    using row by (auto simp: templates_Delete_def one_template_def sqlGetTemplate_def sqlDeleteTemplate_def rowToTemplate_def)
  have "r = Inr old" "t' = snd (sqlDeleteTemplate i t)"
    using u True f del(1) by (auto simp: DeleteTemplate_def Guard_permitted)
  then show ?thesis
    using True del(2) foreign_rows(2) [OF ok row(1-3)] templates_ok_delete [OF ok] by (auto simp: sqlDeleteTemplate_def)
qed


definition example_templates :: template_table where
  "example_templates =
     \<lparr>tt_rows = [\<lparr>tr_id = 1, tr_template = ''template_c1@k.dev'', tr_html = ''<p>'', tr_domain = ''k.dev'',
                  tr_type = ''template'', tr_title = ''t'', tr_created = 0, tr_updated = 0\<rparr>,
                 \<lparr>tr_id = 2, tr_template = ''template_c2@z.org'', tr_html = ''<p>'', tr_domain = ''z.org'',
                  tr_type = ''template'', tr_title = ''t'', tr_created = 0, tr_updated = 0\<rparr>], tt_next = 3\<rparr>"

definition example_template_call :: template_call where
  "example_template_call = \<lparr>tc_up = True, tc_now = 0, tc_admits = (\<lambda>r. True)\<rparr>"

lemma example_templates_ok: "templates_ok example_templates"
proof -
  have "template_row_ok (tt_rows example_templates ! 0)" "template_row_ok (tt_rows example_templates ! 1)"
    unfolding template_row_ok_def
    by (intro conjI exI [of _ "''c1''"]; code_simp) (intro conjI exI [of _ "''c2''"]; code_simp)
  then show ?thesis by (simp add: templates_ok_def example_templates_def)
qed

definition admin_of_k :: ctx where
  "admin_of_k = \<lparr>c_principal = Some root_admin, c_now = 0\<rparr>"


text \<open>
  \<open>Update\<close> reads and writes in two statements of their own: a title set in between by another update is
  written over by one that only meant to change the HTML.
\<close>

lemma update_not_atomic:
  "\<exists>current t1.
     templates_GetByID no_unicode example_template_call ''template_c1@k.dev'' example_templates = Inr current \<and>
     t1 = snd (templates_Update no_unicode example_template_call ''template_c1@k.dev''
             (\<lambda>x. Inr (x\<lparr>tp_title := ''new''\<rparr>)) example_templates) \<and>
     tr_title (hd (tt_rows t1)) = ''new'' \<and>
     tr_title (hd (tt_rows (snd (templates_write no_unicode example_template_call (current\<lparr>tp_html := ''<i>''\<rparr>) t1)))) = ''t''"
proof -
  obtain current where c: "templates_GetByID no_unicode example_template_call ''template_c1@k.dev'' example_templates = Inr current"
    and v: "tp_id current = ''template_c1@k.dev''" "tp_title current = ''t''"
  proof
    let ?r = "templates_GetByID no_unicode example_template_call ''template_c1@k.dev'' example_templates"
    have "is_ok ?r" "tp_id (projr ?r) = ''template_c1@k.dev''" "tp_title (projr ?r) = ''t''" by code_simp+
    then show "?r = Inr (projr ?r)" "tp_id (projr ?r) = ''template_c1@k.dev''" "tp_title (projr ?r) = ''t''"
      by (auto simp: is_ok_iff)
  qed
  let ?t1 = "snd (templates_Update no_unicode example_template_call ''template_c1@k.dev''
             (\<lambda>x. Inr (x\<lparr>tp_title := ''new''\<rparr>)) example_templates)"
  have t: "tr_title (hd (tt_rows ?t1)) = ''new''" "tr_template (hd (tt_rows ?t1)) = ''template_c1@k.dev''"
      "tt_rows ?t1 \<noteq> []" "tc_up example_template_call" by code_simp+
  have "tr_title (hd (tt_rows (snd (templates_write no_unicode example_template_call (current\<lparr>tp_html := ''<i>''\<rparr>) ?t1)))) = ''t''"
    using t v by (simp add: templates_write_def sqlUpdateTemplate_def Let_def hd_map)
  with c t(1) show ?thesis by blast
qed

end
