(* ===== verification/Template.thy ===== *)
theory Template
  imports Messages
begin

text \<open>
  \<open>internal/utils/template.go\<close>: the substitution of a Recipient's fields into a body, a subject or a URL.
  A field's name is compiled as a regular expression between double braces and its value is a
  replacement template of \<open>regexp\<close>, in which a dollar sign is special.  A name of plain characters is
  matched as written out below; what the engine makes of any other name, and which runes above 127 are
  letters, are the record \<open>regexp_lib\<close>.  A Go map is ranged over in an order of its own: the definitions
  take the list of its entries in that order.
\<close>

record regexp_lib =
  rx_replace :: "string \<Rightarrow> string \<Rightarrow> string \<Rightarrow> string option"
  rx_letter :: "nat \<Rightarrow> bool"

definition metachars :: string where
  "metachars = CHR 0x5C # ''.+*?()|[]{}^$''"

definition plain_key :: "string \<Rightarrow> bool" where
  "plain_key k \<longleftrightarrow> list_all (\<lambda>c. ascii c \<and> c \<notin> set metachars) k \<and> (k = [] \<or> hd k \<noteq> CHR '' '')"

abbreviation spaces :: "string \<Rightarrow> string" where
  "spaces s \<equiv> dropWhile (\<lambda>c. c = CHR '' '') s"

text \<open>The rest of the text after a placeholder of the name at its head.\<close>

definition match_placeholder :: "string \<Rightarrow> string \<Rightarrow> string option" where
  "match_placeholder key s =
     (if \<not> has_prefix ''{{'' s then None
      else (let r = spaces (drop 2 s) in
            if \<not> has_prefix key r then None
            else (let r' = spaces (drop (length key) r) in
                  if has_prefix ''}}'' r' then Some (drop 2 r') else None)))"

lemma length_spaces: "length (spaces s) \<le> length s"
  by (simp add: length_dropWhile_le)

lemma match_placeholder_shorter: "match_placeholder key s = Some r \<Longrightarrow> length r < length s"
proof -
  assume m: "match_placeholder key s = Some r"
  then have "has_prefix ''{{'' s" by (auto simp: match_placeholder_def split: if_splits)
  then have "2 \<le> length s" by (auto simp: has_prefix_iff)
  moreover have "length r \<le> length s - 2"
    using m length_spaces [of "drop (length key) (spaces (drop 2 s))"] length_spaces [of "drop 2 s"]
    by (auto simp: match_placeholder_def Let_def split: if_splits)
  ultimately show ?thesis by linarith
qed

section \<open>Replacement templates\<close>

definition word_rune :: "regexp_lib \<Rightarrow> nat \<Rightarrow> bool" where
  "word_rune X r \<longleftrightarrow>
     (if r < 128 then 48 \<le> r \<and> r \<le> 57 \<or> 65 \<le> r \<and> r \<le> 90 \<or> 97 \<le> r \<and> r \<le> 122 \<or> r = 95 else rx_letter X r)"

lemma decode_rune_width: "s \<noteq> [] \<Longrightarrow> decode_rune s = (r, w, ok) \<Longrightarrow> 0 < w"
  by (auto simp: decode_rune_def Let_def split: if_splits)

lemma decode_rune_shrinks: "s \<noteq> [] \<Longrightarrow> (r, w, ok) = decode_rune s \<Longrightarrow> length s - w < length s"
  using decode_rune_width [of s r w ok] by simp

function name_run :: "regexp_lib \<Rightarrow> string \<Rightarrow> string" where
  "name_run X s =
     (if s = [] then []
      else (case decode_rune s of (r, w, ok) \<Rightarrow> if word_rune X r then take w s @ name_run X (drop w s) else []))"
  by auto
termination
  by (relation "measure (\<lambda>(X, s). length s)") (auto intro: decode_rune_shrinks)

declare name_run.simps [simp del]

text \<open>\<open>extract\<close>: the name after a dollar sign and what follows it.\<close>

definition extract_name :: "regexp_lib \<Rightarrow> string \<Rightarrow> (string \<times> string) option" where
  "extract_name X s =
     (if s = [] then None
      else (let brace = (hd s = CHR ''{''); body = (if brace then tl s else s); name = name_run X body;
                rest = drop (length name) body in
            if name = [] then None
            else if \<not> brace then Some (name, rest)
            else if rest \<noteq> [] \<and> hd rest = CHR ''}'' then Some (name, tl rest) else None))"

lemma extract_shorter: "extract_name X s = Some (n, r) \<Longrightarrow> length r < length s"
  by (cases s) (auto simp: extract_name_def Let_def split: if_splits)

text \<open>
  \<open>expand\<close>, for an expression without groups: only number 0, the whole match, names anything.
\<close>

function expand :: "regexp_lib \<Rightarrow> string \<Rightarrow> string \<Rightarrow> string" where
  "expand X matched tmpl =
     (case cut_char CHR ''$'' tmpl of
        (before, after, ok) \<Rightarrow>
          if \<not> ok then tmpl
          else if has_prefix ''$'' after then before @ ''$'' @ expand X matched (tl after)
          else (case extract_name X after of
                  None \<Rightarrow> before @ ''$'' @ expand X matched after
                | Some (name, rest) \<Rightarrow> before @ (if name = ''0'' then matched else []) @ expand X matched rest))"
  by auto

lemma cut_char_shorter: "cut_char c s = (b, a, True) \<Longrightarrow> length a < length s"
proof -
  assume h: "cut_char c s = (b, a, True)"
  then have c: "c \<in> set s" and a: "a = tl (dropWhile (\<lambda>x. x \<noteq> c) s)"
    by (auto simp: cut_char_def split: if_splits)
  have "dropWhile (\<lambda>x. x \<noteq> c) s \<noteq> []" using c by (auto simp: dropWhile_eq_Nil_conv)
  then show ?thesis
    using length_dropWhile_le [of "\<lambda>x. x \<noteq> c" s] by (cases "dropWhile (\<lambda>x. x \<noteq> c) s") (auto simp: a)
qed

termination expand
  by (relation "measure (\<lambda>(X, m, t). length t)")
    (auto dest!: cut_char_shorter [OF sym] dest: extract_shorter)

declare expand.simps [simp del]

lemma expand_plain: "CHR ''$'' \<notin> set t \<Longrightarrow> expand X m t = t"
  by (subst expand.simps) (simp add: cut_char_def)

section \<open>Substitution\<close>

function replace_field :: "regexp_lib \<Rightarrow> string \<Rightarrow> string \<Rightarrow> string \<Rightarrow> string" where
  "replace_field X key repl s =
     (case s of
        [] \<Rightarrow> []
      | c # cs \<Rightarrow>
          (case match_placeholder key s of
             None \<Rightarrow> c # replace_field X key repl cs
           | Some rest \<Rightarrow>
               expand X (take (length s - length rest) s) repl @ replace_field X key repl rest))"
  by auto
termination
  by (relation "measure (\<lambda>(X, k, v, s). length s)") (auto dest: match_placeholder_shorter)

declare replace_field.simps [simp del]

type_synonym fields = "(string \<times> string) list"

definition replace_one :: "regexp_lib \<Rightarrow> string \<Rightarrow> string \<Rightarrow> string \<Rightarrow> string" where
  "replace_one X key repl s =
     (if plain_key key then replace_field X key repl s
      else (case rx_replace X key repl s of None \<Rightarrow> s | Some s' \<Rightarrow> s'))"

definition replaceCustomFields :: "regexp_lib \<Rightarrow> string \<Rightarrow> fields \<Rightarrow> (string \<Rightarrow> string) \<Rightarrow> string" where
  "replaceCustomFields X str fs escape = fold (\<lambda>(key, value) s. replace_one X key (escape value) s) fs str"

definition ReplaceCustomFields :: "regexp_lib \<Rightarrow> string \<Rightarrow> fields \<Rightarrow> string" where
  "ReplaceCustomFields X str fs = replaceCustomFields X str fs (\<lambda>v. v)"

text \<open>\<open>url.QueryEscape\<close>.\<close>

definition unreserved :: "char \<Rightarrow> bool" where
  "unreserved c \<longleftrightarrow>
     (let n = code c in 48 \<le> n \<and> n \<le> 57 \<or> 65 \<le> n \<and> n \<le> 90 \<or> 97 \<le> n \<and> n \<le> 122 \<or> n \<in> {45, 46, 95, 126})"

definition query_char :: "char \<Rightarrow> string" where
  "query_char c =
     (if unreserved c then [c] else if c = CHR '' '' then ''+''
      else [CHR ''%'', ''0123456789ABCDEF'' ! (code c div 16), ''0123456789ABCDEF'' ! (code c mod 16)])"

definition QueryEscape :: "string \<Rightarrow> string" where
  "QueryEscape s = concat (map query_char s)"

definition ReplaceCustomFieldsInURL :: "regexp_lib \<Rightarrow> string \<Rightarrow> fields \<Rightarrow> string" where
  "ReplaceCustomFieldsInURL X str fs = replaceCustomFields X str fs QueryEscape"

text \<open>\<open>placeholderReg\<close>: two braces, anything but a brace, two braces.\<close>

definition not_brace :: "char \<Rightarrow> bool" where
  "not_brace c \<longleftrightarrow> c \<noteq> CHR ''{'' \<and> c \<noteq> CHR ''}''"

fun HasUnresolvedPlaceholders :: "string \<Rightarrow> bool" where
  "HasUnresolvedPlaceholders [] \<longleftrightarrow> False"
| "HasUnresolvedPlaceholders (c # cs) \<longleftrightarrow>
     has_prefix ''{{'' (c # cs) \<and> has_prefix ''}}'' (dropWhile not_brace (drop 2 (c # cs))) \<or>
     HasUnresolvedPlaceholders cs"

definition EffectiveFields :: "string \<Rightarrow> gomap \<Rightarrow> (string \<rightharpoonup> string)" where
  "EffectiveFields email fs = [''email'' \<mapsto> email] ++ (case fs of None \<Rightarrow> Map.empty | Some m \<Rightarrow> m)"

text \<open>A list is the entries of a map in some order.\<close>

definition iterates :: "fields \<Rightarrow> (string \<rightharpoonup> string) \<Rightarrow> bool" where
  "iterates fs m \<longleftrightarrow> distinct (map fst fs) \<and> map_of fs = m"

section \<open>Templates as segments\<close>

text \<open>
  A template whose text holds no brace outside its placeholders: literal text, and a placeholder with the
  blanks before and after its name.
\<close>

datatype segment = Text string | Hole nat string nat

fun unparse1 :: "segment \<Rightarrow> string" where
  "unparse1 (Text s) = s"
| "unparse1 (Hole a k b) = ''{{'' @ replicate a CHR '' '' @ k @ replicate b CHR '' '' @ ''}}''"

definition unparse :: "segment list \<Rightarrow> string" where
  "unparse gs = concat (map unparse1 gs)"

definition braceless :: "string \<Rightarrow> bool" where
  "braceless s \<longleftrightarrow> list_all not_brace s"

definition trimmed :: "string \<Rightarrow> bool" where
  "trimmed k \<longleftrightarrow> k = [] \<or> hd k \<noteq> CHR '' '' \<and> last k \<noteq> CHR '' ''"

fun segment_ok :: "segment \<Rightarrow> bool" where
  "segment_ok (Text s) \<longleftrightarrow> braceless s"
| "segment_ok (Hole a k b) \<longleftrightarrow> braceless k \<and> trimmed k"

definition simple_key :: "string \<Rightarrow> bool" where
  "simple_key k \<longleftrightarrow> plain_key k \<and> trimmed k"

definition simple_value :: "string \<Rightarrow> bool" where
  "simple_value v \<longleftrightarrow> braceless v \<and> CHR ''$'' \<notin> set v"

fun fill :: "(string \<rightharpoonup> string) \<Rightarrow> segment \<Rightarrow> segment" where
  "fill m (Text s) = Text s"
| "fill m (Hole a k b) = (case m k of None \<Rightarrow> Hole a k b | Some v \<Rightarrow> Text v)"

lemma braceless_simps [simp]:
  "braceless []" "braceless (c # s) \<longleftrightarrow> not_brace c \<and> braceless s" "braceless (s @ t) \<longleftrightarrow> braceless s \<and> braceless t"
  by (simp_all add: braceless_def)

lemma braceless_replicate [simp]: "braceless (replicate n CHR '' '')"
  by (induction n) (simp_all add: not_brace_def)

lemma plain_braceless: "plain_key k \<Longrightarrow> braceless k"
  by (auto simp: plain_key_def braceless_def list_all_iff not_brace_def metachars_def)

lemma spaces_replicate: "trimmed k \<Longrightarrow> k \<noteq> [] \<Longrightarrow> spaces (replicate n CHR '' '' @ k @ r) = k @ r"
  by (induction n) (auto simp: trimmed_def neq_Nil_conv)

lemma spaces_replicate_brace: "spaces (replicate n CHR '' '' @ CHR ''}'' # r) = CHR ''}'' # r"
  by (induction n) auto

lemma first_brace:
  assumes "x @ CHR ''}'' # r = y @ CHR ''}'' # q" and "braceless x" and "braceless y"
  shows "x = y \<and> r = q"
  using assms
proof (induction x arbitrary: y)
  case Nil
  then show ?case by (cases y) (auto simp: not_brace_def)
next
  case (Cons c x)
  then show ?case by (cases y) (auto simp: not_brace_def)
qed

lemma trimmed_unique:
  assumes "k @ replicate n CHR '' '' = l @ replicate b CHR '' ''" and "trimmed k" and "trimmed l"
  shows "k = l"
proof -
  have strip: "rev (spaces (rev (x @ replicate m CHR '' ''))) = x" if "trimmed x" for x m
  proof -
    have "spaces (replicate m CHR '' '' @ rev x) = rev x"
    proof (cases "x = []")
      case True
      then show ?thesis by (induction m) simp_all
    next
      case False
      then have "trimmed (rev x)" "rev x \<noteq> []" using that by (auto simp: trimmed_def hd_rev last_rev)
      then show ?thesis using spaces_replicate [of "rev x" m "[]"] by simp
    qed
    then show ?thesis by simp
  qed
  show ?thesis using strip [OF assms(2), of n] strip [OF assms(3), of b] assms(1) by simp
qed

lemma spaces_split: "\<exists>n. s = replicate n CHR '' '' @ spaces s"
proof (induction s)
  case (Cons c s)
  then show ?case by (auto intro: exI [of _ "Suc n" for n] exI [of _ 0])
qed simp

lemma match_placeholder_Some:
  assumes "match_placeholder key s = Some q"
  shows "\<exists>t. spaces (drop 2 s) = key @ t \<and> has_prefix ''}}'' (spaces t) \<and> q = drop 2 (spaces t)"
proof -
  have "has_prefix key (spaces (drop 2 s))"
    using assms by (simp add: match_placeholder_def Let_def split: if_splits)
  then obtain t where "spaces (drop 2 s) = key @ t" unfolding has_prefix_iff by (elim exE)
  then show ?thesis using assms by (simp add: match_placeholder_def Let_def split: if_splits)
qed

text \<open>At the head of a hole exactly its own name matches.\<close>

lemma match_hole:
  assumes "simple_key key" and "braceless k" and "trimmed k"
  shows "match_placeholder key (unparse1 (Hole a k b) @ r) = (if k = key then Some r else None)"
proof (cases "match_placeholder key (unparse1 (Hole a k b) @ r)")
  case None
  moreover have "k \<noteq> key"
  proof
    assume "k = key"
    then have "match_placeholder key (unparse1 (Hole a k b) @ r) = Some r"
    proof (cases "k = []")
      case True
      then have "spaces (replicate a CHR '' '' @ replicate b CHR '' '' @ CHR ''}'' # CHR ''}'' # r) = CHR ''}'' # CHR ''}'' # r"
        using spaces_replicate_brace [of "a + b"] by (simp add: replicate_add)
      then show ?thesis using True \<open>k = key\<close> by (simp add: match_placeholder_def has_prefix_def)
    next
      case False
      then show ?thesis
        using spaces_replicate [OF assms(3) False] spaces_replicate_brace \<open>k = key\<close>
        by (simp add: match_placeholder_def has_prefix_def)
    qed
    then show False using None by simp
  qed
  ultimately show ?thesis by simp
next
  case (Some q)
  let ?body = "replicate a CHR '' '' @ k @ replicate b CHR '' '' @ CHR ''}'' # CHR ''}'' # r"
  have d: "drop 2 (unparse1 (Hole a k b) @ r) = ?body" by simp
  obtain t where t: "spaces ?body = key @ t" "has_prefix ''}}'' (spaces t)" "q = drop 2 (spaces t)"
    using match_placeholder_Some [OF Some] unfolding d by (elim exE conjE)
  obtain n where "?body = replicate n CHR '' '' @ spaces ?body" using spaces_split [of ?body] by (elim exE)
  then have n: "?body = replicate n CHR '' '' @ key @ t" unfolding t(1) .
  obtain n' where n': "t = replicate n' CHR '' '' @ spaces t" using spaces_split [of t] by blast
  obtain t' where t': "spaces t = CHR ''}'' # CHR ''}'' # t'" using t(2) by (auto simp: has_prefix_iff)
  let ?x = "replicate a CHR '' '' @ k @ replicate b CHR '' ''" and ?y = "replicate n CHR '' '' @ key @ replicate n' CHR '' ''"
  have both: "?x @ CHR ''}'' # (CHR ''}'' # r) = ?y @ CHR ''}'' # (CHR ''}'' # t')"
    using n unfolding n' [unfolded t'] append_assoc .
  have "braceless key" using assms(1) plain_braceless by (simp add: simple_key_def)
  then have "braceless ?x" "braceless ?y" using assms(2) by simp_all
  from first_brace [OF both this] have eq: "?x = ?y" and r: "r = t'" by simp_all
  have key: "trimmed key" using assms(1) by (simp add: simple_key_def)
  have "k = key"
  proof (cases "k = [] \<or> key = []")
    case True
    have all: "set x \<subseteq> {CHR '' ''} \<Longrightarrow> trimmed x \<Longrightarrow> x = []" for x by (cases x) (auto simp: trimmed_def)
    from True show ?thesis
    proof
      assume k: "k = []"
      have "set key \<subseteq> set (replicate n CHR '' '' @ key @ replicate n' CHR '' '')" by auto
      then have "set key \<subseteq> {CHR '' ''}" unfolding eq [symmetric] k by auto
      from all [OF this key] show ?thesis unfolding k ..
    next
      assume k: "key = []"
      have "set k \<subseteq> set (replicate a CHR '' '' @ k @ replicate b CHR '' '')" by auto
      then have "set k \<subseteq> {CHR '' ''}" unfolding eq k by auto
      from all [OF this assms(3)] show ?thesis unfolding k .
    qed
  next
    case False
    then have "k @ replicate b CHR '' '' = key @ replicate n' CHR '' ''"
      using arg_cong [OF eq, of "\<lambda>s. spaces s"] spaces_replicate [OF assms(3)] spaces_replicate [OF key] by simp
    then show ?thesis using trimmed_unique assms(3) key by blast
  qed
  moreover have "q = r" using t(3) t' r by simp
  ultimately show ?thesis using Some by simp
qed

lemma no_match: "\<not> has_prefix ''{{'' s \<Longrightarrow> match_placeholder key s = None"
  by (simp add: match_placeholder_def)

lemma replace_skip:
  "match_placeholder key (c # cs) = None \<Longrightarrow> replace_field X key v (c # cs) = c # replace_field X key v cs"
  by (subst replace_field.simps) simp

lemma replace_text: "CHR ''{'' \<notin> set p \<Longrightarrow> replace_field X key v (p @ r) = p @ replace_field X key v r"
proof (induction p)
  case (Cons c p)
  then have "match_placeholder key (c # (p @ r)) = None"
    by (intro no_match) (auto simp: has_prefix_def)
  then show ?case using Cons replace_skip by simp
qed simp

lemma braceless_open: "braceless s \<Longrightarrow> CHR ''{'' \<notin> set s"
  by (auto simp: braceless_def list_all_iff not_brace_def)

lemma replace_hole:
  assumes "simple_key key" and "braceless k" and "trimmed k" and "CHR ''$'' \<notin> set v"
  shows "replace_field X key v (unparse1 (Hole a k b) @ r) =
     (if k = key then v else unparse1 (Hole a k b)) @ replace_field X key v r"
proof (cases "k = key")
  case True
  have "unparse1 (Hole a k b) @ r = CHR ''{'' # (CHR ''{'' # replicate a CHR '' '' @ k @ replicate b CHR '' '' @ ''}}'' @ r)"
    by simp
  then show ?thesis
    using match_hole [OF assms(1-3), of a b r] True expand_plain [OF assms(4)]
    by (subst replace_field.simps) simp
next
  case False
  let ?tail = "replicate a CHR '' '' @ k @ replicate b CHR '' '' @ ''}}''"
  have s: "unparse1 (Hole a k b) @ r = CHR ''{'' # CHR ''{'' # (?tail @ r)" by simp
  have tail: "CHR ''{'' \<notin> set ?tail" using braceless_open [OF assms(2)] by simp
  have "match_placeholder key (CHR ''{'' # CHR ''{'' # (?tail @ r)) = None"
    using match_hole [OF assms(1-3), of a b r] False unfolding s by simp
  moreover have "match_placeholder key (CHR ''{'' # (?tail @ r)) = None"
  proof (rule no_match)
    obtain c cs where "?tail = c # cs" by (cases ?tail) auto
    then show "\<not> has_prefix ''{{'' (CHR ''{'' # (?tail @ r))" using tail by (auto simp: has_prefix_def)
  qed
  ultimately show ?thesis
    unfolding s using False replace_skip replace_text [OF tail] by simp
qed

lemma fill_ok: "segment_ok g \<Longrightarrow> (\<And>k v. m k = Some v \<Longrightarrow> braceless v) \<Longrightarrow> segment_ok (fill m g)"
  by (cases g) (auto split: option.split)

definition single :: "string \<Rightarrow> string \<Rightarrow> (string \<rightharpoonup> string)" where
  "single key v = [key \<mapsto> v]"

lemma single_apply [simp]: "single key v k = (if k = key then Some v else None)"
  by (simp add: single_def)

lemma unparse_simps: "unparse [] = []" "unparse (g # gs) = unparse1 g @ unparse gs"
  by (simp_all add: unparse_def)

lemma replace_unparse:
  assumes "simple_key key" and "simple_value v" and "list_all segment_ok gs"
    and "m key = Some v" and "\<And>k. k \<noteq> key \<Longrightarrow> m k = None"
  shows "replace_field X key v (unparse gs) = unparse (map (fill m) gs)"
  using assms(3)
proof (induction gs)
  case Nil
  show ?case by (subst replace_field.simps) (simp add: unparse_simps)
next
  case (Cons g gs)
  have IH: "replace_field X key v (unparse gs) = unparse (map (fill m) gs)"
    by (rule Cons.IH) (use Cons.prems in simp)
  show ?case
  proof (cases g)
    case (Text s)
    then have "CHR ''{'' \<notin> set s" using Cons.prems braceless_open by simp
    then show ?thesis by (simp add: unparse_simps Text replace_text IH)
  next
    case (Hole a k b)
    have k: "braceless k" "trimmed k" using Cons.prems Hole by simp_all
    have v: "CHR ''$'' \<notin> set v" using assms(2) by (simp add: simple_value_def)
    have "replace_field X key v (unparse (g # gs)) =
        (if k = key then v else unparse1 g) @ unparse (map (fill m) gs)"
      unfolding unparse_simps Hole replace_hole [OF assms(1) k v] IH ..
    also have "(if k = key then v else unparse1 g) = unparse1 (fill m g)"
      using assms(4,5) by (simp add: Hole)
    finally show ?thesis by (simp add: unparse_simps)
  qed
qed

lemma fill_fill: "fill m (fill n g) = fill (m ++ n) g"
  by (cases g) (auto simp: map_add_def split: option.split)

lemma fill_empty: "map (fill Map.empty) gs = gs"
proof (rule map_idI)
  show "fill Map.empty g = g" for g by (cases g) simp_all
qed

lemma replaceCustomFields_unparse:
  assumes "\<And>k v. (k, v) \<in> set fs \<Longrightarrow> simple_key k \<and> simple_value (esc v)"
    and "distinct (map fst fs)" and "list_all segment_ok gs"
  shows "replaceCustomFields X (unparse gs) fs esc = unparse (map (fill (map_option esc \<circ> map_of fs)) gs)"
  using assms
proof (induction fs arbitrary: gs)
  case Nil
  have "map_option esc \<circ> map_of [] = Map.empty" by (simp add: comp_def)
  then show ?case by (simp add: replaceCustomFields_def fill_empty)
next
  case (Cons kv fs)
  obtain k v where kv: "kv = (k, v)" by fastforce
  have ok: "simple_key k" "simple_value (esc v)" using Cons.prems(1) [of k v] by (simp_all add: kv)
  define m where "m = [k \<mapsto> esc v]"
  let ?gs = "map (fill m) gs"
  have "braceless w" if "m l = Some w" for l w
    using that ok(2) by (auto simp: m_def simple_value_def split: if_splits)
  then have gs: "list_all segment_ok ?gs" using Cons.prems(3) fill_ok [of _ m] by (auto simp: list_all_iff)
  have "replace_field X k (esc v) (unparse gs) = unparse ?gs"
    by (rule replace_unparse [OF ok Cons.prems(3)]) (simp_all add: m_def)
  then have "replace_one X k (esc v) (unparse gs) = unparse ?gs"
    using ok(1) by (simp add: replace_one_def simple_key_def)
  then have "replaceCustomFields X (unparse gs) (kv # fs) esc = replaceCustomFields X (unparse ?gs) fs esc"
    by (simp add: replaceCustomFields_def kv)
  also have "\<dots> = unparse (map (fill (map_option esc \<circ> map_of fs)) ?gs)"
  proof (rule Cons.IH)
    show "simple_key k' \<and> simple_value (esc v')" if "(k', v') \<in> set fs" for k' v'
      by (rule Cons.prems(1)) (simp add: that)
  qed (use Cons.prems(2) gs in simp_all)
  also have "\<dots> = unparse (map (fill ((map_option esc \<circ> map_of fs) ++ m)) gs)"
    by (simp add: fill_fill comp_def)
  also have "(map_option esc \<circ> map_of fs) ++ m = map_option esc \<circ> map_of (kv # fs)"
    by (auto simp: kv m_def)
  finally show ?case .
qed

lemma unresolved_text: "CHR ''{'' \<notin> set p \<Longrightarrow> HasUnresolvedPlaceholders (p @ r) \<longleftrightarrow> HasUnresolvedPlaceholders r"
  by (induction p) (auto simp: has_prefix_def)

lemma unresolved_hole:
  assumes "braceless k"
  shows "HasUnresolvedPlaceholders (unparse1 (Hole a k b) @ r)"
proof -
  let ?t = "replicate a CHR '' '' @ k @ replicate b CHR '' ''"
  have "dropWhile not_brace (?t @ CHR ''}'' # CHR ''}'' # r) = CHR ''}'' # CHR ''}'' # r"
    using assms braceless_replicate by (subst dropWhile_append2) (auto simp: braceless_def list_all_iff not_brace_def)
  then show ?thesis by (simp add: has_prefix_def)
qed

lemma unresolved_unparse:
  "list_all segment_ok gs \<Longrightarrow> HasUnresolvedPlaceholders (unparse gs) \<longleftrightarrow> (\<exists>a k b. Hole a k b \<in> set gs)"
proof (induction gs)
  case (Cons g gs)
  show ?case
  proof (cases g)
    case (Text s)
    then show ?thesis
      using Cons unresolved_text [of s "unparse gs"] braceless_open [of s] by (simp add: unparse_def)
  next
    case (Hole a k b)
    then have "HasUnresolvedPlaceholders (unparse (g # gs))"
      using Cons.prems unresolved_hole [of k a b "unparse gs"] by (simp add: unparse_def del: unparse1.simps)
    then show ?thesis using Hole by auto
  qed
qed (simp add: unparse_def)

lemma QueryEscape_simple: "simple_value (QueryEscape v)"
proof -
  have hex: "not_brace (''0123456789ABCDEF'' ! n) \<and> ''0123456789ABCDEF'' ! n \<noteq> CHR ''$''" if "n < 16" for n
  proof -
    have "''0123456789ABCDEF'' ! n \<in> set ''0123456789ABCDEF''" using that by (intro nth_mem) simp
    then show ?thesis by (auto simp: not_brace_def)
  qed
  have "not_brace c \<and> c \<noteq> CHR ''$''" if "unreserved c" for c
    using that by (auto simp: unreserved_def not_brace_def Let_def)
  note plain = this
  have "not_brace d \<and> d \<noteq> CHR ''$''" if "d \<in> set (query_char c)" for c d
  proof -
    have "code c div 16 < 16" "code c mod 16 < 16" using code_lt [of c] by (simp_all add: less_mult_imp_div_less)
    note hs = hex [OF this(1)] hex [OF this(2)]
    have "d = CHR ''+'' \<or> d = CHR ''%'' \<or> unreserved d \<or> d = ''0123456789ABCDEF'' ! (code c div 16) \<or>
        d = ''0123456789ABCDEF'' ! (code c mod 16)"
      using that unfolding query_char_def by (simp split: if_splits; blast)
    then show ?thesis using hs plain by (elim disjE) (simp_all add: not_brace_def)
  qed
  then show ?thesis by (auto simp: simple_value_def braceless_def list_all_iff QueryEscape_def)
qed

lemma mapped_ran: "(map_option f \<circ> m) k = None \<longleftrightarrow> m k = None"
  by (simp add: comp_def)

lemma hole_filled:
  "Hole a k b \<in> set (map (fill m) gs) \<longleftrightarrow> Hole a k b \<in> set gs \<and> m k = None"
proof -
  have "Hole a k b = fill m g \<longleftrightarrow> Hole a k b = g \<and> m k = None" for g
    by (cases g) (auto split: option.split)
  then show ?thesis unfolding set_map image_iff by auto
qed

lemma filled_url:
  assumes "list_all segment_ok gs" and "iterates fs m" and "\<forall>k \<in> dom m. simple_key k"
  shows "ReplaceCustomFieldsInURL X (unparse gs) fs = unparse (map (fill (map_option QueryEscape \<circ> m)) gs)"
    and "list_all segment_ok (map (fill (map_option QueryEscape \<circ> m)) gs)"
proof -
  have key: "simple_key k" if "(k, v) \<in> set fs" for k v
    using assms(2,3) that by (auto simp: iterates_def)
  show "ReplaceCustomFieldsInURL X (unparse gs) fs = unparse (map (fill (map_option QueryEscape \<circ> m)) gs)"
    unfolding ReplaceCustomFieldsInURL_def
    using replaceCustomFields_unparse [of fs QueryEscape gs X] key QueryEscape_simple assms(1,2)
    by (simp add: iterates_def)
  have "segment_ok (fill (map_option QueryEscape \<circ> m) g)" if "segment_ok g" for g
    using that QueryEscape_simple by (intro fill_ok) (auto simp: simple_value_def)
  then show "list_all segment_ok (map (fill (map_option QueryEscape \<circ> m)) gs)"
    using assms(1) by (auto simp: list_all_iff)
qed

text \<open>
  Rendering is what the documentation says it is, on ordinary templates.  Take a template whose braces
  all belong to placeholders, and fields named by plain characters.  Whatever the order in which the map
  of fields is ranged over, substitution into a URL replaces every placeholder whose name is a field by
  the percent-encoded value, whatever the value, and leaves the others as they are, so that a placeholder
  is reported unresolved exactly when its name is no field; substitution into a body does the same with the
  values themselves as long as they hold no brace and no dollar sign.
\<close>

theorem render_exact:
  assumes "list_all segment_ok gs" and "iterates fs m" and "\<forall>k \<in> dom m. simple_key k"
  shows "ReplaceCustomFieldsInURL X (unparse gs) fs = unparse (map (fill (map_option QueryEscape \<circ> m)) gs) \<and>
     (HasUnresolvedPlaceholders (ReplaceCustomFieldsInURL X (unparse gs) fs) \<longleftrightarrow>
        (\<exists>a k b. Hole a k b \<in> set gs \<and> m k = None)) \<and>
     ((\<forall>k v. m k = Some v \<longrightarrow> simple_value v) \<longrightarrow>
        ReplaceCustomFields X (unparse gs) fs = unparse (map (fill m) gs))"
proof -
  have body: "ReplaceCustomFields X (unparse gs) fs = unparse (map (fill m) gs)"
    if v: "\<forall>k v. m k = Some v \<longrightarrow> simple_value v"
  proof -
    have "simple_key k \<and> simple_value v" if "(k, v) \<in> set fs" for k v
      using assms(2,3) v that by (auto simp: iterates_def)
    then have "ReplaceCustomFields X (unparse gs) fs = unparse (map (fill (map_option (\<lambda>v. v) \<circ> m)) gs)"
      unfolding ReplaceCustomFields_def
      using replaceCustomFields_unparse [of fs "\<lambda>v. v" gs X] assms(1,2) by (simp add: iterates_def)
    moreover have "map_option (\<lambda>v. v) \<circ> m = m" by (rule ext) (simp add: option.map_ident)
    ultimately show ?thesis by simp
  qed
  have "HasUnresolvedPlaceholders (ReplaceCustomFieldsInURL X (unparse gs) fs) \<longleftrightarrow>
      (\<exists>a k b. Hole a k b \<in> set gs \<and> m k = None)"
    using unresolved_unparse [OF filled_url(2) [OF assms]] filled_url(1) [OF assms, where X = X]
    by (simp only: hole_filled mapped_ran)
  then show ?thesis using filled_url(1) [OF assms] body by blast
qed

definition ascii_regexp :: regexp_lib where
  "ascii_regexp = \<lparr>rx_replace = (\<lambda>k v s. None), rx_letter = (\<lambda>r. False)\<rparr>"

lemma render_exact_witness:
  "ReplaceCustomFieldsInURL ascii_regexp ''https://k.dev/?m={{ email }}&t={{t}}'' [(''email'', ''a+b@x.org'')] =
     ''https://k.dev/?m=a%2Bb%40x.org&t={{t}}'' \<and>
   HasUnresolvedPlaceholders (ReplaceCustomFieldsInURL ascii_regexp ''https://k.dev/?m={{ email }}&t={{t}}''
     [(''email'', ''a+b@x.org'')])"
proof -
  let ?gs = "[Text ''https://k.dev/?m='', Hole 1 ''email'' 1, Text ''&t='', Hole 0 ''t'' 0]"
  have ok: "list_all segment_ok ?gs" by code_simp
  have "simple_key ''email''" by code_simp
  then have k: "\<forall>k \<in> dom [''email'' \<mapsto> ''a+b@x.org'']. simple_key k" by simp
  have i: "iterates [(''email'', ''a+b@x.org'')] [''email'' \<mapsto> ''a+b@x.org'']"
    by (simp add: iterates_def)
  have u: "unparse ?gs = ''https://k.dev/?m={{ email }}&t={{t}}''"
    "unparse (map (fill (map_option QueryEscape \<circ> [''email'' \<mapsto> ''a+b@x.org''])) ?gs) =
       ''https://k.dev/?m=a%2Bb%40x.org&t={{t}}''" by code_simp+
  have h: "Hole 0 ''t'' 0 \<in> set ?gs" "[''email'' \<mapsto> ''a+b@x.org''] ''t'' = None" by simp_all
  from render_exact [OF ok i k, where X = ascii_regexp] h show ?thesis unfolding u by blast
qed

text \<open>
  Outside those conditions: a dollar sign in a value is read as a reference to a group of the expression,
  and a value that itself looks like a placeholder is substituted again or not, by the order of the map.
\<close>

lemma dollar_in_value_lost:
  "ReplaceCustomFields ascii_regexp ''Pay {{ sum }}.'' [(''sum'', ''$100'')] = ''Pay .''"
  by code_simp

lemma order_decides:
  "ReplaceCustomFields ascii_regexp ''Hi {{name}}'' [(''name'', ''{{email}}''), (''email'', ''a@x.org'')] = ''Hi a@x.org''"
  "ReplaceCustomFields ascii_regexp ''Hi {{name}}'' [(''email'', ''a@x.org''), (''name'', ''{{email}}'')] = ''Hi {{email}}''"
  by code_simp+

end
