(* ===== verification/Intake.thy ===== *)
theory Intake
  imports ApiKeys Domains TemplateStore Template TrackingWire Smtp Messages
begin

text \<open>
  \<open>pkg/api/mailapi/mailer.go\<close>: the Mailer API from the credential of a request to the Deliveries it
  queues.  A request is the record of the message the generated code decodes, a nil message being \<open>None\<close>;
  the tables the handlers touch are the record \<open>mail_db\<close>.  What a request meets on its way - clocks, fresh
  identifiers, the orders maps are ranged over, the state of the database at each statement - is a
  \<open>send_call\<close>; what the service was built with is a \<open>mail_service\<close>.
\<close>

section \<open>Requests and replies\<close>

record wire_recipient =
  wr_email :: string
  wr_fields :: gomap
  wr_tracking :: "wire_policy option"

record SendTemplateReq =
  rq_sender :: "Sender option"
  rq_subject :: string
  rq_template :: template_id
  rq_scheduled :: "go_time option"
  rq_recipients :: "wire_recipient option list"
  rq_attachments :: "(string \<times> string) list"
  rq_global :: gomap
  rq_headers :: "Headers option"
  rq_tracking :: "wire_policy option"
  rq_unsubscribe :: "string option"

record SendHTMLReq =
  hq_html :: string
  hq_req :: SendTemplateReq \<comment> \<open>the fields the two requests share; its template id is not read\<close>

datatype rejectionReason =
  reasonInvalidEmail | reasonTrackingAboveCeiling | reasonUnsupportedTrackingMode | reasonUnsubscribeURLUnresolved

fun reason_string :: "rejectionReason \<Rightarrow> string" where
  "reason_string reasonInvalidEmail = ''invalid_email''"
| "reason_string reasonTrackingAboveCeiling = ''tracking_above_ceiling''"
| "reason_string reasonUnsupportedTrackingMode = ''unsupported_tracking_mode''"
| "reason_string reasonUnsubscribeURLUnresolved = ''unsubscribe_url_unresolved''"

type_synonym RejectedRecipient = "string \<times> string" \<comment> \<open>email, reason\<close>

record SendRes =
  rs_message :: string
  rs_template :: template_id
  rs_scheduled :: go_time
  rs_accepted :: int
  rs_rejected_count :: int
  rs_rejected :: "RejectedRecipient list"

datatype send_error =
    InvalidOrWrongAuth
  | HeaderUnsafe string
  | CannotFindTemplate template_id
  | CannotCreateTemplate template_error
  | SenderRequiredBy
  | InvalidSenderEmail string
  | SenderNotAuthorized string string
  | SendNoPrincipal
  | InvalidToHeader string
  | InvalidCcHeader string
  | UnreadableTracking wire_error
  | BatchAboveCeiling "CeilingViolation list"
  | InvalidBatch batch_error
  | BatchNotStored batch_repo_error
  | NotScheduled batch_id delivery_error

text \<open>The code a client sees; an error without one of its own is \<open>CodeUnknown\<close>.\<close>

fun send_code :: "send_error \<Rightarrow> connect_code" where
  "send_code (HeaderUnsafe f) = CodeInvalidArgument"
| "send_code SenderRequiredBy = CodeInvalidArgument"
| "send_code (InvalidSenderEmail e) = CodeInvalidArgument"
| "send_code (SenderNotAuthorized h t) = CodePermissionDenied"
| "send_code SendNoPrincipal = CodePermissionDenied"
| "send_code (InvalidToHeader e) = CodeInvalidArgument"
| "send_code (InvalidCcHeader e) = CodeInvalidArgument"
| "send_code (UnreadableTracking e) = CodeInvalidArgument"
| "send_code (BatchAboveCeiling vs) = CodeInvalidArgument"
| "send_code (InvalidBatch e) = CodeInvalidArgument"
| "send_code InvalidOrWrongAuth = CodeUnknown"
| "send_code (CannotFindTemplate i) = CodeUnknown"
| "send_code (CannotCreateTemplate e) = CodeUnknown"
| "send_code (BatchNotStored e) = CodeUnknown"
| "send_code (NotScheduled i e) = CodeUnknown"

section \<open>The service and what a request meets\<close>

record mail_service =
  ms_unicode :: unicode
  ms_regexp :: regexp_lib
  ms_url :: url_parser
  ms_digest :: "string \<Rightarrow> string"
  ms_oor :: "int \<Rightarrow> duration"
  ms_backoff :: "BackoffPolicy option"
  ms_window :: duration

record mail_db =
  md_domains :: domain_table
  md_keys :: key_rows
  md_templates :: template_table
  md_messages :: messages
  md_pool :: pool_table

record send_call =
  sc_now :: go_time
  sc_auth_now :: go_time
  sc_keys :: key_call
  sc_domains :: domain_call
  sc_find :: template_call
  sc_create :: template_call
  sc_html_cuid :: string
  sc_template_cuid :: string
  sc_batch_cuid :: string
  sc_message_ok :: "message_row \<Rightarrow> bool"
  sc_pool_ok :: "pool_row \<Rightarrow> bool"
  sc_range :: "nat \<Rightarrow> (string \<rightharpoonup> string) \<Rightarrow> fields" \<comment> \<open>0 for the global fields, then one per Recipient\<close>

definition as_map :: "gomap \<Rightarrow> (string \<rightharpoonup> string)" where
  "as_map m = (case m of None \<Rightarrow> Map.empty | Some f \<Rightarrow> f)"

section \<open>Authentication\<close>

text \<open>
  The standard alphabet of \<open>base64\<close> differs from the URL-safe one in two letters, and knows neither of
  the two it replaces.
\<close>

definition std_letter :: "char \<Rightarrow> char" where
  "std_letter c =
     (if c = CHR ''+'' then CHR ''-'' else if c = CHR ''/'' then CHR ''_''
      else if c = CHR ''-'' \<or> c = CHR ''_'' then CHR ''!'' else c)"

definition std_decode :: "string \<Rightarrow> string option" where
  "std_decode s = b64_decode (map std_letter s)"

definition credentials :: "unicode \<Rightarrow> string \<Rightarrow> (DomainName \<times> string) option" where
  "credentials U auth =
     (if \<not> has_prefix ''Basic '' auth then None
      else case std_decode (drop (length ''Basic '') auth) of
        None \<Rightarrow> None
      | Some data \<Rightarrow>
          (case split_char CHR '':'' data of
             [domainName, key] \<Rightarrow> (case parse U domainName of Inl _ \<Rightarrow> None | Inr d \<Rightarrow> Some (d, key))
           | _ \<Rightarrow> None))"

definition authenticate :: "mail_service \<Rightarrow> send_call \<Rightarrow> string \<Rightarrow> mail_db \<Rightarrow> (ctx \<times> Domain) option" where
  "authenticate s c auth db =
     (case credentials (ms_unicode s) auth of
        None \<Rightarrow> None
      | Some (callDomain, key) \<Rightarrow>
          (case ValidateForAuth (ms_digest s) (sql_key_repo (ms_unicode s) (sc_keys c)) (sc_auth_now c) callDomain key (md_keys db) of
             Inl _ \<Rightarrow> None
           | Inr apiKey \<Rightarrow>
               (case key_principal (ms_unicode s) apiKey of
                  None \<Rightarrow> None
                | Some pr \<Rightarrow>
                    (case domains_FindByName (ms_unicode s) (sc_domains c) (ak_domain apiKey) (md_domains db) of
                       Inl _ \<Rightarrow> None
                     | Inr domain \<Rightarrow> Some (\<lparr>c_principal = Some pr, c_now = sc_now c\<rparr>, domain)))))"

section \<open>The From address\<close>

definition assertHeaderSafe :: "string \<Rightarrow> string \<Rightarrow> send_error + unit" where
  "assertHeaderSafe field v =
     (if list_ex (\<lambda>c. c = CHR 0x0D \<or> c = CHR 0x0A) v then Inl (HeaderUnsafe field) else Inr ())"

record senderAddress =
  sa_host :: string
  sa_canonical :: DomainName

definition canonicalSenderHost :: "unicode \<Rightarrow> string \<Rightarrow> DomainName" where
  "canonicalSenderHost U host =
     (case parse U (trim_suffix ''.'' (trim_space U host)) of Inl _ \<Rightarrow> DomainName [] | Inr f \<Rightarrow> f)"

definition senderAddressOf :: "unicode \<Rightarrow> Sender option \<Rightarrow> send_error + senderAddress" where
  "senderAddressOf U s =
     (case s of
        None \<Rightarrow> Inl SenderRequiredBy
      | Some sender \<Rightarrow>
          bindR (assertHeaderSafe ''sender alias'' (sender_alias sender)) (\<lambda>_.
            case GetEmailDomain (sender_email sender) of
              None \<Rightarrow> Inl (InvalidSenderEmail (sender_email sender))
            | Some host \<Rightarrow> Inr \<lparr>sa_host = host, sa_canonical = canonicalSenderHost U host\<rparr>))"

definition isParentDomain :: "DomainName \<Rightarrow> DomainName \<Rightarrow> bool" where
  "isParentDomain from tenant =
     (if dn_string from = [] \<or> dn_string tenant = [] then False
      else has_suffix (''.'' @ dn_string from) (dn_string tenant))"

definition senderBatches :: "DomainName \<Rightarrow> DomainName \<Rightarrow> Resource" where
  "senderBatches from tenant = (if isParentDomain from tenant then Batches tenant else Batches from)"

definition sendError :: "send_error guarded_error \<Rightarrow> string \<Rightarrow> string \<Rightarrow> send_error" where
  "sendError err host tenant =
     (case err of
        AuthzError ErrForbidden \<Rightarrow> SenderNotAuthorized host tenant
      | AuthzError ErrNoPrincipal \<Rightarrow> SendNoPrincipal
      | OpError e \<Rightarrow> e)"

section \<open>Templates\<close>

definition createTransientTemplate ::
  "mail_service \<Rightarrow> send_call \<Rightarrow> string \<Rightarrow> DomainName \<Rightarrow> string \<Rightarrow> mail_db \<Rightarrow> (template_error + Template) \<times> mail_db" where
  "createTransientTemplate s c cuid domain html db =
     (case templates_Create (ms_unicode s) (sc_create c) (NewTransient cuid domain html) (md_templates db) of
        (r, t) \<Rightarrow> (r, db\<lparr>md_templates := t\<rparr>))"

text \<open>A map is empty when ranging over it meets no entry.\<close>

definition createTemplateWithGlobalFields ::
  "mail_service \<Rightarrow> send_call \<Rightarrow> Template \<Rightarrow> gomap \<Rightarrow> mail_db \<Rightarrow> (template_error + Template) \<times> mail_db" where
  "createTemplateWithGlobalFields s c template globalFields db =
     (if sc_range c 0 (as_map globalFields) = [] then (Inr template, db)
      else
        let newHTML = ReplaceCustomFields (ms_regexp s) (tp_html template) (sc_range c 0 (as_map globalFields)) in
        if newHTML = tp_html template then (Inr template, db)
        else createTransientTemplate s c (sc_template_cuid c) (tp_domain template) newHTML db)"

section \<open>Recipients\<close>

record statedRecipient =
  st_recipient :: Recipient
  st_tracking_err :: "wire_error option"

text \<open>The getters read an absent message as an empty one; a Policy that did not translate is the zero one.\<close>

definition recipientFromRequest :: "wire_recipient option \<Rightarrow> statedRecipient" where
  "recipientFromRequest r =
     (let (email, fs, w) = (case r of None \<Rightarrow> ([], None, None) | Some x \<Rightarrow> (wr_email x, wr_fields x, wr_tracking x));
          (policy, err) = (case ToPolicy w of Inl e \<Rightarrow> (zero_policy, Some e) | Inr p \<Rightarrow> (p, None)) in
      \<lparr>st_recipient = \<lparr>rcp_email = email, rcp_fields = fs, rcp_tracking = policy\<rparr>, st_tracking_err = err\<rparr>)"

definition recipientsFromRequest :: "wire_recipient option list \<Rightarrow> statedRecipient list" where
  "recipientsFromRequest rs = map recipientFromRequest rs"

definition unsubscribeFromRequest :: "string option \<Rightarrow> OneClickUnsubscribe" where
  "unsubscribeFromRequest u = (case u of None \<Rightarrow> [] | Some template \<Rightarrow> template)"

text \<open>True when the Recipient's fields resolve the URL; the fields are ranged over as \<open>fs\<close>.\<close>

definition unresolvedUnsubscribeURL :: "regexp_lib \<Rightarrow> OneClickUnsubscribe \<Rightarrow> fields \<Rightarrow> bool" where
  "unresolvedUnsubscribeURL X u fs =
     (if ocu_is_zero u then True
      else if HasUnresolvedPlaceholders (ReplaceCustomFieldsInURL X u fs) then False
      else True)"

definition resolveRecipientTracking :: "policy \<Rightarrow> policy \<Rightarrow> statedRecipient \<Rightarrow> rejectionReason + policy" where
  "resolveRecipientTracking domainPolicy batchPolicy r =
     (if st_tracking_err r \<noteq> None then Inl reasonUnsupportedTrackingMode
      else if CeilingViolations domainPolicy (rcp_tracking (st_recipient r)) \<noteq> [] then Inl reasonTrackingAboveCeiling
      else Inr (Resolve domainPolicy batchPolicy (rcp_tracking (st_recipient r))))"

record intake =
  in_deliveries :: "Delivery list"
  in_rejected :: "RejectedRecipient list"

definition reject :: "string \<Rightarrow> rejectionReason \<Rightarrow> intake \<Rightarrow> intake" where
  "reject email reason taken = taken\<lparr>in_rejected := in_rejected taken @ [(email, reason_string reason)]\<rparr>"

text \<open>The loop over the Recipients; \<open>n\<close> counts them for the order their fields are ranged over in.\<close>

fun intake_loop ::
  "mail_service \<Rightarrow> send_call \<Rightarrow> Domain \<Rightarrow> Batch \<Rightarrow> go_time \<Rightarrow> nat \<Rightarrow> statedRecipient list \<Rightarrow> intake \<Rightarrow> intake" where
  "intake_loop s c domain b scheduled n [] taken = taken"
| "intake_loop s c domain b scheduled n (r # rs) taken =
     (let rcp = st_recipient r in
      intake_loop s c domain b scheduled (Suc n) rs
        (if \<not> HasAddress (ms_unicode s) rcp then reject (rcp_email rcp) reasonInvalidEmail taken
         else case resolveRecipientTracking (do_tracking domain) (b_tracking b) r of
           Inl reason \<Rightarrow> reject (rcp_email rcp) reason taken
         | Inr policy \<Rightarrow>
             if \<not> unresolvedUnsubscribeURL (ms_regexp s) (b_unsubscribe b)
                   (sc_range c (Suc n) (EffectiveFields (rcp_email rcp) (rcp_fields rcp)))
             then reject (rcp_email rcp) reasonUnsubscribeURLUnresolved taken
             else case NewDelivery (ms_oor s)
                 \<lparr>dp_batch = b_id b, dp_email = rcp_email rcp, dp_fields = rcp_fields rcp, dp_domain = b_domain b,
                  dp_scheduled = scheduled, dp_backoff = ms_backoff s, dp_window = ms_window s, dp_tracking = policy\<rparr> of
               Inl _ \<Rightarrow> reject (rcp_email rcp) reasonInvalidEmail taken
             | Inr d \<Rightarrow> taken\<lparr>in_deliveries := in_deliveries taken @ [d]\<rparr>))"

definition scheduleBatch ::
  "mail_service \<Rightarrow> send_call \<Rightarrow> Domain \<Rightarrow> Batch \<Rightarrow> statedRecipient list \<Rightarrow> go_time \<Rightarrow> mail_db \<Rightarrow>
     (send_error + intake) \<times> mail_db" where
  "scheduleBatch s c domain b recipients scheduled db =
     (case batch_create (sc_message_ok c) b (md_messages db) of
        (Inl e, m) \<Rightarrow> (Inl (BatchNotStored e), db\<lparr>md_messages := m\<rparr>)
      | (Inr _, m) \<Rightarrow>
          (let db' = db\<lparr>md_messages := m\<rparr>;
               taken = intake_loop s c domain b scheduled 0 recipients \<lparr>in_deliveries = [], in_rejected = []\<rparr> in
           if in_deliveries taken = [] then (Inr taken, db')
           else case Schedule (sc_pool_ok c) (in_deliveries taken) (md_pool db') of
             (Inl e, p) \<Rightarrow> (Inl (NotScheduled (b_id b) e), db'\<lparr>md_pool := p\<rparr>)
           | (Inr _, p) \<Rightarrow> (Inr taken, db'\<lparr>md_pool := p\<rparr>)))"

section \<open>The send\<close>

definition validateHeaders :: "Headers option \<Rightarrow> send_error + Headers" where
  "validateHeaders h =
     (case h of
        None \<Rightarrow> Inr \<lparr>hdr_to = [], hdr_cc = []\<rparr>
      | Some hs \<Rightarrow>
          (case List.find (\<lambda>e. \<not> Validate e) (hdr_to hs) of
             Some e \<Rightarrow> Inl (InvalidToHeader e)
           | None \<Rightarrow>
               (case List.find (\<lambda>e. \<not> Validate e) (hdr_cc hs) of
                  Some e \<Rightarrow> Inl (InvalidCcHeader e)
                | None \<Rightarrow> Inr hs)))"

definition createBatch ::
  "mail_service \<Rightarrow> send_call \<Rightarrow> Domain \<Rightarrow> Template \<Rightarrow> Sender \<Rightarrow> SendTemplateReq \<Rightarrow> mail_db \<Rightarrow>
     (send_error + SendRes) \<times> mail_db" where
  "createBatch s c domain template sender req db =
     (let scheduled = (case rq_scheduled req of None \<Rightarrow> sc_now c | Some t \<Rightarrow> t) in
      case validateHeaders (rq_headers req) of
        Inl e \<Rightarrow> (Inl e, db)
      | Inr customHeaders \<Rightarrow>
          (case ToPolicy (rq_tracking req) of
             Inl e \<Rightarrow> (Inl (UnreadableTracking e), db)
           | Inr batchPolicy \<Rightarrow>
               if CeilingViolations (do_tracking domain) batchPolicy \<noteq> []
               then (Inl (BatchAboveCeiling (CeilingViolations (do_tracking domain) batchPolicy)), db)
               else case NewBatch (ms_unicode s) (ms_url s) (sc_batch_cuid c)
                   \<lparr>np_domain = dn_string (do_name domain), np_subject = rq_subject req, np_sender = sender,
                    np_template = tp_id template, np_attachments = Some (map_of (rev (rq_attachments req))),
                    np_headers = customHeaders, np_unsubscribe = unsubscribeFromRequest (rq_unsubscribe req),
                    np_tracking = batchPolicy\<rparr> of
                 Inl e \<Rightarrow> (Inl (InvalidBatch e), db)
               | Inr b \<Rightarrow>
                   (case scheduleBatch s c domain b (recipientsFromRequest (rq_recipients req)) scheduled db of
                      (Inl e, db') \<Rightarrow> (Inl e, db')
                    | (Inr taken, db') \<Rightarrow>
                        (Inr \<lparr>rs_message = b_id b, rs_template = tp_id template, rs_scheduled = scheduled,
                              rs_accepted = int32 (int (length (in_deliveries taken))),
                              rs_rejected_count = int32 (int (length (in_rejected taken))),
                              rs_rejected = in_rejected taken\<rparr>, db'))))"

text \<open>\<open>sendTemplate\<close>, for a request that authenticated as \<open>x\<close> for \<open>domain\<close>.\<close>

definition send_template ::
  "mail_service \<Rightarrow> send_call \<Rightarrow> ctx \<Rightarrow> Domain \<Rightarrow> SendTemplateReq \<Rightarrow> Decision list \<Rightarrow> mail_db \<Rightarrow>
     (send_error + SendRes) \<times> Decision list \<times> mail_db" where
  "send_template s c x domain req recs db =
     (case assertHeaderSafe ''subject'' (rq_subject req) of
        Inl e \<Rightarrow> (Inl e, recs, db)
      | Inr _ \<Rightarrow>
      (case templates_FindByDomain (ms_unicode s) (sc_find c) (do_name domain) (rq_template req) (md_templates db) of
        Inl _ \<Rightarrow> (Inl (CannotFindTemplate (rq_template req)), recs, db)
      | Inr template0 \<Rightarrow>
      (case createTemplateWithGlobalFields s c template0 (rq_global req) db of
        (Inl e, db1) \<Rightarrow> (Inl (CannotCreateTemplate e), recs, db1)
      | (Inr template, db1) \<Rightarrow>
      (case senderAddressOf (ms_unicode s) (rq_sender req) of
        Inl e \<Rightarrow> (Inl e, recs, db1)
      | Inr from \<Rightarrow>
      (case Guard x Create (senderBatches (sa_canonical from) (do_name domain))
              (createBatch s c domain template (the (rq_sender req)) req) recs db1 of
        (Inl e, recs', db2) \<Rightarrow> (Inl (sendError e (sa_host from) (dn_string (do_name domain))), recs', db2)
      | (Inr res, recs', db2) \<Rightarrow> (Inr res, recs', db2))))))"

definition SendTemplate ::
  "mail_service \<Rightarrow> send_call \<Rightarrow> string \<Rightarrow> SendTemplateReq \<Rightarrow> Decision list \<Rightarrow> mail_db \<Rightarrow>
     (send_error + SendRes) \<times> Decision list \<times> mail_db" where
  "SendTemplate s c auth req recs db =
     (case authenticate s c auth db of
        None \<Rightarrow> (Inl InvalidOrWrongAuth, recs, db)
      | Some (x, domain) \<Rightarrow> send_template s c x domain req recs db)"

definition SendHTML ::
  "mail_service \<Rightarrow> send_call \<Rightarrow> string \<Rightarrow> SendHTMLReq \<Rightarrow> Decision list \<Rightarrow> mail_db \<Rightarrow>
     (send_error + SendRes) \<times> Decision list \<times> mail_db" where
  "SendHTML s c auth hreq recs db =
     (case authenticate s c auth db of
        None \<Rightarrow> (Inl InvalidOrWrongAuth, recs, db)
      | Some (x, domain) \<Rightarrow>
          (let req = hq_req hreq;
               html = ReplaceCustomFields (ms_regexp s) (hq_html hreq) (sc_range c 0 (as_map (rq_global req))) in
           case createTransientTemplate s c (sc_html_cuid c) (do_name domain) html db of
             (Inl e, db1) \<Rightarrow> (Inl (CannotCreateTemplate e), recs, db1)
           | (Inr template, db1) \<Rightarrow>
               send_template s c x domain (req\<lparr>rq_template := tp_id template, rq_global := None\<rparr>) recs db1))"

section \<open>What became of each Recipient\<close>

text \<open>The ground on which a Recipient is refused, in the order the grounds are asked.\<close>

definition refusal :: "mail_service \<Rightarrow> Domain \<Rightarrow> Batch \<Rightarrow> fields \<Rightarrow> statedRecipient \<Rightarrow> rejectionReason option" where
  "refusal s domain b fs r =
     (if \<not> HasAddress (ms_unicode s) (st_recipient r) then Some reasonInvalidEmail
      else if st_tracking_err r \<noteq> None then Some reasonUnsupportedTrackingMode
      else if CeilingViolations (do_tracking domain) (rcp_tracking (st_recipient r)) \<noteq> [] then Some reasonTrackingAboveCeiling
      else if b_unsubscribe b \<noteq> [] \<and> HasUnresolvedPlaceholders (ReplaceCustomFieldsInURL (ms_regexp s) (b_unsubscribe b) fs)
      then Some reasonUnsubscribeURLUnresolved
      else None)"

definition queued :: "mail_service \<Rightarrow> Domain \<Rightarrow> Batch \<Rightarrow> go_time \<Rightarrow> Recipient \<Rightarrow> Delivery" where
  "queued s domain b scheduled rcp =
     \<lparr>dl_batch = b_id b, dl_email = rcp_email rcp, dl_fields = rcp_fields rcp, dl_attempts = 0, dl_domain = b_domain b,
      dl_scheduled = scheduled, dl_original = scheduled, dl_backoff = policyOrDefault (ms_oor s) (ms_backoff s),
      dl_window = windowOrDefault (ms_window s),
      dl_tracking = Resolve (do_tracking domain) (b_tracking b) (rcp_tracking rcp)\<rparr>"

text \<open>The Recipients with the order their fields are ranged over in, from the \<open>n\<close>-th.\<close>

definition ranged :: "send_call \<Rightarrow> nat \<Rightarrow> statedRecipient list \<Rightarrow> (fields \<times> statedRecipient) list" where
  "ranged c n rs =
     map (\<lambda>(i, r). (sc_range c (Suc i) (EffectiveFields (rcp_email (st_recipient r)) (rcp_fields (st_recipient r))), r))
       (zip [n..<n + length rs] rs)"

definition accepted :: "mail_service \<Rightarrow> Domain \<Rightarrow> Batch \<Rightarrow> go_time \<Rightarrow> (fields \<times> statedRecipient) list \<Rightarrow> Delivery list" where
  "accepted s domain b scheduled xs =
     map (\<lambda>(fs, r). queued s domain b scheduled (st_recipient r)) (filter (\<lambda>(fs, r). refusal s domain b fs r = None) xs)"

definition refused :: "mail_service \<Rightarrow> Domain \<Rightarrow> Batch \<Rightarrow> (fields \<times> statedRecipient) list \<Rightarrow> RejectedRecipient list" where
  "refused s domain b xs =
     map (\<lambda>(fs, r). (rcp_email (st_recipient r), reason_string (the (refusal s domain b fs r))))
       (filter (\<lambda>(fs, r). refusal s domain b fs r \<noteq> None) xs)"

lemma ranged_simps [simp]:
  "ranged c n [] = []"
  "ranged c n (r # rs) =
     (sc_range c (Suc n) (EffectiveFields (rcp_email (st_recipient r)) (rcp_fields (st_recipient r))), r) # ranged c (Suc n) rs"
  by (simp_all add: ranged_def upt_conv_Cons del: upt_Suc)

lemma ranged_snd: "map snd (ranged c n rs) = rs"
  by (induction rs arbitrary: n) auto

lemma accepted_simps [simp]:
  "accepted s domain b t [] = []"
  "accepted s domain b t ((fs, r) # xs) =
     (if refusal s domain b fs r = None then [queued s domain b t (st_recipient r)] else []) @ accepted s domain b t xs"
  by (simp_all add: accepted_def)

lemma refused_simps [simp]:
  "refused s domain b [] = []"
  "refused s domain b ((fs, r) # xs) =
     (case refusal s domain b fs r of None \<Rightarrow> [] | Some g \<Rightarrow> [(rcp_email (st_recipient r), reason_string g)]) @
     refused s domain b xs"
  by (auto simp: refused_def split: option.splits)

lemma HasAddress_nonempty: "HasAddress U r \<Longrightarrow> rcp_email r \<noteq> []"
  by (auto simp: HasAddress_def trim_space_def ascii_trim_def)

lemma intake_loop_eq:
  assumes "b_id b \<noteq> []" and "b_domain b \<noteq> []"
  shows "intake_loop s c domain b t n rs taken =
     \<lparr>in_deliveries = in_deliveries taken @ accepted s domain b t (ranged c n rs),
      in_rejected = in_rejected taken @ refused s domain b (ranged c n rs)\<rparr>"
proof (induction rs arbitrary: n taken)
  case (Cons r rs)
  let ?fs = "sc_range c (Suc n) (EffectiveFields (rcp_email (st_recipient r)) (rcp_fields (st_recipient r)))"
  consider (no) g where "refusal s domain b ?fs r = Some g" | (yes) "refusal s domain b ?fs r = None" by blast
  then show ?case
  proof cases
    case no
    then show ?thesis
      by (simp add: Cons.IH Let_def reject_def refusal_def resolveRecipientTracking_def unresolvedUnsubscribeURL_def
          ocu_is_zero_def split: if_splits)
  next
    case yes
    have "HasAddress (ms_unicode s) (st_recipient r)" using yes by (simp add: refusal_def split: if_splits)
    then have "rcp_email (st_recipient r) \<noteq> []" by (rule HasAddress_nonempty)
    with yes assms show ?thesis
      by (auto simp: Cons.IH Let_def refusal_def resolveRecipientTracking_def unresolvedUnsubscribeURL_def ocu_is_zero_def
          NewDelivery_def id_is_zero_def queued_def Normalized_Resolve split: if_splits)
  qed
qed simp

lemma NewBatch_fields:
  "NewBatch U up cuid p = Inr b \<Longrightarrow>
     b_id b = NewID cuid (np_domain p) \<and> b_id b \<noteq> [] \<and> b_domain b = np_domain p \<and> b_domain b \<noteq> [] \<and> b_tracking b = np_tracking p \<and>
     b_unsubscribe b = np_unsubscribe p \<and> b_subject b = np_subject p \<and> b_sender b = np_sender p \<and> b_template b = np_template p"
  by (auto simp: NewBatch_def NewID_def IDPrefix_def split: if_splits sum.splits)

lemma accepted_refused_length:
  "length (accepted s domain b t xs) + length (refused s domain b xs) = length xs"
  by (induction xs) (auto split: option.splits)

text \<open>
  C3. Every Recipient of a send is accounted for, once and in the order stated.  For a Batch that was built,
  intake queues one Delivery for each Recipient that no ground refuses and reports each of the others with
  the first ground that applies - no address, a Policy that cannot be read, one above the Domain's ceiling,
  an unsubscribe URL its fields leave unresolved - so that accepted and rejected add up to the Recipients
  of the request.  A queued Delivery belongs to the Batch and its Domain, keeps the address and the fields as
  stated, and its Policy exceeds neither the Domain's ceiling, nor the Batch's, nor the Recipient's own.
\<close>

theorem intake_partition:
  assumes "NewBatch U up cuid p = Inr b" and "scheduleBatch s c domain b rs t db = (Inr taken, db')"
  shows "in_rejected taken = refused s domain b (ranged c 0 rs) \<and>
     in_deliveries taken = accepted s domain b t (ranged c 0 rs) \<and>
     length (in_deliveries taken) + length (in_rejected taken) = length rs \<and>
     (\<forall>d\<in>set (in_deliveries taken).
        (\<exists>r\<in>set rs. dl_email d = rcp_email (st_recipient r) \<and> dl_fields d = rcp_fields (st_recipient r) \<and>
           CeilingViolations (rcp_tracking (st_recipient r)) (dl_tracking d) = []) \<and>
        dl_batch d = b_id b \<and> dl_domain d = b_domain b \<and>
        CeilingViolations (do_tracking domain) (dl_tracking d) = [] \<and> CeilingViolations (b_tracking b) (dl_tracking d) = [])"
proof -
  have "taken = intake_loop s c domain b t 0 rs \<lparr>in_deliveries = [], in_rejected = []\<rparr>"
    using assms(2) by (auto simp: scheduleBatch_def Let_def split: prod.splits sum.splits if_splits)
  moreover have ne: "b_id b \<noteq> []" "b_domain b \<noteq> []" using NewBatch_fields [OF assms(1)] by blast+
  ultimately have taken: "in_deliveries taken = accepted s domain b t (ranged c 0 rs)"
      "in_rejected taken = refused s domain b (ranged c 0 rs)"
    by (simp_all add: intake_loop_eq [OF ne])
  have "length (ranged c 0 rs) = length rs" using ranged_snd [of c 0 rs] by (metis length_map)
  then have len: "length (in_deliveries taken) + length (in_rejected taken) = length rs"
    unfolding taken by (simp add: accepted_refused_length)
  have "\<exists>r\<in>set rs. d = queued s domain b t (st_recipient r)" if "d \<in> set (in_deliveries taken)" for d
  proof -
    obtain fs r where "(fs, r) \<in> set (ranged c 0 rs)" "d = queued s domain b t (st_recipient r)"
      using \<open>d \<in> set (in_deliveries taken)\<close> by (auto simp: taken accepted_def)
    then show ?thesis using ranged_snd [of c 0 rs] by (metis image_eqI set_map snd_conv)
  qed
  then show ?thesis using taken len by (fastforce simp: queued_def Resolve_below)
qed

section \<open>Who may send, and what a send leaves behind\<close>

lemma authenticate_Some:
  assumes "keys_ok (md_keys db)" and "authenticate s c auth db = Some (x, domain)"
  shows "\<exists>d secret row p. credentials (ms_unicode s) auth = Some (d, secret) \<and> row \<in> set (md_keys db) \<and>
     akr_hash row = ms_digest s secret \<and> akr_domain row = dn_string d \<and> akr_active row \<and>
     key_valid_at (sc_auth_now c) (akr_expires row) \<and> c_principal x = Some p \<and>
     key_principal (ms_unicode s) (key_entity row) = Some p \<and> ak_domain (key_entity row) = d \<and>
     domains_FindByName (ms_unicode s) (sc_domains c) d (md_domains db) = Inr domain"
proof -
  obtain d secret k p where a: "credentials (ms_unicode s) auth = Some (d, secret)"
      "ValidateForAuth (ms_digest s) (sql_key_repo (ms_unicode s) (sc_keys c)) (sc_auth_now c) d secret (md_keys db) = Inr k"
      "key_principal (ms_unicode s) k = Some p" "c_principal x = Some p"
      "domains_FindByName (ms_unicode s) (sc_domains c) (ak_domain k) (md_domains db) = Inr domain"
    using assms(2) by (auto simp: authenticate_def split: option.splits sum.splits)
  have "(\<exists>i. sql_stored (md_keys db) d i = Some k \<and> ak_hash k = ms_digest s secret) \<and> IsValid (sc_auth_now c) k"
    using a(2) sql_keys.auth_iff [OF assms(1)] by blast
  then obtain row where row: "row \<in> set (md_keys db)" "akr_hash row = ms_digest s secret" "akr_domain row = dn_string d"
      "k = key_entity row" and v: "IsValid (sc_auth_now c) k"
    unfolding sql_stored_hash [OF assms(1)] by blast
  have "ak_domain k = d" using row(3,4) by (cases d) (simp add: key_entity_def)
  moreover have "akr_active row" "key_valid_at (sc_auth_now c) (akr_expires row)"
    using v by (simp_all add: IsValid_iff row(4) key_entity_def)
  ultimately show ?thesis using a row by blast
qed

lemma permitted_sender:
  assumes "c_principal x = Some p" and "key_principal U k = Some p" and "permitted x Create (senderBatches from (ak_domain k))"
  shows "from = ak_domain k \<or> isParentDomain from (ak_domain k)"
proof (cases "isParentDomain from (ak_domain k)")
  case False
  have "Can p Create (senderBatches from (ak_domain k))" using assms(1,3) by (simp add: permitted_def)
  then have "beneath (Batches (ak_domain k)) (Batches from)"
    using False by (simp add: key_principal_Can [OF assms(2)] senderBatches_def)
  then show ?thesis by (cases "from"; cases "ak_domain k") (auto simp: beneath_def Batches_def under_def)
qed simp

text \<open>A send writes to the tables of Templates, Batches and Deliveries only.\<close>

definition same_accounts :: "mail_db \<Rightarrow> mail_db \<Rightarrow> bool" where
  "same_accounts db db' \<longleftrightarrow> md_keys db' = md_keys db \<and> md_domains db' = md_domains db"

lemma createTransientTemplate_db:
  "createTransientTemplate s c cuid d html db = (r, db') \<Longrightarrow>
     same_accounts db db' \<and> md_messages db' = md_messages db \<and> md_pool db' = md_pool db"
  by (auto simp: createTransientTemplate_def same_accounts_def split: prod.splits)

lemma createTemplateWithGlobalFields_db:
  "createTemplateWithGlobalFields s c tpl g db = (r, db') \<Longrightarrow>
     same_accounts db db' \<and> md_messages db' = md_messages db \<and> md_pool db' = md_pool db"
  using createTransientTemplate_db
  by (fastforce simp: createTemplateWithGlobalFields_def Let_def same_accounts_def split: if_splits)

text \<open>What a batch that goes in means for the tables, and one that does not.\<close>

definition batch_entered :: "mail_service \<Rightarrow> send_call \<Rightarrow> Domain \<Rightarrow> Sender \<Rightarrow> SendTemplateReq \<Rightarrow> mail_db \<Rightarrow> SendRes \<Rightarrow> mail_db \<Rightarrow> bool" where
  "batch_entered s c domain sender req db res db' \<longleftrightarrow>
     (\<exists>p b taken. NewBatch (ms_unicode s) (ms_url s) (sc_batch_cuid c) p = Inr b \<and>
        np_domain p = dn_string (do_name domain) \<and> np_sender p = sender \<and> np_unsubscribe p = unsubscribeFromRequest (rq_unsubscribe req) \<and>
        ToPolicy (rq_tracking req) = Inr (np_tracking p) \<and> CeilingViolations (do_tracking domain) (np_tracking p) = [] \<and>
        scheduleBatch s c domain b (recipientsFromRequest (rq_recipients req)) (rs_scheduled res) db = (Inr taken, db') \<and>
        rs_message res = b_id b \<and> rs_rejected res = in_rejected taken \<and>
        rs_accepted res = int32 (int (length (in_deliveries taken))) \<and>
        rs_rejected_count res = int32 (int (length (in_rejected taken))))"

lemma scheduleBatch_failed:
  assumes "scheduleBatch s c domain b rs t db = (Inl e, db')"
  shows "same_accounts db db' \<and> md_templates db' = md_templates db \<and> rows (md_pool db') = rows (md_pool db) \<and>
     (md_messages db' = md_messages db \<or> (\<exists>x. e = NotScheduled (b_id b) x \<and> md_messages db' = (md_messages db)(b_id b \<mapsto> batch_row b)))"
proof -
  have pool: "Schedule adm ds p = (Inl x, p') \<Longrightarrow> rows p' = rows p" for adm ds p x p'
    by (auto simp: Schedule_def CreatePool_def Let_def split: if_splits)
  have id: "m_id (batch_row b) = b_id b" by (simp add: batch_row_def)
  show ?thesis
    using assms by (auto simp: scheduleBatch_def batch_create_def Let_def same_accounts_def id dest: pool split: if_splits prod.splits sum.splits)
qed

lemma createBatch_cases:
  assumes "createBatch s c domain tpl sender req db = (r, db')"
  shows "case r of
      Inl e \<Rightarrow> same_accounts db db' \<and> rows (md_pool db') = rows (md_pool db) \<and>
        (md_messages db' = md_messages db \<or> (\<exists>i x. e = NotScheduled i x))
    | Inr res \<Rightarrow> batch_entered s c domain sender req db res db'"
proof (cases r)
  case (Inl e)
  have "(db' = db) \<or> (\<exists>b rs t. scheduleBatch s c domain b rs t db = (Inl e, db'))"
    using assms Inl by (auto simp: createBatch_def Let_def split: sum.splits if_splits prod.splits)
  then show ?thesis
    unfolding Inl sum.case same_accounts_def using scheduleBatch_failed same_accounts_def by blast
next
  case (Inr res)
  let ?t = "case rq_scheduled req of None \<Rightarrow> sc_now c | Some t \<Rightarrow> t"
  obtain p b taken where "NewBatch (ms_unicode s) (ms_url s) (sc_batch_cuid c) p = Inr b"
      "np_domain p = dn_string (do_name domain)" "np_sender p = sender"
      "np_unsubscribe p = unsubscribeFromRequest (rq_unsubscribe req)" "ToPolicy (rq_tracking req) = Inr (np_tracking p)"
      "CeilingViolations (do_tracking domain) (np_tracking p) = []"
      "scheduleBatch s c domain b (recipientsFromRequest (rq_recipients req)) ?t db = (Inr taken, db')"
      "res = \<lparr>rs_message = b_id b, rs_template = tp_id tpl, rs_scheduled = ?t,
              rs_accepted = int32 (int (length (in_deliveries taken))),
              rs_rejected_count = int32 (int (length (in_rejected taken))), rs_rejected = in_rejected taken\<rparr>"
    using assms Inr by (fastforce simp: createBatch_def Let_def split: sum.splits if_splits prod.splits)
  then show ?thesis unfolding Inr sum.case batch_entered_def by (intro exI [of _ p] exI [of _ b] exI [of _ taken]) simp
qed

text \<open>The rows a send may add: a Batch and Deliveries of its own tenant, from the Sender it states.\<close>

definition stored_for :: "string \<Rightarrow> Sender \<Rightarrow> mail_db \<Rightarrow> mail_db \<Rightarrow> bool" where
  "stored_for d sender db db' \<longleftrightarrow>
     same_accounts db db' \<and>
     (\<forall>i. md_messages db' i = md_messages db i \<or>
        (\<exists>row. md_messages db' i = Some row \<and> md_messages db i = None \<and> m_id row = i \<and> m_domain row = d \<and>
           m_sender_email row = sender_email sender \<and> m_sender_alias row = sender_alias sender)) \<and>
     (\<exists>new. rows (md_pool db') = rows (md_pool db) @ new \<and>
        (\<forall>q\<in>set new. row_domain q = d \<and> row_status q = ToValidate))"

lemma stored_for_same: "same_accounts db db' \<and> md_messages db' = md_messages db \<and> rows (md_pool db') = rows (md_pool db) \<Longrightarrow> stored_for d sn db db'"
  by (simp add: stored_for_def)

lemma scheduled_rows:
  assumes "Schedule adm ds p = (r, p')"
  shows "\<exists>new. rows p' = rows p @ new \<and> (\<forall>q\<in>set new. \<exists>j d. d \<in> set ds \<and> q = insert_row j (pool_params d))"
proof -
  have "rows p' = rows p \<or> rows p' = rows p @ insert_rows (next_id p) (map pool_params ds)"
    using assms by (auto simp: Schedule_def CreatePool_def Let_def split: if_splits)
  then show ?thesis using insert_rows_elem by (fastforce intro: exI [of _ "[]"])
qed

lemma scheduleBatch_stored:
  assumes "NewBatch U up cuid p = Inr b" and "scheduleBatch s c domain b rs t db = (r, db')"
  shows "stored_for (np_domain p) (np_sender p) db db'"
proof -
  have b: "b_id b \<noteq> []" "b_domain b = np_domain p" "b_domain b \<noteq> []" "b_sender b = np_sender p"
    using NewBatch_fields [OF assms(1)] by blast+
  define taken where "taken = intake_loop s c domain b t 0 rs \<lparr>in_deliveries = [], in_rejected = []\<rparr>"
  have dom: "dl_domain d = np_domain p" if "d \<in> set (in_deliveries taken)" for d
    using that by (auto simp: taken_def intake_loop_eq [OF b(1,3)] accepted_def queued_def b(2))
  obtain e m where m: "batch_create (sc_message_ok c) b (md_messages db) = (e, m)" by (metis surj_pair)
  have msgs: "m i = md_messages db i \<or> (\<exists>row. m i = Some row \<and> md_messages db i = None \<and> m_id row = i \<and>
      m_domain row = np_domain p \<and> m_sender_email row = sender_email (np_sender p) \<and> m_sender_alias row = sender_alias (np_sender p))" for i
    using m by (auto simp: batch_create_def Let_def batch_row_def b split: if_splits)
  have acc: "same_accounts db db'" "md_messages db' = m"
    using assms(2) m by (auto simp: scheduleBatch_def same_accounts_def Let_def split: sum.splits if_splits prod.splits)
  have "rows (md_pool db') = rows (md_pool db) \<or>
      (\<exists>x p'. Schedule (sc_pool_ok c) (in_deliveries taken) (md_pool db) = (x, p') \<and> md_pool db' = p')"
    using assms(2) m by (auto simp: scheduleBatch_def taken_def Let_def split: sum.splits if_splits prod.splits)
  then have "\<exists>new. rows (md_pool db') = rows (md_pool db) @ new \<and>
      (\<forall>q\<in>set new. \<exists>j d. d \<in> set (in_deliveries taken) \<and> q = insert_row j (pool_params d))"
    by (auto dest: scheduled_rows)
  then obtain new where new: "rows (md_pool db') = rows (md_pool db) @ new"
      "\<forall>q\<in>set new. \<exists>j d. d \<in> set (in_deliveries taken) \<and> q = insert_row j (pool_params d)" by blast
  have "\<forall>q\<in>set new. row_domain q = np_domain p \<and> row_status q = ToValidate"
    using new(2) dom by (fastforce simp: insert_row_def pool_params_def)
  then show ?thesis using acc new(1) msgs unfolding stored_for_def by auto
qed

lemma createBatch_stored:
  assumes "createBatch s c domain tpl sender req db = (r, db')"
  shows "stored_for (dn_string (do_name domain)) sender db db' \<and>
     (case r of Inl e \<Rightarrow> rows (md_pool db') = rows (md_pool db) \<and>
         (md_messages db' = md_messages db \<or> (\<exists>i x. e = NotScheduled i x)) | Inr res \<Rightarrow> True)"
proof
  let ?t = "case rq_scheduled req of None \<Rightarrow> sc_now c | Some t \<Rightarrow> t"
  have "db' = db \<or> (\<exists>p b. NewBatch (ms_unicode s) (ms_url s) (sc_batch_cuid c) p = Inr b \<and>
      np_domain p = dn_string (do_name domain) \<and> np_sender p = sender \<and>
      db' = snd (scheduleBatch s c domain b (recipientsFromRequest (rq_recipients req)) ?t db))"
  proof (cases "validateHeaders (rq_headers req)")
    case (Inl e)
    then show ?thesis using assms by (simp add: createBatch_def Let_def)
  next
    case h: (Inr hs)
    show ?thesis
    proof (cases "ToPolicy (rq_tracking req)")
      case (Inl e)
      then show ?thesis using assms h by (simp add: createBatch_def Let_def)
    next
      case w: (Inr bp)
      let ?p = "\<lparr>np_domain = dn_string (do_name domain), np_subject = rq_subject req, np_sender = sender,
          np_template = tp_id tpl, np_attachments = Some (map_of (rev (rq_attachments req))),
          np_headers = hs, np_unsubscribe = unsubscribeFromRequest (rq_unsubscribe req), np_tracking = bp\<rparr>"
      show ?thesis
      proof (cases "CeilingViolations (do_tracking domain) bp \<noteq> []")
        case True
        then show ?thesis using assms h w by (simp add: createBatch_def Let_def)
      next
        case v: False
        show ?thesis
        proof (cases "NewBatch (ms_unicode s) (ms_url s) (sc_batch_cuid c) ?p")
          case (Inl e)
          then show ?thesis using assms h w v by (simp add: createBatch_def Let_def)
        next
          case (Inr b)
          have "db' = snd (scheduleBatch s c domain b (recipientsFromRequest (rq_recipients req)) ?t db)"
            using assms h w v Inr by (auto simp: createBatch_def Let_def split: sum.splits prod.splits)
          then show ?thesis using Inr by (intro disjI2 exI [of _ ?p] exI [of _ b]) simp
        qed
      qed
    qed
  qed
  then consider "db' = db" | p b where "NewBatch (ms_unicode s) (ms_url s) (sc_batch_cuid c) p = Inr b"
      "np_domain p = dn_string (do_name domain)" "np_sender p = sender"
      "db' = snd (scheduleBatch s c domain b (recipientsFromRequest (rq_recipients req)) ?t db)" by blast
  then show "stored_for (dn_string (do_name domain)) sender db db'"
  proof cases
    case 1
    then show ?thesis by (simp add: stored_for_def same_accounts_def)
  next
    case 2
    show ?thesis
      using scheduleBatch_stored [OF 2(1) surjective_pairing, where s = s and c = c and domain = domain
          and rs = "recipientsFromRequest (rq_recipients req)" and t = ?t and db = db] unfolding 2(2-4) .
  qed
  show "case r of Inl e \<Rightarrow> rows (md_pool db') = rows (md_pool db) \<and>
         (md_messages db' = md_messages db \<or> (\<exists>i x. e = NotScheduled i x)) | Inr res \<Rightarrow> True"
    using createBatch_cases [OF assms] by (auto split: sum.splits)
qed

lemma sender_host:
  "senderAddressOf U sn = Inr a \<Longrightarrow> \<exists>x. sn = Some x \<and> GetEmailDomain (sender_email x) = Some (sa_host a) \<and>
     sa_canonical a = canonicalSenderHost U (sa_host a) \<and> assertHeaderSafe ''sender alias'' (sender_alias x) = Inr ()"
  by (cases sn; cases "assertHeaderSafe ''sender alias'' (sender_alias (the sn))")
     (auto simp: senderAddressOf_def bindR_def split: option.splits)

definition send_outcome :: "send_error + SendRes \<Rightarrow> mail_db \<Rightarrow> mail_db \<Rightarrow> bool" where
  "send_outcome r db db' \<longleftrightarrow>
     (case r of Inr _ \<Rightarrow> True
      | Inl e \<Rightarrow> rows (md_pool db') = rows (md_pool db) \<and>
          (md_messages db' = md_messages db \<or> (\<exists>i x. e = NotScheduled i x)))"

definition stored_alike :: "mail_db \<Rightarrow> mail_db \<Rightarrow> bool" where
  "stored_alike db db' \<longleftrightarrow>
     same_accounts db db' \<and> md_messages db' = md_messages db \<and> md_pool db' = md_pool db"

lemma stored_alike_trans: "stored_alike a b \<Longrightarrow> stored_alike b c \<Longrightarrow> stored_alike a c"
  by (simp add: stored_alike_def same_accounts_def)

lemma stored_alike_carry:
  "stored_alike a b \<Longrightarrow> stored_for d sn b c \<Longrightarrow> stored_for d sn a c"
  "stored_alike a b \<Longrightarrow> send_outcome r b c \<Longrightarrow> send_outcome r a c"
  by (auto simp: stored_alike_def stored_for_def send_outcome_def same_accounts_def split: sum.splits)

lemma guarded_createBatch:
  assumes "Guard x Create a (createBatch s c domain tpl sender req) recs db = (r, recs', db')"
  shows "if permitted x Create a
    then stored_for (dn_string (do_name domain)) sender db db' \<and>
      (case r of Inl e \<Rightarrow> send_outcome (Inl (sendError e h d)) db db' | Inr _ \<Rightarrow> True)
    else db' = db \<and> \<not> is_ok r"
proof (cases "permitted x Create a")
  case True
  obtain y w where y: "createBatch s c domain tpl sender req db = (y, w)" by (metis surj_pair)
  show ?thesis
    using True assms createBatch_stored [OF y]
    by (auto simp: Guard_permitted y send_outcome_def sendError_def split: sum.splits)
next
  case False
  then show ?thesis using assms by (auto simp: Guard_cases split: option.splits)
qed

lemma send_template_effect:
  assumes "send_template s c x domain req recs db = (r, recs', db')"
  shows "(stored_alike db db' \<and> \<not> is_ok r) \<or>
     (\<exists>sn a. rq_sender req = Some sn \<and> senderAddressOf (ms_unicode s) (rq_sender req) = Inr a \<and>
        permitted x Create (senderBatches (sa_canonical a) (do_name domain)) \<and>
        stored_for (dn_string (do_name domain)) sn db db' \<and> send_outcome r db db')"
proof -
  have refl: "stored_alike db db" by (simp add: stored_alike_def same_accounts_def)
  obtain u where u: "assertHeaderSafe ''subject'' (rq_subject req) = u" by blast
  obtain f where f: "templates_FindByDomain (ms_unicode s) (sc_find c) (do_name domain) (rq_template req) (md_templates db) = f" by blast
  show ?thesis
  proof (cases "is_ok u \<and> is_ok f")
    case False
    then have "r = r \<and> db' = db \<and> \<not> is_ok r"
      using assms u f by (auto simp: send_template_def split: sum.splits)
    then show ?thesis using refl by simp
  next
    case True
    then obtain tpl0 where t0: "u = Inr ()" "f = Inr tpl0" by (auto simp: is_ok_iff)
    obtain g db1 where g: "createTemplateWithGlobalFields s c tpl0 (rq_global req) db = (g, db1)" by (metis surj_pair)
    have alike: "stored_alike db db1" using createTemplateWithGlobalFields_db [OF g] by (simp add: stored_alike_def)
    show ?thesis
    proof (cases "is_ok g \<and> is_ok (senderAddressOf (ms_unicode s) (rq_sender req))")
      case False
      then have "db' = db1 \<and> \<not> is_ok r"
        using assms u f t0 g by (auto simp: send_template_def split: sum.splits)
      then show ?thesis using alike by simp
    next
      case True
      then obtain tpl a where ok: "g = Inr tpl" "senderAddressOf (ms_unicode s) (rq_sender req) = Inr a"
        by (auto simp: is_ok_iff)
      then obtain sn where sn: "rq_sender req = Some sn" using sender_host by blast
      obtain q recs2 db2 where q: "Guard x Create (senderBatches (sa_canonical a) (do_name domain))
          (createBatch s c domain tpl sn req) recs db1 = (q, recs2, db2)" by (metis surj_pair)
      have out: "r = (case q of Inl e \<Rightarrow> Inl (sendError e (sa_host a) (dn_string (do_name domain))) | Inr res \<Rightarrow> Inr res)"
          "db' = db2"
        using assms u f t0 g ok sn q by (auto simp: send_template_def split: sum.splits)
      show ?thesis
      proof (cases "permitted x Create (senderBatches (sa_canonical a) (do_name domain))")
        case True
        have "send_outcome r db1 db2 \<and> stored_for (dn_string (do_name domain)) sn db1 db2"
          using guarded_createBatch [OF q] True out(1) by (auto simp: send_outcome_def split: sum.splits)
        then show ?thesis using True sn ok(2) stored_alike_carry [OF alike] unfolding out(2) by blast
      next
        case False
        then have "db2 = db1 \<and> \<not> is_ok r" using guarded_createBatch [OF q] out(1) by (auto split: sum.splits)
        then show ?thesis using alike out(2) by simp
      qed
    qed
  qed
qed

lemma SendHTML_effect:
  assumes "SendHTML s c auth hreq recs db = (r, recs', db')" and "authenticate s c auth db = Some (x, domain)"
  shows "(stored_alike db db' \<and> \<not> is_ok r) \<or>
     (\<exists>sn a. rq_sender (hq_req hreq) = Some sn \<and> senderAddressOf (ms_unicode s) (rq_sender (hq_req hreq)) = Inr a \<and>
        permitted x Create (senderBatches (sa_canonical a) (do_name domain)) \<and>
        stored_for (dn_string (do_name domain)) sn db db' \<and> send_outcome r db db')"
proof -
  let ?html = "ReplaceCustomFields (ms_regexp s) (hq_html hreq) (sc_range c 0 (as_map (rq_global (hq_req hreq))))"
  obtain g db1 where g: "createTransientTemplate s c (sc_html_cuid c) (do_name domain) ?html db = (g, db1)" by (metis surj_pair)
  have alike: "stored_alike db db1" using createTransientTemplate_db [OF g] by (simp add: stored_alike_def)
  show ?thesis
  proof (cases g)
    case (Inl e)
    then have "db' = db1 \<and> \<not> is_ok r" using assms g by (auto simp: SendHTML_def Let_def)
    then show ?thesis using alike by simp
  next
    case (Inr tpl)
    then have "send_template s c x domain ((hq_req hreq)\<lparr>rq_template := tp_id tpl, rq_global := None\<rparr>) recs db1 = (r, recs', db')"
      using assms g by (simp add: SendHTML_def Let_def)
    from send_template_effect [OF this] show ?thesis
      using stored_alike_trans [OF alike] stored_alike_carry [OF alike] by simp blast
  qed
qed


section \<open>Sample sends\<close>

definition example_range :: "nat \<Rightarrow> (string \<rightharpoonup> string) \<Rightarrow> fields" where
  "example_range n m = map (\<lambda>k. (k, the (m k))) (filter (\<lambda>k. m k \<noteq> None) [''email'', ''name''])"

definition example_service :: mail_service where
  "example_service =
     \<lparr>ms_unicode = no_unicode, ms_regexp = ascii_regexp, ms_url = (\<lambda>_. None), ms_digest = (\<lambda>s. s), ms_oor = (\<lambda>_. 0),
      ms_backoff = None, ms_window = 0\<rparr>"

definition example_send :: send_call where
  "example_send =
     \<lparr>sc_now = 100, sc_auth_now = 100, sc_keys = example_key_call, sc_domains = example_domain_call,
      sc_find = example_template_call, sc_create = example_template_call, sc_html_cuid = ''h'', sc_template_cuid = ''t'',
      sc_batch_cuid = ''b'', sc_message_ok = (\<lambda>r. True), sc_pool_ok = (\<lambda>r. True), sc_range = example_range\<rparr>"

definition example_mail_db :: mail_db where
  "example_mail_db =
     \<lparr>md_domains = example_domains, md_keys = [example_key_row], md_templates = example_templates,
      md_messages = Map.empty, md_pool = \<lparr>rows = [], next_id = 0\<rparr>\<rparr>"

definition example_rcpt :: "string \<Rightarrow> wire_recipient option" where
  "example_rcpt e = Some \<lparr>wr_email = e, wr_fields = None, wr_tracking = None\<rparr>"

definition example_req :: "wire_recipient option list \<Rightarrow> SendTemplateReq" where
  "example_req rs =
     \<lparr>rq_sender = Some \<lparr>sender_email = ''news@k.dev'', sender_alias = ''News''\<rparr>, rq_subject = ''hi'',
      rq_template = ''template_c1@k.dev'', rq_scheduled = None, rq_recipients = rs, rq_attachments = [], rq_global = None,
      rq_headers = None, rq_tracking = None, rq_unsubscribe = None\<rparr>"

definition example_auth :: string where
  "example_auth = ''Basic ay5kZXY6c2VjcmV0''"

lemma example_accounts: "keys_ok (md_keys example_mail_db)" "domains_ok (md_domains example_mail_db)"
  by code_simp+


definition example_domain :: Domain where
  "example_domain =
     \<lparr>do_id = 1, do_name = DomainName ''k.dev'', do_private = ''priv'', do_public = ''pub'', do_created = 0,
      do_tracking = default_ceiling\<rparr>"

definition example_batch :: Batch where
  "example_batch =
     \<lparr>b_id = ''msg_c@k.dev'', b_subject = ''hi'', b_sender = \<lparr>sender_email = ''a@k.dev'', sender_alias = ''A''\<rparr>,
      b_template = ''t1'', b_domain = ''k.dev'', b_attachments = None, b_headers = \<lparr>hdr_to = [], hdr_cc = []\<rparr>,
      b_unsubscribe = [], b_tracking = zero_policy\<rparr>"

lemma intake_partition_witness:
  "\<exists>taken db'. scheduleBatch example_service example_send example_domain
       example_batch (recipientsFromRequest [example_rcpt ''a@x.org'', None]) 100 example_mail_db = (Inr taken, db') \<and>
     length (in_deliveries taken) + length (in_rejected taken) = 2 \<and> in_rejected taken = [('''', ''invalid_email'')]"
proof -
  let ?rs = "recipientsFromRequest [example_rcpt ''a@x.org'', None]"
  have b: "NewBatch no_unicode (\<lambda>_. None) ''c'' example_params = Inr example_batch"
    by (simp add: NewBatch_def example_params_def example_batch_def ocu_validate_def ocu_is_zero_def NewID_def IDPrefix_def)
  obtain r db' where s: "scheduleBatch example_service example_send example_domain example_batch ?rs 100 example_mail_db = (r, db')"
    by (metis surj_pair)
  have "is_ok (fst (scheduleBatch example_service example_send example_domain example_batch ?rs 100 example_mail_db))" by code_simp
  then obtain taken where r: "r = Inr taken" by (auto simp: s is_ok_iff)
  have "refused example_service example_domain example_batch (ranged example_send 0 ?rs) = [('''', ''invalid_email'')]" by code_simp
  moreover have "length ?rs = 2" by code_simp
  ultimately show ?thesis using intake_partition [OF b s [unfolded r]] s unfolding r by (metis (no_types))
qed

text \<open>
  Two Recipients with one address: the pool's unique index refuses the second row, the statement is undone,
  and the whole send fails, with the Batch stored and nobody queued.
\<close>

lemma duplicate_recipient_fails_the_send:
  "case SendTemplate example_service example_send example_auth (example_req [example_rcpt ''a@x.org'', example_rcpt ''a@x.org'']) []
      example_mail_db of (r, _, db) \<Rightarrow>
     (case r of Inl (NotScheduled i e) \<Rightarrow> md_messages db i \<noteq> None | _ \<Rightarrow> False) \<and> rows (md_pool db) = []"
  by code_simp

end
