(* ===== verification/Html.thy ===== *)
theory Html
  imports Values
begin

text \<open>
  The part of \<open>internal/envelope/message.go\<close> that works on HTML: the place of the open pixel, the rewriting
  of links and the removal of the opt-out attribute.  The four regular expressions are deterministic and
  are written out as scanners of bytes; \<open>(?i)\<close> folds the letter k to the Kelvin sign as well.  The callback
  that mints a redirect is a function of a state that may fail.
\<close>

section \<open>The expressions\<close>

definition space_re :: "char \<Rightarrow> bool" where
  "space_re c \<longleftrightarrow> code c \<in> {9, 10, 12, 13, 32}"

definition kelvin :: string where
  "kelvin = [CHR 0xE2, CHR 0x84, CHR 0xAA]"

text \<open>The rest after a lower-case literal matched without regard to case.\<close>

fun fold_prefix :: "string \<Rightarrow> string \<Rightarrow> string option" where
  "fold_prefix [] s = Some s"
| "fold_prefix (p # ps) [] = None"
| "fold_prefix (p # ps) (c # cs) =
     (if lower_char c = p then fold_prefix ps cs
      else if p = CHR ''k'' \<and> has_prefix kelvin (c # cs) then fold_prefix ps (drop 3 (c # cs))
      else None)"

definition quote_re :: "char \<Rightarrow> bool" where
  "quote_re c \<longleftrightarrow> c = CHR 0x22 \<or> c = CHR 0x27"

definition regBodyClose :: "string \<Rightarrow> bool" where
  "regBodyClose s =
     (case fold_prefix ''</body'' s of
        None \<Rightarrow> False
      | Some r \<Rightarrow> (case dropWhile space_re r of [] \<Rightarrow> False | c # _ \<Rightarrow> c = CHR ''>''))"

fun split_body :: "string \<Rightarrow> (string \<times> string) option" where
  "split_body [] = None"
| "split_body (c # cs) =
     (if regBodyClose (c # cs) then Some ([], c # cs)
      else (case split_body cs of None \<Rightarrow> None | Some (a, b) \<Rightarrow> Some (c # a, b)))"

definition pixel :: "string \<Rightarrow> string" where
  "pixel link = ''<img src='' @ [CHR 0x22] @ link @ [CHR 0x22] @ '' style='' @ [CHR 0x22] @ ''display:none;'' @ [CHR 0x22] @ ''/>''"

definition insertTrackLinkInHTML :: "string \<Rightarrow> string \<Rightarrow> string" where
  "insertTrackLinkInHTML html link =
     (case split_body html of None \<Rightarrow> html | Some (a, b) \<Rightarrow> a @ pixel link @ b)"

lemma dropWhile_Cons_length: "dropWhile P r = x # y \<Longrightarrow> length y < length r"
  using length_dropWhile_le [of P r] by simp

text \<open>The inside of an opening tag up to its closing bracket, quoted spans as units.\<close>

function scan_tag :: "string \<Rightarrow> string option" where
  "scan_tag s =
     (case s of
        [] \<Rightarrow> None
      | c # r \<Rightarrow>
          if c = CHR ''>'' then Some r
          else if quote_re c then (case dropWhile (\<lambda>x. x \<noteq> c) r of [] \<Rightarrow> None | _ # r' \<Rightarrow> scan_tag r')
          else scan_tag r)"
  by auto

termination
  by (relation "measure length") (auto dest: dropWhile_Cons_length)

declare scan_tag.simps [simp del]

text \<open>\<open>regATag\<close> at the head of a text: the rest after the tag.\<close>

definition match_a_tag :: "string \<Rightarrow> string option" where
  "match_a_tag s =
     (case fold_prefix ''<a'' s of
        None \<Rightarrow> None
      | Some r \<Rightarrow> (case r of [] \<Rightarrow> None | c # r' \<Rightarrow> if space_re c then scan_tag r' else None))"

text \<open>\<open>regHref\<close> at the head of a text: the value.  It may start with any byte but a newline.\<close>

definition match_href :: "string \<Rightarrow> string option" where
  "match_href s =
     (case s of
        [] \<Rightarrow> None
      | w # s' \<Rightarrow>
          if \<not> space_re w then None
          else (case fold_prefix ''href='' s' of
             Some (q # x # r) \<Rightarrow>
               if quote_re q \<and> x \<noteq> CHR 0x0A then
                 (let y = takeWhile (\<lambda>c. \<not> quote_re c \<and> c \<noteq> CHR 0x0A) r in
                  case drop (length y) r of
                    [] \<Rightarrow> None
                  | c # _ \<Rightarrow> if quote_re c then Some (x # y) else None)
               else None
           | _ \<Rightarrow> None))"

text \<open>Leftmost match in a tag: what precedes the value, the value and what follows it.\<close>

fun find_href :: "string \<Rightarrow> (string \<times> string \<times> string) option" where
  "find_href [] = None"
| "find_href (c # cs) =
     (case match_href (c # cs) of
        Some v \<Rightarrow> Some (take 7 (c # cs), v, drop (7 + length v) (c # cs))
      | None \<Rightarrow> (case find_href cs of None \<Rightarrow> None | Some (a, v, b) \<Rightarrow> Some (c # a, v, b)))"

text \<open>The terminator of the opt-out attribute: a blank, a slash or a bracket, or the end of the text.\<close>

definition terminator :: "string \<Rightarrow> (string \<times> string) option" where
  "terminator s =
     (case s of
        [] \<Rightarrow> Some ([], [])
      | c # r \<Rightarrow> if space_re c \<or> c = CHR ''/'' \<or> c = CHR ''>'' then Some ([c], r) else None)"

text \<open>A value in the given quotes at the head of a text, and the terminator after it.\<close>

definition quoted_value :: "char \<Rightarrow> string \<Rightarrow> (string \<times> string) option" where
  "quoted_value q v =
     (case v of
        [] \<Rightarrow> None
      | c # r \<Rightarrow>
          if c \<noteq> q then None
          else (case dropWhile (\<lambda>x. x \<noteq> q) r of [] \<Rightarrow> None | _ # r' \<Rightarrow> terminator r'))"

text \<open>\<open>regNoTrack\<close> at the head of a text: the terminator it captures and the rest.\<close>

definition match_no_track :: "string \<Rightarrow> (string \<times> string) option" where
  "match_no_track s =
     (if s = [] \<or> \<not> space_re (hd s) then None
      else (case fold_prefix ''data-no-track'' (dropWhile space_re s) of
         None \<Rightarrow> None
       | Some r \<Rightarrow>
           (case dropWhile space_re r of
              [] \<Rightarrow> terminator r
            | c # r' \<Rightarrow>
                if c = CHR ''='' then
                  (let v = dropWhile space_re r' in
                   case quoted_value CHR 0x22 v of
                     Some t \<Rightarrow> Some t
                   | None \<Rightarrow>
                       (case quoted_value CHR 0x27 v of
                          Some t \<Rightarrow> Some t
                        | None \<Rightarrow> terminator (dropWhile (\<lambda>x. \<not> space_re x \<and> x \<noteq> CHR ''>'') v)))
                else terminator r)))"

fun has_no_track :: "string \<Rightarrow> bool" where
  "has_no_track [] \<longleftrightarrow> match_no_track [] \<noteq> None"
| "has_no_track (c # cs) \<longleftrightarrow> match_no_track (c # cs) \<noteq> None \<or> has_no_track cs"

lemma fold_prefix_length: "fold_prefix p s = Some r \<Longrightarrow> length r + length p \<le> length s"
proof (induction p s rule: fold_prefix.induct)
  case (3 p ps c cs)
  show ?case
  proof (cases "lower_char c = p")
    case True
    then show ?thesis using 3 by simp
  next
    case False
    then have k: "p = CHR ''k''" "has_prefix kelvin (c # cs)" "fold_prefix ps (drop 3 (c # cs)) = Some r"
      using 3(3) by (simp_all split: if_splits)
    then have "length r + length ps \<le> length (drop 3 (c # cs))" using 3(2) False by simp
    moreover have "3 \<le> length (c # cs)" using k(2) by (auto simp: has_prefix_iff kelvin_def)
    ultimately show ?thesis by simp
  qed
qed simp_all

lemma scan_tag_length: "scan_tag s = Some r \<Longrightarrow> length r < length s"
proof (induction s rule: scan_tag.induct)
  case (1 s)
  show ?case
  proof (cases s)
    case (Cons c t)
    have sc: "scan_tag s = (if c = CHR ''>'' then Some t
        else if quote_re c then (case dropWhile (\<lambda>x. x \<noteq> c) t of [] \<Rightarrow> None | _ # r' \<Rightarrow> scan_tag r') else scan_tag t)"
      by (subst scan_tag.simps) (simp add: Cons)
    show ?thesis
    proof (cases "c \<noteq> CHR ''>'' \<and> quote_re c")
      case True
      then obtain x r' where d: "dropWhile (\<lambda>x. x \<noteq> c) t = x # r'" "scan_tag r' = Some r"
        using 1(3) sc by (auto split: list.splits)
      then have "length r < length r'" using 1(1) [OF Cons _ _ d(1)] True by simp
      then show ?thesis using dropWhile_Cons_length [OF d(1)] Cons by simp
    next
      case False
      then show ?thesis using 1(2) [OF Cons] 1(3) sc Cons by (auto split: if_splits)
    qed
  qed (use 1(3) in \<open>simp add: scan_tag.simps\<close>)
qed

lemma match_a_tag_length: "match_a_tag s = Some r \<Longrightarrow> length r < length s"
  by (auto simp: match_a_tag_def split: option.splits list.splits if_splits
      dest!: fold_prefix_length scan_tag_length)

lemma terminator_length: "terminator s = Some (t, r) \<Longrightarrow> length t + length r \<le> length s"
  by (auto simp: terminator_def split: list.splits if_splits)

lemma quoted_value_length: "quoted_value q s = Some (t, r) \<Longrightarrow> length t + length r \<le> length s"
  by (auto simp: quoted_value_def split: list.splits if_splits
      dest!: terminator_length dropWhile_Cons_length)

lemma match_no_track_shorter:
  assumes "match_no_track s = Some (t, r)"
  shows "length t + length r < length s"
proof -
  obtain r0 where r0: "fold_prefix ''data-no-track'' (dropWhile space_re s) = Some r0"
    and s: "match_no_track s =
       (case dropWhile space_re r0 of
          [] \<Rightarrow> terminator r0
        | c # r' \<Rightarrow>
            if c = CHR ''='' then
              (let v = dropWhile space_re r' in
               case quoted_value CHR 0x22 v of
                 Some t \<Rightarrow> Some t
               | None \<Rightarrow>
                   (case quoted_value CHR 0x27 v of
                      Some t \<Rightarrow> Some t
                    | None \<Rightarrow> terminator (dropWhile (\<lambda>x. \<not> space_re x \<and> x \<noteq> CHR ''>'') v)))
            else terminator r0)"
    using assms by (auto simp: match_no_track_def split: option.splits if_splits)
  have le: "length r0 < length s"
    using fold_prefix_length [OF r0] length_dropWhile_le [of space_re s] by simp
  have tl: "length t + length r \<le> length r0" if "terminator r0 = Some (t, r)" using terminator_length [OF that] .
  have "length t + length r \<le> length r0"
  proof (cases "dropWhile space_re r0")
    case Nil
    have "terminator r0 = Some (t, r)" using s [unfolded assms Nil] by simp
    then show ?thesis by (rule tl)
  next
    case (Cons c r')
    let ?v = "dropWhile space_re r'"
    have v: "length ?v \<le> length r0"
      using dropWhile_Cons_length [OF Cons] length_dropWhile_le [of space_re r'] by linarith
    have u: "length (dropWhile (\<lambda>x. \<not> space_re x \<and> x \<noteq> CHR ''>'') ?v) \<le> length ?v" by (rule length_dropWhile_le)
    consider "terminator r0 = Some (t, r)" | q where "quoted_value q ?v = Some (t, r)"
      | "terminator (dropWhile (\<lambda>x. \<not> space_re x \<and> x \<noteq> CHR ''>'') ?v) = Some (t, r)"
      using assms s Cons by (auto simp: Let_def split: if_splits option.splits)
    then show ?thesis
    proof cases
      case 1
      then show ?thesis by (rule tl)
    next
      case 2
      then show ?thesis using quoted_value_length v by fastforce
    next
      case 3
      then show ?thesis using terminator_length u v by fastforce
    qed
  qed
  then show ?thesis using le by linarith
qed

section \<open>The opt-out attribute\<close>

text \<open>One pass of \<open>ReplaceAllString\<close> with the captured terminator.\<close>

function replace_no_track :: "string \<Rightarrow> string" where
  "replace_no_track s =
     (case s of
        [] \<Rightarrow> []
      | c # cs \<Rightarrow>
          (case match_no_track s of
             None \<Rightarrow> c # replace_no_track cs
           | Some (t, rest) \<Rightarrow> t @ replace_no_track rest))"
  by auto
termination
  by (relation "measure length") (auto dest: match_no_track_shorter)

declare replace_no_track.simps [simp del]

lemma replace_no_track_simps:
  "replace_no_track [] = []"
  "match_no_track (c # cs) = None \<Longrightarrow> replace_no_track (c # cs) = c # replace_no_track cs"
  "match_no_track (c # cs) = Some (t, rest) \<Longrightarrow> replace_no_track (c # cs) = t @ replace_no_track rest"
  by (subst replace_no_track.simps, simp)+

lemma no_track_Nil [simp]: "match_no_track [] = None"
  by (simp add: match_no_track_def)

lemma replace_no_track_length: "length (replace_no_track s) \<le> length s"
proof (induction s rule: replace_no_track.induct)
  case (1 s)
  show ?case
  proof (cases s)
    case (Cons c cs)
    show ?thesis
    proof (cases "match_no_track s")
      case None
      then show ?thesis using 1(1) Cons by (simp add: replace_no_track_simps)
    next
      case (Some tr)
      obtain t rest where tr: "tr = (t, rest)" by fastforce
      have "length (replace_no_track rest) \<le> length rest" using 1(2) [OF Cons Some tr [symmetric]] .
      then show ?thesis
        using match_no_track_shorter [OF Some [unfolded tr]] Some [unfolded tr] Cons
        by (simp add: replace_no_track_simps)
    qed
  qed (simp add: replace_no_track_simps)
qed

lemma replace_no_track_shorter: "has_no_track s \<Longrightarrow> length (replace_no_track s) < length s"
proof (induction s rule: has_no_track.induct)
  case (2 c cs)
  show ?case
  proof (cases "match_no_track (c # cs)")
    case None
    then show ?thesis using 2 by (simp add: replace_no_track_simps)
  next
    case (Some tr)
    obtain t rest where tr: "tr = (t, rest)" by fastforce
    show ?thesis
      using match_no_track_shorter [OF Some [unfolded tr]] replace_no_track_length [of rest] Some [unfolded tr]
      by (simp add: replace_no_track_simps)
  qed
qed simp

text \<open>The loop of \<open>stripNoTrackFromTag\<close>: each round makes the tag shorter, so it ends.\<close>

function stripNoTrackFromTag :: "string \<Rightarrow> string" where
  "stripNoTrackFromTag tag = (if has_no_track tag then stripNoTrackFromTag (replace_no_track tag) else tag)"
  by auto
termination
  by (relation "measure length") (auto dest: replace_no_track_shorter)

declare stripNoTrackFromTag.simps [simp del]

lemma strip_clean: "\<not> has_no_track (stripNoTrackFromTag tag)"
proof (induction tag rule: stripNoTrackFromTag.induct)
  case (1 tag)
  then show ?case by (subst stripNoTrackFromTag.simps) simp
qed

lemma strip_id: "\<not> has_no_track tag \<Longrightarrow> stripNoTrackFromTag tag = tag"
  by (subst stripNoTrackFromTag.simps) simp

lemma strip_length: "length (stripNoTrackFromTag tag) \<le> length tag"
proof (induction tag rule: stripNoTrackFromTag.induct)
  case (1 tag)
  show ?case
  proof (cases "has_no_track tag")
    case True
    then have "stripNoTrackFromTag tag = stripNoTrackFromTag (replace_no_track tag)"
      by (subst stripNoTrackFromTag.simps) simp
    then show ?thesis using 1 [OF True] replace_no_track_length [of tag] by simp
  qed (simp add: strip_id)
qed

section \<open>The tags of a text\<close>

text \<open>
  \<open>FindAllStringIndex\<close> of \<open>regATag\<close>: each tag with the text before it, and the text after the last.
\<close>

function find_tags :: "string \<Rightarrow> (string \<times> string) list \<times> string" where
  "find_tags s =
     (case s of
        [] \<Rightarrow> ([], [])
      | c # cs \<Rightarrow>
          (case match_a_tag s of
             Some rest \<Rightarrow>
               (case find_tags rest of (ps, post) \<Rightarrow> (([], take (length s - length rest) s) # ps, post))
           | None \<Rightarrow>
               (case find_tags cs of
                  ([], post) \<Rightarrow> ([], c # post)
                | ((before, tag) # ps, post) \<Rightarrow> ((c # before, tag) # ps, post))))"
  by auto
termination
  by (relation "measure length") (auto dest: match_a_tag_length)

declare find_tags.simps [simp del]

definition assemble :: "(string \<times> string) list \<Rightarrow> string \<Rightarrow> string" where
  "assemble ps post = concat (map (\<lambda>(before, tag). before @ tag) ps) @ post"

lemma suffix_fold_prefix: "fold_prefix p s = Some r \<Longrightarrow> \<exists>u. s = u @ r"
proof (induction p s rule: fold_prefix.induct)
  case (3 p ps c cs)
  show ?case
  proof (cases "lower_char c = p")
    case True
    then have "\<exists>u. cs = u @ r" using 3 by simp
    then show ?thesis by (metis append_Cons)
  next
    case False
    then have k: "p = CHR ''k''" "has_prefix kelvin (c # cs)" "fold_prefix ps (drop 3 (c # cs)) = Some r"
      using 3(3) by (simp_all split: if_splits)
    then obtain u where "drop 3 (c # cs) = u @ r" using 3(2) False by auto
    then have "c # cs = (take 3 (c # cs) @ u) @ r" by (metis append.assoc append_take_drop_id)
    then show ?thesis by blast
  qed
qed auto

lemma suffix_dropWhile: "\<exists>u. s = u @ dropWhile P s"
  by (metis takeWhile_dropWhile_id)

lemma suffix_scan_tag: "scan_tag s = Some r \<Longrightarrow> \<exists>u. s = u @ r"
proof (induction s rule: scan_tag.induct)
  case (1 s)
  show ?case
  proof (cases s)
    case (Cons c t)
    have sc: "scan_tag s = (if c = CHR ''>'' then Some t
        else if quote_re c then (case dropWhile (\<lambda>x. x \<noteq> c) t of [] \<Rightarrow> None | _ # r' \<Rightarrow> scan_tag r') else scan_tag t)"
      by (subst scan_tag.simps) (simp add: Cons)
    consider "r = t" | x r' where "c \<noteq> CHR ''>''" "quote_re c" "dropWhile (\<lambda>x. x \<noteq> c) t = x # r'" "scan_tag r' = Some r"
      | "c \<noteq> CHR ''>''" "\<not> quote_re c" "scan_tag t = Some r"
      using 1(3) sc by (auto split: if_splits list.splits)
    then show ?thesis
    proof cases
      case 1
      then show ?thesis using Cons by (intro exI [of _ "[c]"]) simp
    next
      case (2 x r')
      obtain u where u: "r' = u @ r" using 1(1) [OF Cons 2(1,2,3)] 2(4) by blast
      obtain w where "t = w @ x # r'" using suffix_dropWhile [of t] 2(3) by metis
      then have "s = (c # w @ x # u) @ r" using Cons u by simp
      then show ?thesis by blast
    next
      case 3
      then obtain u where "t = u @ r" using 1(2) [OF Cons] by blast
      then have "s = (c # u) @ r" using Cons by simp
      then show ?thesis by blast
    qed
  qed (use 1(3) in \<open>simp add: scan_tag.simps\<close>)
qed

lemma suffix_match_a_tag: "match_a_tag s = Some r \<Longrightarrow> take (length s - length r) s @ r = s"
proof -
  assume "match_a_tag s = Some r"
  then obtain c r1 where "fold_prefix ''<a'' s = Some (c # r1)" "scan_tag r1 = Some r"
    by (auto simp: match_a_tag_def split: option.splits list.splits if_splits)
  then obtain u v where "s = u @ c # r1" "r1 = v @ r" using suffix_fold_prefix suffix_scan_tag by metis
  then have "s = (u @ c # v) @ r" by simp
  then show ?thesis by (metis append_eq_conv_conj length_append add_diff_cancel_right')
qed

lemma find_tags_assemble: "find_tags s = (ps, post) \<Longrightarrow> assemble ps post = s"
proof (induction s arbitrary: ps post rule: find_tags.induct)
  case (1 s)
  show ?case
  proof (cases s)
    case Nil
    then show ?thesis using 1(3) by (simp add: find_tags.simps assemble_def)
  next
    case (Cons c cs)
    show ?thesis
    proof (cases "match_a_tag s")
      case (Some rest)
      obtain qs p where q: "find_tags rest = (qs, p)" by fastforce
      have "ps = ([], take (length s - length rest) s) # qs" "post = p"
        using 1(3) Some q Cons by (subst (asm) (1 2) find_tags.simps; simp)+
      then show ?thesis using 1(2) [OF Cons Some q] suffix_match_a_tag [OF Some] by (simp add: assemble_def)
    next
      case None
      obtain qs p where q: "find_tags cs = (qs, p)" by fastforce
      have e: "find_tags s = (case (qs, p) of ([], post) \<Rightarrow> ([], c # post) | ((before, tag) # ps, post) \<Rightarrow> ((c # before, tag) # ps, post))"
        using None q Cons by (subst find_tags.simps) simp
      have "assemble qs p = cs" using 1(1) [OF Cons None q] .
      then show ?thesis using e 1(3) Cons by (cases qs) (auto simp: assemble_def)
    qed
  qed
qed

section \<open>Links\<close>

definition nonTrackableSchemes :: "string list" where
  "nonTrackableSchemes = [''mailto:'', ''tel:'', ''sms:'']"

definition isTrackableLink :: "unicode \<Rightarrow> string \<Rightarrow> bool" where
  "isTrackableLink U link0 =
     (let link = trim_space U link0 in
      if link = [] \<or> has_prefix ''#'' link then False
      else (let lower = to_lower U link in \<not> list_ex (\<lambda>scheme. has_prefix scheme lower) nonTrackableSchemes))"

type_synonym ('s, 'e) minter = "string \<Rightarrow> 's \<Rightarrow> ('e + string) \<times> 's"

definition rewriteATag :: "unicode \<Rightarrow> ('s, 'e) minter \<Rightarrow> string \<Rightarrow> 's \<Rightarrow> ('e + string) \<times> 's" where
  "rewriteATag U f tag st =
     (if has_no_track tag then (Inr tag, st)
      else (case find_href tag of
              None \<Rightarrow> (Inr tag, st)
            | Some (before, link, after) \<Rightarrow>
                if \<not> isTrackableLink U link then (Inr tag, st)
                else (case f link st of
                        (Inl e, st') \<Rightarrow> (Inl e, st')
                      | (Inr newLink, st') \<Rightarrow> (Inr (before @ newLink @ after), st'))))"

text \<open>The loop over the tags, writing the text between them as it is.\<close>

fun rewrite_tags ::
  "unicode \<Rightarrow> ('s, 'e) minter \<Rightarrow> (string \<times> string) list \<Rightarrow> string \<Rightarrow> 's \<Rightarrow> ('e + string) \<times> 's" where
  "rewrite_tags U f [] post st = (Inr post, st)"
| "rewrite_tags U f ((before, tag) # ps) post st =
     (case rewriteATag U f tag st of
        (Inl e, st') \<Rightarrow> (Inl e, st')
      | (Inr tag', st') \<Rightarrow>
          (case rewrite_tags U f ps post st' of
             (Inl e, st'') \<Rightarrow> (Inl e, st'')
           | (Inr out, st'') \<Rightarrow> (Inr (before @ tag' @ out), st'')))"

definition replaceLinks :: "unicode \<Rightarrow> ('s, 'e) minter \<Rightarrow> string \<Rightarrow> 's \<Rightarrow> ('e + string) \<times> 's" where
  "replaceLinks U f html = (case find_tags html of (ps, post) \<Rightarrow> rewrite_tags U f ps post)"

definition stripNoTrackAttrs :: "string \<Rightarrow> string" where
  "stripNoTrackAttrs html =
     (case find_tags html of (ps, post) \<Rightarrow> assemble (map (\<lambda>(before, tag). (before, stripNoTrackFromTag tag)) ps) post)"

section \<open>Which links are rewritten\<close>

text \<open>The link of a tag that is rewritten, and the tag with another link in its place.\<close>

definition tracked_link :: "unicode \<Rightarrow> string \<Rightarrow> string option" where
  "tracked_link U tag =
     (if has_no_track tag then None
      else (case find_href tag of
              None \<Rightarrow> None
            | Some (before, link, after) \<Rightarrow> if isTrackableLink U link then Some link else None))"

definition with_link :: "string \<Rightarrow> string \<Rightarrow> string" where
  "with_link tag link' =
     (case find_href tag of None \<Rightarrow> tag | Some (before, link, after) \<Rightarrow> before @ link' @ after)"

fun mint_all :: "('s, 'e) minter \<Rightarrow> string list \<Rightarrow> 's \<Rightarrow> ('e + string list) \<times> 's" where
  "mint_all f [] st = (Inr [], st)"
| "mint_all f (l # ls) st =
     (case f l st of
        (Inl e, st') \<Rightarrow> (Inl e, st')
      | (Inr t, st') \<Rightarrow>
          (case mint_all f ls st' of (Inl e, st'') \<Rightarrow> (Inl e, st'') | (Inr ts, st'') \<Rightarrow> (Inr (t # ts), st'')))"

definition tag_links :: "unicode \<Rightarrow> (string \<times> string) list \<Rightarrow> string list" where
  "tag_links U ps = List.map_filter (\<lambda>(before, tag). tracked_link U tag) ps"

definition tracked_links :: "unicode \<Rightarrow> string \<Rightarrow> string list" where
  "tracked_links U html = tag_links U (fst (find_tags html))"

fun put_links :: "unicode \<Rightarrow> (string \<times> string) list \<Rightarrow> string list \<Rightarrow> (string \<times> string) list" where
  "put_links U [] ls = []"
| "put_links U ((before, tag) # ps) ls =
     (case (tracked_link U tag, ls) of
        (Some l, t # ts) \<Rightarrow> (before, with_link tag t) # put_links U ps ts
      | _ \<Rightarrow> (before, tag) # put_links U ps ls)"

lemma find_href_parts:
  "find_href tag = Some (a, v, b) \<Longrightarrow> tag = a @ v @ b"
proof (induction tag arbitrary: a)
  case (Cons c cs)
  show ?case
  proof (cases "match_href (c # cs)")
    case None
    then show ?thesis using Cons by (auto split: option.splits)
  next
    case (Some v')
    obtain s' q x r where m: "space_re c" "fold_prefix ''href='' cs = Some (q # x # r)"
        "v' = x # takeWhile (\<lambda>c. \<not> quote_re c \<and> c \<noteq> CHR 0x0A) r"
      using Some by (auto simp: match_href_def Let_def split: if_splits option.splits list.splits)
    have lit: "\<exists>u. length u = length p \<and> s = u @ t" if "fold_prefix p s = Some t" "CHR ''k'' \<notin> set p" for p s t
      using that
    proof (induction p s rule: fold_prefix.induct)
      case (3 p ps c cs)
      then have "\<exists>u. length u = length ps \<and> cs = u @ t" by (auto split: if_splits)
      then obtain u where "length u = length ps" "cs = u @ t" by blast
      then show ?case by (intro exI [of _ "c # u"]) simp
    qed auto
    obtain u where u: "length u = 5" "cs = u @ q # x # r" using lit [OF m(2)] by (auto simp: numeral_eq_Suc)
    then have tk: "take 7 (c # cs) = c # u @ [q]" "drop 7 (c # cs) = x # r"
      by (simp_all add: take_Cons' drop_Cons')
    have "x # r = v' @ drop (length v') (x # r)"
      unfolding m(3) by (simp add: dropWhile_eq_drop [symmetric])
    then have "drop 7 (c # cs) = v' @ drop (7 + length v') (c # cs)"
      unfolding tk(2) [symmetric] drop_drop by (simp only: add.commute)
    then have "c # cs = take 7 (c # cs) @ v' @ drop (7 + length v') (c # cs)"
      by (metis append_take_drop_id)
    then show ?thesis using Some Cons.prems by auto
  qed
qed simp

lemma rewriteATag_untracked: "tracked_link U tag = None \<Longrightarrow> rewriteATag U f tag st = (Inr tag, st)"
  by (auto simp: tracked_link_def rewriteATag_def split: if_splits option.splits)

lemma rewriteATag_tracked:
  "tracked_link U tag = Some l \<Longrightarrow>
     rewriteATag U f tag st = (case f l st of (Inl e, st') \<Rightarrow> (Inl e, st') | (Inr t, st') \<Rightarrow> (Inr (with_link tag t), st'))"
  by (auto simp: tracked_link_def rewriteATag_def with_link_def split: if_splits option.splits prod.split sum.split)

lemma tag_links_simps:
  "tag_links U [] = []"
  "tag_links U ((before, tag) # ps) =
     (case tracked_link U tag of None \<Rightarrow> tag_links U ps | Some l \<Rightarrow> l # tag_links U ps)"
  by (simp_all add: tag_links_def map_filter_simps split: option.split)

lemma assemble_simps [simp]: "assemble [] post = post" "assemble ((b, t) # ps) post = b @ t @ assemble ps post"
  by (simp_all add: assemble_def)

lemma rewrite_tags_eq:
  "rewrite_tags U f ps post st =
     (case mint_all f (tag_links U ps) st of
        (Inl e, st') \<Rightarrow> (Inl e, st')
      | (Inr ts, st') \<Rightarrow> (Inr (assemble (put_links U ps ts) post), st'))"
proof (induction ps arbitrary: st)
  case Nil
  then show ?case by (simp add: tag_links_simps)
next
  case (Cons p ps)
  obtain before tag where p: "p = (before, tag)" by fastforce
  show ?case
  proof (cases "tracked_link U tag")
    case None
    then show ?thesis
      by (simp add: p rewriteATag_untracked tag_links_simps Cons.IH split: prod.split sum.split)
  next
    case (Some l)
    show ?thesis
    proof (cases "f l st")
      case (Pair r st')
      then show ?thesis
        by (cases r) (simp_all add: p rewriteATag_tracked [OF Some] Some tag_links_simps Cons.IH
            split: prod.split sum.split)
    qed
  qed
qed

text \<open>The whole pass in one equation: mint a redirect per tracked link, in order, and put them in.\<close>

lemma replaceLinks_eq:
  "replaceLinks U f html st =
     (case mint_all f (tracked_links U html) st of
        (Inl e, st') \<Rightarrow> (Inl e, st')
      | (Inr ts, st') \<Rightarrow> (Inr (assemble (put_links U (fst (find_tags html)) ts) (snd (find_tags html))), st'))"
  by (cases "find_tags html")
    (simp add: replaceLinks_def rewrite_tags_eq tracked_links_def split: prod.split sum.split)

lemma mint_all_length: "mint_all f ls st = (Inr ts, st') \<Longrightarrow> length ts = length ls"
  by (induction ls arbitrary: st ts) (auto split: prod.splits sum.splits)

lemma put_links_nth:
  "length ts = length (tag_links U ps) \<Longrightarrow>
     map fst (put_links U ps ts) = map fst ps \<and>
     list_all2 (\<lambda>(b, tag) (b', tag'). (tracked_link U tag = None \<longrightarrow> tag' = tag) \<and>
        (tracked_link U tag \<noteq> None \<longrightarrow> (\<exists>t \<in> set ts. tag' = with_link tag t))) ps (put_links U ps ts)"
proof (induction ps arbitrary: ts)
  case (Cons p ps)
  obtain b tag where p: "p = (b, tag)" by fastforce
  show ?case
  proof (cases "tracked_link U tag")
    case None
    then have len: "length ts = length (tag_links U ps)" using Cons.prems by (simp add: p tag_links_simps)
    from Cons.IH [OF len] None show ?thesis by (simp add: p)
  next
    case (Some l)
    then obtain t us where ts: "ts = t # us" "length us = length (tag_links U ps)"
      using Cons.prems by (cases ts) (simp_all add: p tag_links_simps)
    have "list_all2 (\<lambda>(b, tag) (b', tag'). (tracked_link U tag = None \<longrightarrow> tag' = tag) \<and>
        (tracked_link U tag \<noteq> None \<longrightarrow> (\<exists>t' \<in> set ts. tag' = with_link tag t'))) ps (put_links U ps us)"
      by (rule list_all2_mono [OF Cons.IH [OF ts(2), THEN conjunct2]]) (auto simp: ts(1))
    then show ?thesis using Cons.IH [OF ts(2)] Some by (simp add: p ts(1))
  qed
qed simp

text \<open>The identity minter puts every link back where it was.\<close>

lemma with_link_self: "tracked_link U tag = Some l \<Longrightarrow> with_link tag l = tag"
  by (auto simp: tracked_link_def with_link_def dest: find_href_parts split: if_splits option.splits)

lemma put_links_self: "put_links U ps (tag_links U ps) = ps"
  by (induction ps) (auto simp: tag_links_simps with_link_self split: option.split)

lemma split_body_parts: "split_body html = Some (a, b) \<Longrightarrow> html = a @ b"
  by (induction html arbitrary: a) (auto split: if_splits option.splits)

lemma split_body_none: "split_body html = None \<longleftrightarrow> (\<forall>a b. html = a @ b \<longrightarrow> \<not> regBodyClose b)"
proof (induction html)
  case Nil
  then show ?case by (simp add: regBodyClose_def)
next
  case (Cons c cs)
  have "(\<forall>a b. c # cs = a @ b \<longrightarrow> \<not> regBodyClose b) \<longleftrightarrow>
      \<not> regBodyClose (c # cs) \<and> (\<forall>a b. cs = a @ b \<longrightarrow> \<not> regBodyClose b)"
    by (metis append_Cons append_eq_Cons_conv append_Nil)
  then show ?case using Cons by (auto split: option.splits)
qed

text \<open>A tag before and after: the same, or with its tracked link and nothing else replaced.\<close>

definition relinked :: "unicode \<Rightarrow> string list \<Rightarrow> string \<Rightarrow> string \<Rightarrow> bool" where
  "relinked U ts tag tag' \<longleftrightarrow>
     (case tracked_link U tag of
        None \<Rightarrow> tag' = tag
      | Some l \<Rightarrow> \<not> has_no_track tag \<and> isTrackableLink U l \<and> (\<exists>a b. \<exists>t \<in> set ts. tag = a @ l @ b \<and> tag' = a @ t @ b))"

lemma relinkedI:
  assumes "tracked_link U tag = None \<Longrightarrow> tag' = tag"
    and "tracked_link U tag \<noteq> None \<Longrightarrow> \<exists>t \<in> set ts. tag' = with_link tag t"
  shows "relinked U ts tag tag'"
proof (cases "tracked_link U tag")
  case None
  then show ?thesis using assms(1) by (simp add: relinked_def)
next
  case (Some l)
  obtain a b where h: "\<not> has_no_track tag" "find_href tag = Some (a, l, b)" "isTrackableLink U l"
    using Some by (auto simp: tracked_link_def split: if_splits option.splits)
  obtain t where "t \<in> set ts" "tag' = a @ t @ b" using assms(2) Some h(2) by (auto simp: with_link_def)
  then have "\<exists>a b. \<exists>t \<in> set ts. tag = a @ l @ b \<and> tag' = a @ t @ b"
    using find_href_parts [OF h(2)] by blast
  then show ?thesis using h by (simp add: relinked_def Some)
qed

text \<open>
  What Kannon changes of a message's HTML.  Rewriting the links mints one redirect per tracked link, in
  order, and replaces the value of those links alone: the text between the tags, the tags that opt out,
  those without a link and those whose link no redirect can serve are left byte for byte, and the first
  mint that fails fails the whole pass.  Removing the opt-out attribute leaves the text between the tags
  alone and no tag with the attribute, however often it was repeated, and never adds a byte.  The pixel
  goes right before the first closing body tag, or nowhere if there is none.
\<close>

theorem html_edits:
  shows "(case replaceLinks U f html st of
       (Inl e, st') \<Rightarrow> mint_all f (tracked_links U html) st = (Inl e, st')
     | (Inr out, st') \<Rightarrow> (\<exists>ps post qs ts. assemble ps post = html \<and> out = assemble qs post \<and>
         mint_all f (tracked_links U html) st = (Inr ts, st') \<and> length ts = length (tracked_links U html) \<and>
         list_all2 (\<lambda>(text, tag) (text', tag'). text' = text \<and> relinked U ts tag tag') ps qs)) \<and>
     (\<exists>ps post. assemble ps post = html \<and>
        stripNoTrackAttrs html = assemble (map (\<lambda>(text, tag). (text, stripNoTrackFromTag tag)) ps) post) \<and>
     \<not> has_no_track (stripNoTrackFromTag tag) \<and> length (stripNoTrackFromTag tag) \<le> length tag \<and>
     (case split_body html of
        None \<Rightarrow> insertTrackLinkInHTML html link = html \<and> (\<forall>a b. html = a @ b \<longrightarrow> \<not> regBodyClose b)
      | Some (a, b) \<Rightarrow> html = a @ b \<and> insertTrackLinkInHTML html link = a @ pixel link @ b)"
proof -
  obtain ps post where ft: "find_tags html = (ps, post)" by fastforce
  have asm: "assemble ps post = html" by (rule find_tags_assemble [OF ft])
  have links: "tracked_links U html = tag_links U ps" by (simp add: tracked_links_def ft)
  have ok: "list_all2 (\<lambda>(text, tag) (text', tag'). text' = text \<and> relinked U ts tag tag') ps (put_links U ps ts)"
    if "length ts = length (tag_links U ps)" for ts
  proof -
    note n = put_links_nth [OF that]
    have "map fst ps = map fst (put_links U ps ts)" using n by simp
    then have "list_all2 (\<lambda>p q. fst p = fst q) ps (put_links U ps ts)"
      by (simp add: list_all2_conv_all_nth list_eq_iff_nth_eq)
    moreover have "list_all2 (\<lambda>p q. relinked U ts (snd p) (snd q)) ps (put_links U ps ts)"
    proof (rule list_all2_mono [OF n [THEN conjunct2]], goal_cases)
      case (1 p q)
      then show ?case by (intro relinkedI) (simp_all add: split_beta)
    qed
    ultimately show ?thesis by (auto simp: list_all2_conv_all_nth split_beta)
  qed
  have links_ok: "case replaceLinks U f html st of
       (Inl e, st') \<Rightarrow> mint_all f (tracked_links U html) st = (Inl e, st')
     | (Inr out, st') \<Rightarrow> (\<exists>ps post qs ts. assemble ps post = html \<and> out = assemble qs post \<and>
         mint_all f (tracked_links U html) st = (Inr ts, st') \<and> length ts = length (tracked_links U html) \<and>
         list_all2 (\<lambda>(text, tag) (text', tag'). text' = text \<and> relinked U ts tag tag') ps qs)"
  proof (cases "mint_all f (tracked_links U html) st")
    case (Pair r st')
    show ?thesis
    proof (cases r)
      case (Inl e)
      then show ?thesis using Pair by (simp add: replaceLinks_eq)
    next
      case (Inr ts)
      have len: "length ts = length (tag_links U ps)" using mint_all_length Pair Inr links by metis
      have "replaceLinks U f html st = (Inr (assemble (put_links U ps ts) post), st')"
        using Pair Inr by (simp add: replaceLinks_eq ft)
      then show ?thesis using asm Pair Inr len ok [OF len] links by (auto intro!: exI)
    qed
  qed
  have strip: "stripNoTrackAttrs html = assemble (map (\<lambda>(text, tag). (text, stripNoTrackFromTag tag)) ps) post"
    by (simp add: stripNoTrackAttrs_def ft)
  have px: "case split_body html of
        None \<Rightarrow> insertTrackLinkInHTML html link = html \<and> (\<forall>a b. html = a @ b \<longrightarrow> \<not> regBodyClose b)
      | Some (a, b) \<Rightarrow> html = a @ b \<and> insertTrackLinkInHTML html link = a @ pixel link @ b"
  proof (cases "split_body html")
    case None
    then show ?thesis using split_body_none [of html, THEN iffD1, OF None] by (simp add: insertTrackLinkInHTML_def)
  next
    case (Some ab)
    then show ?thesis using split_body_parts by (cases ab) (simp add: insertTrackLinkInHTML_def)
  qed
  show ?thesis using links_ok asm strip strip_clean strip_length px by blast
qed

text \<open>An HTML of one link that is tracked and one that opts out, with quotes written as \<open>q\<close>.\<close>

abbreviation q :: string where "q \<equiv> [CHR 0x22]"

definition example_html :: string where
  "example_html = ''<a href='' @ q @ ''https://k.dev'' @ q @ ''>x</a><A data-no-track HREF='' @ q @ ''/u'' @ q @ ''>u</A></BODY >''"

definition example_minter :: "(nat, unit) minter" where
  "example_minter l n = (Inr ''R'', Suc n)"

lemma html_edits_witness:
  "replaceLinks no_unicode example_minter example_html 0 =
     (Inr (''<a href='' @ q @ ''R'' @ q @ ''>x</a><A data-no-track HREF='' @ q @ ''/u'' @ q @ ''>u</A></BODY >''), 1) \<and>
   insertTrackLinkInHTML example_html ''L'' =
     ''<a href='' @ q @ ''https://k.dev'' @ q @ ''>x</a><A data-no-track HREF='' @ q @ ''/u'' @ q @ ''>u</A>'' @ pixel ''L'' @ ''</BODY >''"
proof -
  have s: "split_body example_html = Some
     (''<a href='' @ q @ ''https://k.dev'' @ q @ ''>x</a><A data-no-track HREF='' @ q @ ''/u'' @ q @ ''>u</A>'', ''</BODY >'')"
    by code_simp
  have r: "replaceLinks no_unicode example_minter example_html 0 =
     (Inr (''<a href='' @ q @ ''R'' @ q @ ''>x</a><A data-no-track HREF='' @ q @ ''/u'' @ q @ ''>u</A></BODY >''), 1)"
    by code_simp
  show ?thesis
    using html_edits [where U = no_unicode and f = example_minter and html = example_html and st = 0 and link = "''L''"] s r
    by simp
qed

text \<open>
  Two attributes the expression for links misreads: an empty link runs on to the next quote, and a quote
  of the other kind inside a link cuts it short.
\<close>

lemma empty_href_mangled:
  "rewriteATag no_unicode example_minter (''<a href='' @ q @ q @ '' class='' @ q @ ''b'' @ q @ ''>'') 0 =
     (Inr (''<a href='' @ q @ ''R'' @ q @ ''b'' @ q @ ''>''), 1)"
  by code_simp

lemma quoted_href_cut:
  "rewriteATag no_unicode example_minter (''<a href='' @ q @ ''/o'' @ [CHR 0x27] @ ''hara'' @ q @ ''>'') 0 =
     (Inr (''<a href='' @ q @ ''R'' @ [CHR 0x27] @ ''hara'' @ q @ ''>''), 1)"
  by code_simp

end
