(* ===== verification/Envelope.thy ===== *)
theory Envelope
  imports Template Html StatsSec Dispatcher "HOL-Library.AList"
begin

text \<open>
  \<open>internal/envelope\<close>: the Builder, which renders a Delivery into an Envelope, and its cache of shared tokens.
  The issuer of tokens is the interface \<open>TokenIssuer\<close>, a record of two operations on a state of its own;
  the writer of MIME messages and the DKIM signer are third-party and the record \<open>mail_lib\<close>.  A map of
  fields is ranged over three times in one build, each time in an order of its own: \<open>build_call\<close>.
\<close>

section \<open>The rendering inputs\<close>

record SendingData =
  sd_subject :: string
  sd_html :: string
  sd_domain :: string
  sd_message_id :: string
  sd_sender_email :: string
  sd_sender_alias :: string
  sd_dkim_private :: string
  sd_attachments :: gomap
  sd_headers :: Headers
  sd_unsubscribe :: OneClickUnsubscribe

text \<open>The statement joins a row of \<open>messages\<close> with its template and its Domain.\<close>

record sending_row =
  gs_html :: string
  gs_dkim_private :: string
  gs_message :: message_row

definition sqlGetSendingData ::
  "messages \<Rightarrow> (string \<rightharpoonup> string) \<Rightarrow> (string \<rightharpoonup> string) \<Rightarrow> string \<Rightarrow> sending_row option" where
  "sqlGetSendingData ms templates domains messageID =
     (case ms messageID of
        None \<Rightarrow> None
      | Some m \<Rightarrow>
          (case (templates (m_template m), domains (m_domain m)) of
             (Some html, Some key) \<Rightarrow> Some \<lparr>gs_html = html, gs_dkim_private = key, gs_message = m\<rparr>
           | _ \<Rightarrow> None))"

definition unsubscribeFromRow :: "sqlc_headers \<Rightarrow> OneClickUnsubscribe" where
  "unsubscribeFromRow h = (case sh_unsubscribe h of None \<Rightarrow> [] | Some u \<Rightarrow> u)"

definition GetSendingData ::
  "messages \<Rightarrow> (string \<rightharpoonup> string) \<Rightarrow> (string \<rightharpoonup> string) \<Rightarrow> batch_id \<Rightarrow> SendingData option" where
  "GetSendingData ms templates domains batchID =
     (case sqlGetSendingData ms templates domains batchID of
        None \<Rightarrow> None
      | Some row \<Rightarrow>
          (let m = gs_message row in Some
            \<lparr>sd_subject = m_subject m, sd_html = gs_html row, sd_domain = m_domain m, sd_message_id = m_id m,
             sd_sender_email = m_sender_email m, sd_sender_alias = m_sender_alias m,
             sd_dkim_private = gs_dkim_private row,
             sd_attachments = Some (case m_attachments m of None \<Rightarrow> Map.empty | Some a \<Rightarrow> a),
             sd_headers = \<lparr>hdr_to = sh_to (m_headers m), hdr_cc = sh_cc (m_headers m)\<rparr>,
             sd_unsubscribe = unsubscribeFromRow (m_headers m)\<rparr>))"

section \<open>Shared tokens\<close>

definition sharedTokenGeneration :: nat where "sharedTokenGeneration = 1024"

record sharedTokenKey =
  ky_axis :: axis
  ky_domain :: string
  ky_message :: string
  ky_url :: string
  ky_mode :: mode

record sharedTokens =
  tc_live :: "(sharedTokenKey \<times> string) list"
  tc_prev :: "(sharedTokenKey \<times> string) list"

definition newSharedTokens :: sharedTokens where
  "newSharedTokens = \<lparr>tc_live = [], tc_prev = []\<rparr>"

definition shared_put :: "sharedTokenKey \<Rightarrow> string \<Rightarrow> sharedTokens \<Rightarrow> sharedTokens" where
  "shared_put k tok c =
     (let c = (if sharedTokenGeneration \<le> length (tc_live c) then \<lparr>tc_live = [], tc_prev = tc_live c\<rparr> else c) in
      c\<lparr>tc_live := AList.update k tok (tc_live c)\<rparr>)"

definition shared_len :: "sharedTokens \<Rightarrow> nat" where
  "shared_len c = length (tc_live c) + length (tc_prev c)"

type_synonym ('s, 'e) token_mint = "'s \<Rightarrow> ('e + string) \<times> 's"

definition reuse :: "sharedTokenKey \<Rightarrow> ('s, 'e) token_mint \<Rightarrow> sharedTokens \<times> 's \<Rightarrow> ('e + string) \<times> (sharedTokens \<times> 's)" where
  "reuse k mint st =
     (case st of (c, s) \<Rightarrow>
        (case map_of (tc_live c) k of
           Some tok \<Rightarrow> (Inr tok, (c, s))
         | None \<Rightarrow>
             (case map_of (tc_prev c) k of
                Some tok \<Rightarrow> (Inr tok, (shared_put k tok c, s))
              | None \<Rightarrow>
                  (case mint s of
                     (Inl e, s') \<Rightarrow> (Inl e, (c, s'))
                   | (Inr tok, s') \<Rightarrow> (Inr tok, (shared_put k tok c, s'))))))"

text \<open>\<open>defaultBuilder.token\<close>.\<close>

definition builder_token ::
  "sharedTokenKey \<Rightarrow> ('s, 'e) token_mint \<Rightarrow> sharedTokens \<times> 's \<Rightarrow> ('e + string) \<times> (sharedTokens \<times> 's)" where
  "builder_token k mint st =
     (if IsolatesRecipient (ky_mode k)
      then (case st of (c, s) \<Rightarrow> (case mint s of (r, s') \<Rightarrow> (r, (c, s'))))
      else reuse k mint st)"

section \<open>Tracking\<close>

record 's issuer =
  is_link :: "string \<Rightarrow> string \<Rightarrow> string \<Rightarrow> mode \<Rightarrow> ('s, sec_error) token_mint"
  is_open :: "string \<Rightarrow> string \<Rightarrow> mode \<Rightarrow> ('s, sec_error) token_mint"

datatype build_error = NoSendingData | NoPseudonym | NoToken sec_error | NotRendered | NotDkimSigned

record trackingIdentity =
  ti_email :: string
  ti_pseudonym :: string

definition newTrackingIdentity :: "policy \<Rightarrow> string \<Rightarrow> string \<Rightarrow> nat list option \<Rightarrow> build_error + trackingIdentity" where
  "newTrackingIdentity p email domain raw =
     (if opens p \<noteq> ModePseudonymous \<and> links p \<noteq> ModePseudonymous then Inr \<lparr>ti_email = email, ti_pseudonym = []\<rparr>
      else (case NewPseudonym raw domain of
              None \<Rightarrow> Inl NoPseudonym
            | Some ps \<Rightarrow> Inr \<lparr>ti_email = email, ti_pseudonym = ps\<rparr>))"

definition identity_for :: "trackingIdentity \<Rightarrow> mode \<Rightarrow> string" where
  "identity_for i m = (if m = ModePseudonymous then ti_pseudonym i else ti_email i)"

record trackTarget =
  tt_identity :: string
  tt_message :: string
  tt_domain :: string
  tt_mode :: mode

definition trackTargetFor :: "trackingIdentity \<Rightarrow> SendingData \<Rightarrow> mode \<Rightarrow> trackTarget" where
  "trackTargetFor i data m =
     \<lparr>tt_identity = identity_for i m, tt_message = sd_message_id data, tt_domain = sd_domain data, tt_mode = m\<rparr>"

type_synonym 's build_state = "sharedTokens \<times> 's"

definition buildTrackClickLink :: "'s issuer \<Rightarrow> string \<Rightarrow> trackTarget \<Rightarrow> 's build_state \<Rightarrow> (sec_error + string) \<times> 's build_state" where
  "buildTrackClickLink I url t st =
     (case builder_token \<lparr>ky_axis = AxisLinks, ky_domain = tt_domain t, ky_message = tt_message t, ky_url = url, ky_mode = tt_mode t\<rparr>
             (is_link I (tt_message t) (tt_identity t) url (tt_mode t)) st of
        (Inl e, st') \<Rightarrow> (Inl e, st')
      | (Inr tok, st') \<Rightarrow> (Inr (''https://stats.'' @ tt_domain t @ ''/c/'' @ tok), st'))"

definition buildTrackOpenLink :: "'s issuer \<Rightarrow> trackTarget \<Rightarrow> 's build_state \<Rightarrow> (sec_error + string) \<times> 's build_state" where
  "buildTrackOpenLink I t st =
     (case builder_token \<lparr>ky_axis = AxisOpens, ky_domain = tt_domain t, ky_message = tt_message t, ky_url = [], ky_mode = tt_mode t\<rparr>
             (is_open I (tt_message t) (tt_identity t) (tt_mode t)) st of
        (Inl e, st') \<Rightarrow> (Inl e, st')
      | (Inr tok, st') \<Rightarrow> (Inr (''https://stats.'' @ tt_domain t @ ''/o/'' @ tok), st'))"

definition replaceAllLinks ::
  "unicode \<Rightarrow> 's issuer \<Rightarrow> string \<Rightarrow> trackTarget \<Rightarrow> 's build_state \<Rightarrow> (sec_error + string) \<times> 's build_state" where
  "replaceAllLinks U I html t = replaceLinks U (\<lambda>link. buildTrackClickLink I link t) html"

definition addTrackPixel ::
  "'s issuer \<Rightarrow> string \<Rightarrow> trackTarget \<Rightarrow> 's build_state \<Rightarrow> (sec_error + string) \<times> 's build_state" where
  "addTrackPixel I html t st =
     (case buildTrackOpenLink I t st of
        (Inl e, st') \<Rightarrow> (Inl e, st')
      | (Inr link, st') \<Rightarrow> (Inr (insertTrackLinkInHTML html link), st'))"

section \<open>Building\<close>

record build_call =
  bc_html :: fields
  bc_subject :: fields
  bc_url :: fields
  bc_random :: "nat list option"
  bc_now :: go_time

definition as_build :: "(sec_error + 'a) \<times> 's \<Rightarrow> (build_error + 'a) \<times> 's" where
  "as_build r = (case r of (Inl e, s) \<Rightarrow> (Inl (NoToken e), s) | (Inr x, s) \<Rightarrow> (Inr x, s))"

definition preparedHTML ::
  "unicode \<Rightarrow> regexp_lib \<Rightarrow> 's issuer \<Rightarrow> build_call \<Rightarrow> Delivery \<Rightarrow> SendingData \<Rightarrow> 's build_state \<Rightarrow>
     (build_error + string) \<times> 's build_state" where
  "preparedHTML U X I bc d data st =
     (let p = dl_tracking d; html = ReplaceCustomFields X (sd_html data) (bc_html bc) in
      case newTrackingIdentity p (dl_email d) (sd_domain data) (bc_random bc) of
        Inl e \<Rightarrow> (Inl e, st)
      | Inr i \<Rightarrow>
          (case (if links p \<noteq> ModeOff
                 then as_build (replaceAllLinks U I html (trackTargetFor i data (links p)) st)
                 else (Inr html, st)) of
             (Inl e, st') \<Rightarrow> (Inl e, st')
           | (Inr html, st') \<Rightarrow>
               (let html = stripNoTrackAttrs html in
                if opens p = ModeOff then (Inr html, st')
                else as_build (addTrackPixel I html (trackTargetFor i data (opens p)) st'))))"

type_synonym mail_headers = "string \<rightharpoonup> string list"

definition headerListUnsubscribe :: string where "headerListUnsubscribe = ''List-Unsubscribe''"
definition headerListUnsubscribePost :: string where "headerListUnsubscribePost = ''List-Unsubscribe-Post''"

definition baseHeaders :: mail_headers where
  "baseHeaders = [''X-Mailer'' \<mapsto> [''SMTP Mailer'']]"

definition resolveUnsubscribeURL :: "regexp_lib \<Rightarrow> OneClickUnsubscribe \<Rightarrow> fields \<Rightarrow> string" where
  "resolveUnsubscribeURL X u fs =
     (if ocu_is_zero u then []
      else (let resolved = ReplaceCustomFieldsInURL X u fs in
            if HasUnresolvedPlaceholders resolved then [] else resolved))"

definition from_line :: "Sender \<Rightarrow> string" where
  "from_line s = sender_alias s @ '' <'' @ sender_email s @ ''>''"

definition buildHeaders ::
  "string \<Rightarrow> Sender \<Rightarrow> string \<Rightarrow> string \<Rightarrow> string \<Rightarrow> mail_headers \<Rightarrow> Headers \<Rightarrow> string \<Rightarrow> mail_headers" where
  "buildHeaders subject sender to poolMessageID messageID base custom unsubscribeURL =
     (let h = base(''Subject'' \<mapsto> [subject], ''From'' \<mapsto> [from_line sender], ''Message-ID'' \<mapsto> [messageID],
                ''X-Pool-Message-ID'' \<mapsto> [poolMessageID], ''Reply-To'' \<mapsto> [from_line sender], ''To'' \<mapsto> [to]);
          h = (if 0 < length (hdr_to custom) then h(''To'' \<mapsto> hdr_to custom) else h);
          h = (if 0 < length (hdr_cc custom) then h(''Cc'' \<mapsto> hdr_cc custom) else h) in
      if unsubscribeURL \<noteq> []
      then h(headerListUnsubscribe \<mapsto> [''<'' @ unsubscribeURL @ ''>''],
             headerListUnsubscribePost \<mapsto> [''List-Unsubscribe=One-Click''])
      else h)"

record SignData =
  sg_private :: string
  sg_domain :: string
  sg_selector :: string
  sg_headers :: "string list"

record mail_lib =
  ml_write :: "string \<Rightarrow> (string \<rightharpoonup> string) \<Rightarrow> gomap \<Rightarrow> go_time \<Rightarrow> string option"
  ml_sign :: "SignData \<Rightarrow> string \<Rightarrow> string option"

definition renderMsg :: "mail_lib \<Rightarrow> string \<Rightarrow> mail_headers \<Rightarrow> gomap \<Rightarrow> go_time \<Rightarrow> string option" where
  "renderMsg M html hdrs attachments now = ml_write M html (map_option (join '', '') \<circ> hdrs) attachments now"

definition dkimSignedHeaders :: "string list" where
  "dkimSignedHeaders =
     [''From'', ''To'', ''Cc'', ''Subject'', ''Message-ID'', headerListUnsubscribe, headerListUnsubscribe,
      headerListUnsubscribePost, headerListUnsubscribePost]"

definition signMessage :: "mail_lib \<Rightarrow> string \<Rightarrow> string \<Rightarrow> string \<Rightarrow> build_error + string" where
  "signMessage M domain dkimPrivateKey msg =
     (case ml_sign M \<lparr>sg_private = dkimPrivateKey, sg_domain = domain, sg_selector = ''kannon'', sg_headers = dkimSignedHeaders\<rparr> msg of
        None \<Rightarrow> Inl NotDkimSigned
      | Some s \<Rightarrow> Inr s)"

definition prepareMessage ::
  "unicode \<Rightarrow> regexp_lib \<Rightarrow> mail_lib \<Rightarrow> 's issuer \<Rightarrow> build_call \<Rightarrow> Delivery \<Rightarrow> SendingData \<Rightarrow> 's build_state \<Rightarrow>
     (build_error + string) \<times> 's build_state" where
  "prepareMessage U X M I bc d data st =
     (let emailMessageID = buildEmailID (dl_email d) (sd_message_id data) in
      case preparedHTML U X I bc d data st of
        (Inl e, st') \<Rightarrow> (Inl e, st')
      | (Inr html, st') \<Rightarrow>
          (let subject = ReplaceCustomFields X (sd_subject data) (bc_subject bc);
               sender = \<lparr>sender_email = sd_sender_email data, sender_alias = sd_sender_alias data\<rparr>;
               h = buildHeaders subject sender (dl_email d) (sd_message_id data) emailMessageID baseHeaders
                     (sd_headers data) (resolveUnsubscribeURL X (sd_unsubscribe data) (bc_url bc)) in
           case renderMsg M html h (sd_attachments data) (bc_now bc) of
             None \<Rightarrow> (Inl NotRendered, st')
           | Some msg \<Rightarrow> (Inr msg, st')))"

definition Build ::
  "unicode \<Rightarrow> regexp_lib \<Rightarrow> mail_lib \<Rightarrow> 's issuer \<Rightarrow> (batch_id \<Rightarrow> SendingData option) \<Rightarrow> build_call \<Rightarrow> Delivery \<Rightarrow>
     's build_state \<Rightarrow> (build_error + Envelope) \<times> 's build_state" where
  "Build U X M I source bc d st =
     (case source (dl_batch d) of
        None \<Rightarrow> (Inl NoSendingData, st)
      | Some data \<Rightarrow>
          (let returnPath = buildReturnPath (dl_email d) (sd_message_id data) in
           case prepareMessage U X M I bc d data st of
             (Inl e, st') \<Rightarrow> (Inl e, st')
           | (Inr msg, st') \<Rightarrow>
               (case signMessage M (sd_domain data) (sd_dkim_private data) msg of
                  Inl e \<Rightarrow> (Inl e, st')
                | Inr signedMsg \<Rightarrow>
                    (Inr \<lparr>en_email_id = buildEmailID (dl_email d) (sd_message_id data),
                       en_from = sd_sender_email data, en_to = dl_email d, en_return_path = returnPath,
                       en_body = signedMsg, en_should_retry = CanRetry d\<rparr>, st'))))"

section \<open>The cache holds what it must\<close>

definition cache_inv :: "sharedTokens \<Rightarrow> bool" where
  "cache_inv c \<longleftrightarrow> length (tc_live c) \<le> sharedTokenGeneration \<and> length (tc_prev c) \<le> sharedTokenGeneration"

text \<open>The token of a key survives at least the given number of further entries.\<close>

definition keeps :: "nat \<Rightarrow> sharedTokenKey \<Rightarrow> string \<Rightarrow> sharedTokens \<Rightarrow> bool" where
  "keeps n k tok c \<longleftrightarrow>
     map_of (tc_live c) k = Some tok \<and> n \<le> sharedTokenGeneration \<or>
     map_of (tc_live c) k = None \<and> map_of (tc_prev c) k = Some tok \<and> n + length (tc_live c) \<le> sharedTokenGeneration"

lemma length_update: "length (AList.update k v xs) \<le> Suc (length xs)"
  by (induction xs) auto

lemma cache_inv_put: "cache_inv c \<Longrightarrow> cache_inv (shared_put k tok c)"
  using length_update [of k tok "tc_live c"] by (auto simp: cache_inv_def shared_put_def sharedTokenGeneration_def Let_def)

lemma keeps_put:
  assumes "keeps (Suc n) k tok c" and "k' = k \<Longrightarrow> tok' = tok"
  shows "keeps n k tok (shared_put k' tok' c)"
proof -
  have g: "0 < sharedTokenGeneration" by (simp add: sharedTokenGeneration_def)
  show ?thesis
  proof (cases "k' = k")
    case True
    then show ?thesis
      using assms(1) assms(2) [OF True] by (auto simp: keeps_def shared_put_def Let_def update_conv)
  next
    case False
    show ?thesis
      using assms(1) False g length_update [of k' tok' "tc_live c"]
      by (auto simp: keeps_def shared_put_def Let_def update_conv)
  qed
qed

lemma keeps_weaken: "keeps n k tok c \<Longrightarrow> m \<le> n \<Longrightarrow> keeps m k tok c"
  by (auto simp: keeps_def)

lemma keeps_put_new: "keeps sharedTokenGeneration k tok (shared_put k tok c)"
  by (simp add: keeps_def shared_put_def Let_def update_conv)

text \<open>A request for a key that is held: its token, and the issuer is not asked.\<close>

lemma reuse_held:
  assumes "keeps n k tok c"
  shows "\<exists>c'. reuse k mint (c, s) = (Inr tok, (c', s)) \<and> keeps sharedTokenGeneration k tok c'"
proof (cases "map_of (tc_live c) k")
  case (Some x)
  then show ?thesis using assms by (auto simp: reuse_def keeps_def)
next
  case None
  then show ?thesis using assms keeps_put_new by (auto simp: reuse_def keeps_def)
qed

lemma reuse_answer:
  assumes "reuse k mint (c, s) = (Inr tok, (c', s'))"
  shows "keeps sharedTokenGeneration k tok c'"
proof (cases "map_of (tc_live c) k")
  case (Some x)
  then show ?thesis using assms by (simp add: reuse_def keeps_def)
next
  case None
  then have "c' = shared_put k tok c"
    using assms by (auto simp: reuse_def split: option.splits prod.splits sum.splits)
  then show ?thesis using keeps_put_new by simp
qed

lemma reuse_keeps_other:
  assumes "keeps (Suc n) k tok c" and "reuse k' mint (c, s) = (r, (c', s'))"
  shows "keeps n k tok c'"
proof (cases "k' = k")
  case True
  then obtain d where "reuse k' mint (c, s) = (Inr tok, (d, s))" "keeps sharedTokenGeneration k tok d"
    unfolding True using reuse_held [OF assms(1), of mint s] by (elim exE conjE)
  moreover have "n \<le> sharedTokenGeneration" using assms(1) by (auto simp: keeps_def)
  ultimately show ?thesis using assms(2) keeps_weaken by simp
next
  case False
  then have "c' = c \<or> (\<exists>tok'. c' = shared_put k' tok' c)"
    using assms(2) by (auto simp: reuse_def split: option.splits prod.splits sum.splits)
  then show ?thesis using keeps_weaken [OF assms(1)] keeps_put [OF assms(1)] False by auto
qed

lemma reuse_inv: "cache_inv c \<Longrightarrow> reuse k mint (c, s) = (r, (c', s')) \<Longrightarrow> cache_inv c'"
  using cache_inv_put by (auto simp: reuse_def split: option.splits prod.splits sum.splits)

lemma builder_token_keeps:
  assumes "keeps (Suc n) k tok c" and "builder_token k' mint (c, s) = (r, (c', s'))"
  shows "keeps n k tok c'"
proof (cases "IsolatesRecipient (ky_mode k')")
  case True
  then have "c' = c" using assms(2) by (auto simp: builder_token_def split: prod.splits)
  then show ?thesis using keeps_weaken [OF assms(1)] by simp
next
  case False
  then show ?thesis using reuse_keeps_other [OF assms(1)] assms(2) by (simp add: builder_token_def)
qed

lemma builder_token_inv:
  assumes "cache_inv c" and "builder_token k mint (c, s) = (r, (c', s'))"
  shows "cache_inv c'"
  using assms reuse_inv by (auto simp: builder_token_def split: if_splits prod.splits)

section \<open>Sequences of requests\<close>

type_synonym 's request = "sharedTokenKey \<times> ('s, sec_error) token_mint"

fun ask_all :: "'s request list \<Rightarrow> 's build_state \<Rightarrow> (sec_error + string list) \<times> 's build_state" where
  "ask_all [] st = (Inr [], st)"
| "ask_all ((k, mint) # rs) st =
     (case builder_token k mint st of
        (Inl e, st') \<Rightarrow> (Inl e, st')
      | (Inr tok, st') \<Rightarrow>
          (case ask_all rs st' of (Inl e, st'') \<Rightarrow> (Inl e, st'') | (Inr ts, st'') \<Rightarrow> (Inr (tok # ts), st'')))"

lemma ask_all_keeps:
  assumes "keeps (n + length rs) k tok (fst st)" and "ask_all rs st = (r, st')"
  shows "keeps n k tok (fst st')"
  using assms
proof (induction rs arbitrary: st r)
  case Nil
  then show ?case by simp
next
  case (Cons p rs)
  obtain k' mint where p: "p = (k', mint)" by fastforce
  obtain c s where st: "st = (c, s)" by fastforce
  obtain x d u where b: "builder_token k' mint st = (x, (d, u))" using prod_cases3 by metis
  have d: "keeps (n + length rs) k tok d"
    using builder_token_keeps [of "n + length rs" k tok c k' mint s x d u] Cons.prems(1) b by (simp add: st)
  show ?case
  proof (cases x)
    case (Inl e)
    then show ?thesis using Cons.prems(2) b d keeps_weaken by (auto simp: p)
  next
    case (Inr t)
    obtain y w where y: "ask_all rs (d, u) = (y, w)" by (cases "ask_all rs (d, u)")
    then have "st' = w" using Cons.prems(2) b Inr by (auto simp: p split: sum.splits)
    then show ?thesis using Cons.IH [of "(d, u)" y] d y by simp
  qed
qed

fun kept :: "nat \<Rightarrow> sharedTokenKey list \<Rightarrow> string list \<Rightarrow> sharedTokens \<Rightarrow> bool" where
  "kept n [] [] c \<longleftrightarrow> True"
| "kept n (k # ks) (t # ts) c \<longleftrightarrow> keeps (n - length ks) k t c \<and> kept n ks ts c"
| "kept n _ _ c \<longleftrightarrow> False"

definition shared_key :: "sharedTokenKey \<Rightarrow> bool" where
  "shared_key k \<longleftrightarrow> \<not> IsolatesRecipient (ky_mode k)"

lemma ask_all_kept:
  assumes "list_all (\<lambda>(k, m). shared_key k) rs" and "length rs \<le> sharedTokenGeneration"
    and "ask_all rs st = (Inr ts, st')"
  shows "kept sharedTokenGeneration (map fst rs) ts (fst st')"
  using assms
proof (induction rs arbitrary: st ts)
  case Nil
  then show ?case by simp
next
  case (Cons p rs)
  obtain k mint where p: "p = (k, mint)" by fastforce
  obtain c s where st: "st = (c, s)" by fastforce
  obtain t d u us where b: "builder_token k mint st = (Inr t, (d, u))" and r: "ask_all rs (d, u) = (Inr us, st')" and ts: "ts = t # us"
    using Cons.prems(3) by (auto simp: p split: prod.splits sum.splits)
  have "reuse k mint (c, s) = (Inr t, (d, u))"
    using b Cons.prems(1) by (simp add: builder_token_def p st shared_key_def)
  then have "keeps sharedTokenGeneration k t d" by (rule reuse_answer)
  then have "keeps (sharedTokenGeneration - length rs) k t (fst st')"
    using ask_all_keeps [of "sharedTokenGeneration - length rs" rs k t "(d, u)"] r Cons.prems(2) by simp
  then show ?case using Cons.IH [OF _ _ r] Cons.prems(1,2) by (simp add: p ts)
qed

lemma kept_put:
  assumes "kept n ks ts c" and "length ks \<le> n" and "\<And>m k t. keeps (Suc m) k t c \<Longrightarrow> keeps m k t c'"
  shows "kept (n - 1) ks ts c'"
  using assms(1,2)
proof (induction ks arbitrary: ts)
  case Nil
  then show ?case by (cases ts) simp_all
next
  case (Cons k ks)
  then obtain t us where ts: "ts = t # us" by (cases ts) simp_all
  have "n - length ks = Suc (n - 1 - length ks)" using Cons.prems(2) by simp
  then show ?case using Cons assms(3) by (simp add: ts)
qed

text \<open>A second round of the same requests gets the same tokens and asks the issuer for nothing.\<close>

lemma ask_all_again:
  assumes "kept n (map fst rs) ts c" and "list_all (\<lambda>(k, m). shared_key k) rs" and "length rs \<le> Suc n"
  shows "\<exists>c'. ask_all rs (c, s) = (Inr ts, (c', s))"
  using assms
proof (induction rs arbitrary: n ts c)
  case Nil
  then show ?case by (cases ts) simp_all
next
  case (Cons p rs)
  obtain k mint where p: "p = (k, mint)" by fastforce
  obtain t us where ts: "ts = t # us" "keeps (n - length rs) k t c" "kept n (map fst rs) us c"
    using Cons.prems(1) by (cases ts) (simp_all add: p)
  obtain c' where c': "reuse k mint (c, s) = (Inr t, (c', s))" using reuse_held [OF ts(2), of mint s] by (elim exE conjE)
  then have b: "builder_token k mint (c, s) = (Inr t, (c', s))"
    using Cons.prems(2) by (simp add: builder_token_def p shared_key_def)
  have "kept (n - 1) (map fst rs) us c'"
  proof (rule kept_put [OF ts(3)])
    show "length (map fst rs) \<le> n" using Cons.prems(3) by simp
    show "keeps m l x c'" if "keeps (Suc m) l x c" for m l x by (rule reuse_keeps_other [OF that c'])
  qed
  moreover have "list_all (\<lambda>(k, m). shared_key k) rs" "length rs \<le> Suc (n - 1)"
    using Cons.prems(2,3) by simp_all
  ultimately have "\<exists>c''. ask_all rs (c', s) = (Inr us, (c'', s))" by (rule Cons.IH)
  then obtain c'' where "ask_all rs (c', s) = (Inr us, (c'', s))" by (elim exE)
  then show ?case using b by (simp add: p ts(1))
qed

lemma ask_all_inv: "cache_inv (fst st) \<Longrightarrow> ask_all rs st = (r, st') \<Longrightarrow> cache_inv (fst st')"
proof (induction rs arbitrary: st r)
  case (Cons p rs)
  obtain k mint where p: "p = (k, mint)" by fastforce
  obtain c s where st: "st = (c, s)" by fastforce
  obtain x d u where b: "builder_token k mint st = (x, (d, u))" using prod_cases3 by metis
  have d: "cache_inv (fst (d, u))" using builder_token_inv [of c k mint s x d u] Cons.prems(1) b by (simp add: st)
  show ?case
  proof (cases x)
    case (Inl e)
    then show ?thesis using Cons.prems(2) b d by (auto simp: p)
  next
    case (Inr t)
    obtain y w where y: "ask_all rs (d, u) = (y, w)" by (cases "ask_all rs (d, u)")
    then have "st' = w" using Cons.prems(2) b Inr by (auto simp: p split: sum.splits)
    then show ?thesis using Cons.IH [of "(d, u)" y] d y by simp
  qed
qed simp

lemma shared_len_bound: "cache_inv c \<Longrightarrow> shared_len c \<le> 2 * sharedTokenGeneration"
  by (simp add: cache_inv_def shared_len_def)

text \<open>
  C26. The cache of shared tokens gives one token per key and stays small.  From a cache within its bounds,
  once a token that names no Recipient was given out for a key, any sequence of up to 1024 further requests,
  whatever their keys, Modes and outcomes, leaves that very token in place: the key gets it again without
  the issuer being asked, whatever mint is offered.  The cache never holds more than 2048 entries, and a
  Mode that isolates Recipients is minted every time and leaves the cache alone.
\<close>

theorem shared_token_stable:
  assumes "cache_inv (fst st)" and "\<not> IsolatesRecipient (ky_mode k)"
    and "builder_token k mint st = (Inr tok, st1)" and "length rs \<le> 1024" and "ask_all rs st1 = (r, st2)"
  shows "fst (builder_token k mint' st2) = Inr tok \<and> snd (snd (builder_token k mint' st2)) = snd st2 \<and>
     cache_inv (fst (snd (builder_token k mint' st2))) \<and> shared_len (fst st2) \<le> 2048 \<and>
     (IsolatesRecipient (ky_mode j) \<longrightarrow>
        builder_token j mint' st2 = (fst (mint' (snd st2)), (fst st2, snd (mint' (snd st2)))))"
proof -
  obtain c s c1 s1 c2 s2 where st: "st = (c, s)" "st1 = (c1, s1)" "st2 = (c2, s2)" by (metis surj_pair)
  have b: "reuse k mint (c, s) = (Inr tok, (c1, s1))" using assms(2,3) by (simp add: builder_token_def st)
  have "keeps (0 + length rs) k tok (fst st1)"
    using keeps_weaken [OF reuse_answer [OF b]] assms(4) by (simp add: st sharedTokenGeneration_def)
  then have k2: "keeps 0 k tok c2" using ask_all_keeps [OF _ assms(5)] by (simp add: st)
  have inv1: "cache_inv c1" using builder_token_inv [of c k mint s "Inr tok" c1 s1] assms(1,3) by (simp add: st)
  then have inv2: "cache_inv c2" using ask_all_inv [OF _ assms(5)] by (simp add: st)
  obtain c3 where c3: "reuse k mint' (c2, s2) = (Inr tok, (c3, s2))"
    using reuse_held [OF k2, of mint' s2] by (elim exE conjE)
  have b2: "builder_token k mint' st2 = (Inr tok, (c3, s2))"
    using c3 assms(2) by (simp add: builder_token_def st)
  have "cache_inv c3" using reuse_inv [OF inv2 c3] .
  moreover have "shared_len c2 \<le> 2048" using shared_len_bound [OF inv2] by (simp add: sharedTokenGeneration_def)
  moreover have "builder_token j mint' st2 = (fst (mint' (snd st2)), (fst st2, snd (mint' (snd st2))))"
    if "IsolatesRecipient (ky_mode j)"
    using that by (simp add: builder_token_def st split: prod.split)
  ultimately show ?thesis unfolding b2 by (simp add: st)
qed

definition count_mint :: "(nat, sec_error) token_mint" where
  "count_mint n = (Inr (replicate n CHR ''t''), Suc n)"

definition anon_key :: "string \<Rightarrow> sharedTokenKey" where
  "anon_key u = \<lparr>ky_axis = AxisLinks, ky_domain = ''k.dev'', ky_message = ''m'', ky_url = u, ky_mode = ModeAnonymous\<rparr>"

lemma shared_token_stable_witness:
  "fst (builder_token (anon_key ''a'') count_mint (snd (ask_all [(anon_key ''b'', count_mint)]
      (snd (builder_token (anon_key ''a'') count_mint (newSharedTokens, 7)))))) = Inr ''ttttttt''"
proof -
  have i: "cache_inv (fst (newSharedTokens, 7 :: nat))" "\<not> IsolatesRecipient (ky_mode (anon_key ''a''))"
    by (simp_all add: cache_inv_def newSharedTokens_def anon_key_def IsolatesRecipient_iff)
  have b: "builder_token (anon_key ''a'') count_mint (newSharedTokens, 7) =
      (Inr ''ttttttt'', snd (builder_token (anon_key ''a'') count_mint (newSharedTokens, 7)))" by code_simp
  have l: "length [(anon_key ''b'', count_mint)] \<le> 1024" by simp
  from shared_token_stable [OF i b l prod.collapse [symmetric], of count_mint] show ?thesis by blast
qed

section \<open>A build as a sequence of requests\<close>

definition link_key :: "trackTarget \<Rightarrow> string \<Rightarrow> sharedTokenKey" where
  "link_key t l = \<lparr>ky_axis = AxisLinks, ky_domain = tt_domain t, ky_message = tt_message t, ky_url = l, ky_mode = tt_mode t\<rparr>"

definition open_key :: "trackTarget \<Rightarrow> sharedTokenKey" where
  "open_key t = \<lparr>ky_axis = AxisOpens, ky_domain = tt_domain t, ky_message = tt_message t, ky_url = [], ky_mode = tt_mode t\<rparr>"

definition link_request :: "'s issuer \<Rightarrow> trackTarget \<Rightarrow> string \<Rightarrow> 's request" where
  "link_request I t l = (link_key t l, is_link I (tt_message t) (tt_identity t) l (tt_mode t))"

definition open_request :: "'s issuer \<Rightarrow> trackTarget \<Rightarrow> 's request" where
  "open_request I t = (open_key t, is_open I (tt_message t) (tt_identity t) (tt_mode t))"

definition click_url :: "trackTarget \<Rightarrow> string \<Rightarrow> string" where
  "click_url t tok = ''https://stats.'' @ tt_domain t @ ''/c/'' @ tok"

definition open_url :: "trackTarget \<Rightarrow> string \<Rightarrow> string" where
  "open_url t tok = ''https://stats.'' @ tt_domain t @ ''/o/'' @ tok"

lemma mint_all_ask:
  "mint_all (\<lambda>l. buildTrackClickLink I l t) ls st =
     (case ask_all (map (link_request I t) ls) st of
        (Inl e, st') \<Rightarrow> (Inl e, st')
      | (Inr ts, st') \<Rightarrow> (Inr (map (click_url t) ts), st'))"
proof (induction ls arbitrary: st)
  case (Cons l ls)
  obtain r st' where r: "builder_token (link_key t l) (is_link I (tt_message t) (tt_identity t) l (tt_mode t)) st = (r, st')"
    by (metis surj_pair)
  then have c: "buildTrackClickLink I l t st = (case r of Inl e \<Rightarrow> (Inl e, st') | Inr tok \<Rightarrow> (Inr (click_url t tok), st'))"
    by (simp add: buildTrackClickLink_def link_key_def click_url_def split: sum.split)
  have l: "link_request I t l = (link_key t l, is_link I (tt_message t) (tt_identity t) l (tt_mode t))"
    by (simp add: link_request_def)
  show ?case
    by (cases r; cases "ask_all (map (link_request I t) ls) st'") (auto simp: c r l Cons.IH split: sum.split)
qed simp

definition link_text :: "unicode \<Rightarrow> trackTarget \<Rightarrow> string \<Rightarrow> string list \<Rightarrow> string" where
  "link_text U t html ts = assemble (put_links U (fst (find_tags html)) (map (click_url t) ts)) (snd (find_tags html))"

lemma replaceAllLinks_ask:
  "replaceAllLinks U I html t st =
     (case ask_all (map (link_request I t) (tracked_links U html)) st of
        (Inl e, st') \<Rightarrow> (Inl e, st')
      | (Inr ts, st') \<Rightarrow> (Inr (link_text U t html ts), st'))"
  by (cases "ask_all (map (link_request I t) (tracked_links U html)) st")
    (auto simp: replaceAllLinks_def replaceLinks_eq mint_all_ask link_text_def split: sum.split)

lemma addTrackPixel_ask:
  "addTrackPixel I html t st =
     (case ask_all [open_request I t] st of
        (Inl e, st') \<Rightarrow> (Inl e, st')
      | (Inr ts, st') \<Rightarrow> (Inr (insertTrackLinkInHTML html (open_url t (hd ts))), st'))"
  by (cases "builder_token (open_key t) (is_open I (tt_message t) (tt_identity t) (tt_mode t)) st")
    (auto simp: addTrackPixel_def buildTrackOpenLink_def open_request_def open_key_def open_url_def split: sum.split)

lemma ask_all_append:
  "ask_all (rs @ qs) st =
     (case ask_all rs st of
        (Inl e, st') \<Rightarrow> (Inl e, st')
      | (Inr ts, st') \<Rightarrow>
          (case ask_all qs st' of (Inl e, st'') \<Rightarrow> (Inl e, st'') | (Inr us, st'') \<Rightarrow> (Inr (ts @ us), st'')))"
proof (induction rs arbitrary: st)
  case Nil
  then show ?case by (simp split: prod.split sum.split)
next
  case (Cons p rs)
  obtain k mint where p: "p = (k, mint)" by fastforce
  obtain r st' where r: "builder_token k mint st = (r, st')" by (metis surj_pair)
  show ?case
    by (cases r) (auto simp: p r Cons.IH split: prod.split sum.split)
qed

lemma ask_all_length: "ask_all rs st = (Inr ts, st') \<Longrightarrow> length ts = length rs"
  by (induction rs arbitrary: st ts) (auto split: prod.splits sum.splits)

text \<open>The requests of one build, and the HTML their answers make.\<close>

definition build_requests ::
  "unicode \<Rightarrow> 's issuer \<Rightarrow> policy \<Rightarrow> trackingIdentity \<Rightarrow> SendingData \<Rightarrow> string \<Rightarrow> 's request list" where
  "build_requests U I p i data html =
     (if links p \<noteq> ModeOff then map (link_request I (trackTargetFor i data (links p))) (tracked_links U html) else []) @
     (if opens p \<noteq> ModeOff then [open_request I (trackTargetFor i data (opens p))] else [])"

definition built_html :: "unicode \<Rightarrow> policy \<Rightarrow> SendingData \<Rightarrow> string \<Rightarrow> string list \<Rightarrow> string" where
  "built_html U p data html ts =
     (let t = trackTargetFor \<lparr>ti_email = [], ti_pseudonym = []\<rparr> data ModeOff;
          n = (if links p \<noteq> ModeOff then length (tracked_links U html) else 0);
          h = stripNoTrackAttrs (if links p \<noteq> ModeOff then link_text U t html (take n ts) else html) in
      if opens p \<noteq> ModeOff then insertTrackLinkInHTML h (open_url t (hd (drop n ts))) else h)"

lemma url_data: "click_url (trackTargetFor i data m) = click_url (trackTargetFor j data n)"
  "open_url (trackTargetFor i data m) = open_url (trackTargetFor j data n)"
  by (simp_all add: click_url_def open_url_def trackTargetFor_def fun_eq_iff)

lemma link_text_data: "link_text U (trackTargetFor i data m) = link_text U (trackTargetFor j data n)"
  unfolding link_text_def url_data(1) [of i data m j n] ..

lemma preparedHTML_ask:
  assumes "newTrackingIdentity (dl_tracking d) (dl_email d) (sd_domain data) (bc_random bc) = Inr i"
    and "html = ReplaceCustomFields X (sd_html data) (bc_html bc)" and "p = dl_tracking d"
  shows "preparedHTML U X I bc d data st =
     (case ask_all (build_requests U I p i data html) st of
        (Inl e, st') \<Rightarrow> (Inl (NoToken e), st')
      | (Inr ts, st') \<Rightarrow> (Inr (built_html U p data html ts), st'))"
proof -
  let ?o = "trackTargetFor i data (opens p)" and ?l = "trackTargetFor i data (links p)"
  let ?z = "trackTargetFor \<lparr>ti_email = [], ti_pseudonym = []\<rparr> data ModeOff"
  note urls = url_data(2) [of i data "opens p" "\<lparr>ti_email = [], ti_pseudonym = []\<rparr>" ModeOff]
    link_text_data [of U i data "links p" "\<lparr>ti_email = [], ti_pseudonym = []\<rparr>" ModeOff]
  have p1: "preparedHTML U X I bc d data st =
     (case (if links p \<noteq> ModeOff then as_build (replaceAllLinks U I html ?l st) else (Inr html, st)) of
        (Inl e, st') \<Rightarrow> (Inl e, st')
      | (Inr h, st') \<Rightarrow> if opens p = ModeOff then (Inr (stripNoTrackAttrs h), st')
          else as_build (addTrackPixel I (stripNoTrackAttrs h) ?o st'))"
    unfolding preparedHTML_def Let_def assms(2) [symmetric] assms(3) [symmetric]
      assms(1) [folded assms(3)] sum.case ..
  show ?thesis
  proof (cases "links p = ModeOff")
    case True
    have "preparedHTML U X I bc d data st =
       (if opens p = ModeOff then (Inr (stripNoTrackAttrs html), st)
        else as_build (addTrackPixel I (stripNoTrackAttrs html) ?o st))"
      unfolding p1 using True by simp
    then show ?thesis
      using True by (auto simp: build_requests_def built_html_def addTrackPixel_ask as_build_def urls Let_def
          split: prod.split sum.split)
  next
    case False
    let ?rs = "map (link_request I ?l) (tracked_links U html)"
    obtain r s where rs: "ask_all ?rs st = (r, s)" by (cases "ask_all ?rs st")
    show ?thesis
    proof (cases r)
      case (Inl e)
      then show ?thesis
        unfolding p1 using False rs
        by (simp add: build_requests_def ask_all_append replaceAllLinks_ask as_build_def)
    next
      case (Inr ts)
      have len: "length ts = length (tracked_links U html)" using ask_all_length rs Inr by fastforce
      have "preparedHTML U X I bc d data st =
         (if opens p = ModeOff then (Inr (stripNoTrackAttrs (link_text U ?l html ts)), s)
          else as_build (addTrackPixel I (stripNoTrackAttrs (link_text U ?l html ts)) ?o s))"
        unfolding p1 using False rs Inr by (simp add: replaceAllLinks_ask as_build_def)
      then show ?thesis
        using False rs Inr len
        by (auto simp: build_requests_def ask_all_append built_html_def addTrackPixel_ask as_build_def urls Let_def
            split: prod.split sum.split)
    qed
  qed
qed

lemma request_keys:
  "map fst (build_requests U I p i data html) = map fst (build_requests U I p j data html)"
  by (simp add: build_requests_def link_request_def open_request_def link_key_def open_key_def trackTargetFor_def comp_def)

definition nobody_told_apart :: "policy \<Rightarrow> bool" where
  "nobody_told_apart p \<longleftrightarrow> \<not> IsolatesRecipient (opens p) \<and> \<not> IsolatesRecipient (links p)"

lemma requests_shared:
  "nobody_told_apart p \<Longrightarrow> list_all (\<lambda>(k, m). shared_key k) (build_requests U I p i data html)"
  by (auto simp: nobody_told_apart_def build_requests_def link_request_def open_request_def link_key_def open_key_def
      trackTargetFor_def shared_key_def list_all_iff)

lemma requests_length: "length (build_requests U I p i data html) \<le> Suc (length (tracked_links U html))"
  by (simp add: build_requests_def)

lemma told_apart_identity:
  assumes "nobody_told_apart p"
  shows "newTrackingIdentity p email domain raw = Inr \<lparr>ti_email = email, ti_pseudonym = []\<rparr>"
proof -
  have "IsolatesRecipient ModePseudonymous" by (simp add: IsolatesRecipient_iff)
  then have "opens p \<noteq> ModePseudonymous" "links p \<noteq> ModePseudonymous"
    using assms unfolding nobody_told_apart_def by metis+
  then show ?thesis by (simp add: newTrackingIdentity_def)
qed

section \<open>Issuers that cannot be made to name anybody\<close>

text \<open>What the Builder relies on in a \<open>TokenIssuer\<close>: a Mode that tells nobody apart ignores the identity.\<close>

locale token_issuer =
  fixes I :: "'s issuer"
  assumes link_blind: "\<not> IsolatesRecipient m \<Longrightarrow> is_link I mid a url m s = is_link I mid b url m s"
    and open_blind: "\<not> IsolatesRecipient m \<Longrightarrow> is_open I mid a m s = is_open I mid b m s"
begin

lemma requests_blind:
  assumes "nobody_told_apart p"
  shows "build_requests U I p i data html = build_requests U I p j data html"
proof -
  have l: "link_request I (trackTargetFor i data m) l = link_request I (trackTargetFor j data m) l"
    if "\<not> IsolatesRecipient m" for m l
  proof -
    have "is_link I mid a l m = is_link I mid b l m" for mid a b by (rule ext) (rule link_blind [OF that])
    then show ?thesis by (simp add: link_request_def link_key_def trackTargetFor_def)
  qed
  have o: "open_request I (trackTargetFor i data m) = open_request I (trackTargetFor j data m)"
    if "\<not> IsolatesRecipient m" for m
  proof -
    have "is_open I mid a m = is_open I mid b m" for mid a b by (rule ext) (rule open_blind [OF that])
    then show ?thesis by (simp add: open_request_def open_key_def trackTargetFor_def)
  qed
  show ?thesis using assms l o unfolding nobody_told_apart_def build_requests_def by simp
qed

lemma prepared_blind:
  assumes "nobody_told_apart (dl_tracking d)" and "dl_tracking d' = dl_tracking d"
    and "ReplaceCustomFields X (sd_html data) (bc_html bc') = ReplaceCustomFields X (sd_html data) (bc_html bc)"
  shows "preparedHTML U X I bc' d' data st = preparedHTML U X I bc d data st"
proof -
  let ?h = "ReplaceCustomFields X (sd_html data) (bc_html bc)"
  let ?i = "\<lparr>ti_email = dl_email d, ti_pseudonym = []\<rparr>" and ?j = "\<lparr>ti_email = dl_email d', ti_pseudonym = []\<rparr>"
  have i: "newTrackingIdentity (dl_tracking d) (dl_email d) (sd_domain data) (bc_random bc) = Inr ?i"
    and j: "newTrackingIdentity (dl_tracking d') (dl_email d') (sd_domain data) (bc_random bc') = Inr ?j"
    using told_apart_identity [OF assms(1)] by (simp_all add: assms(2))
  show ?thesis
    unfolding preparedHTML_ask [OF i refl refl, of U X I st]
      preparedHTML_ask [OF j assms(3) [symmetric] assms(2) [symmetric], of U I st]
      requests_blind [OF assms(1), of U ?j data ?h ?i] ..
qed

end

text \<open>The service of \<open>statssec\<close> as an issuer: its keys, and what each of its calls will meet.\<close>

type_synonym service_state = "key_table \<times> (nat \<Rightarrow> sec_call)"

definition service_step :: "(sec_call \<Rightarrow> key_table \<Rightarrow> 'r \<times> key_table) \<Rightarrow> service_state \<Rightarrow> 'r \<times> service_state" where
  "service_step f s = (case f (snd s 0) (fst s) of (r, t) \<Rightarrow> (r, (t, \<lambda>n. snd s (Suc n))))"

definition service_issuer :: "unicode \<Rightarrow> ('priv, 'pub) jwt_lib \<Rightarrow> service_state issuer" where
  "service_issuer U L =
     \<lparr>is_link = (\<lambda>mid identity url m. service_step (\<lambda>cl. CreateLinkToken U L cl mid identity url m)),
      is_open = (\<lambda>mid identity m. service_step (\<lambda>cl. CreateOpenToken U L cl mid identity m))\<rparr>"

interpretation service: token_issuer "service_issuer U L"
proof
  fix m mid a b url and s :: service_state
  assume "\<not> IsolatesRecipient m"
  then have i: "identityUnder U m a mid = identityUnder U m b mid" by (rule identityUnder_anonymous)
  have "CreateLinkToken U L cl mid a url m t = CreateLinkToken U L cl mid b url m t"
    "CreateOpenToken U L cl mid a m t = CreateOpenToken U L cl mid b m t" for cl t
    by (simp_all only: CreateLinkToken_def createLinkToken_def CreateOpenToken_def createOpenToken_def i)
  then show "is_link (service_issuer U L) mid a url m s = is_link (service_issuer U L) mid b url m s"
    "is_open (service_issuer U L) mid a m s = is_open (service_issuer U L) mid b m s"
    by (simp_all add: service_issuer_def service_step_def)
qed

lemma second_build:
  assumes "nobody_told_apart (dl_tracking d)" and "dl_tracking d' = dl_tracking d"
    and "preparedHTML U X I bc d data st = (Inr html, st1)"
    and "ReplaceCustomFields X (sd_html data) (bc_html bc') = ReplaceCustomFields X (sd_html data) (bc_html bc)"
    and "length (tracked_links U (ReplaceCustomFields X (sd_html data) (bc_html bc))) \<le> 1023"
  shows "\<exists>c. preparedHTML U X I bc' d' data st1 = (Inr html, (c, snd st1))"
proof -
  let ?h = "ReplaceCustomFields X (sd_html data) (bc_html bc)" and ?p = "dl_tracking d"
  let ?i = "\<lparr>ti_email = dl_email d, ti_pseudonym = []\<rparr>" and ?j = "\<lparr>ti_email = dl_email d', ti_pseudonym = []\<rparr>"
  let ?rs = "build_requests U I ?p ?i data ?h" and ?qs = "build_requests U I ?p ?j data ?h"
  note first = preparedHTML_ask [where d = d and data = data and bc = bc, OF told_apart_identity [OF assms(1)] refl refl,
      of U X I st]
  obtain ts where ts: "ask_all ?rs st = (Inr ts, st1)" "html = built_html U ?p data ?h ts"
    using assms(3) unfolding first by (auto split: prod.splits sum.splits)
  have len: "length ?rs \<le> sharedTokenGeneration" "length ?qs \<le> Suc sharedTokenGeneration"
    using requests_length [of U I ?p ?i data ?h] requests_length [of U I ?p ?j data ?h] assms(5)
    by (simp_all add: sharedTokenGeneration_def)
  have "kept sharedTokenGeneration (map fst ?rs) ts (fst st1)"
    by (rule ask_all_kept [OF requests_shared [OF assms(1)] len(1) ts(1)])
  then have "kept sharedTokenGeneration (map fst ?qs) ts (fst st1)"
    by (simp only: request_keys [of U I ?p ?i data ?h ?j])
  then obtain c where c: "ask_all ?qs (fst st1, snd st1) = (Inr ts, (c, snd st1))"
    using ask_all_again [OF _ requests_shared [OF assms(1)] len(2)] by blast
  have "preparedHTML U X I bc' d' data st1 = (Inr html, (c, snd st1))"
    using preparedHTML_ask [where d = d' and data = data and bc = bc' and U = U and X = X and I = I and st = st1,
        OF _ assms(4) [symmetric] assms(2) [symmetric]] told_apart_identity [OF assms(1)] c
    by (simp add: assms(2) ts(2))
  then show ?thesis by blast
qed


text \<open>
  C25. Under a Policy that tells nobody apart, the Deliveries of a Batch go out with the same HTML.  For two
  Deliveries of a Batch under one such Policy whose fields render the template alike, a build's HTML, its
  error if any and what it leaves of the cache and of the keys do not depend on which of the two is built;
  and once one of them was built, with at most 1023 tracked links in the text, the next build of the other
  gives the very same HTML, pixel and redirects included, and mints no token.
\<close>

theorem batch_uniform:
  assumes "nobody_told_apart (dl_tracking d)" and "dl_tracking d' = dl_tracking d"
    and "ReplaceCustomFields X (sd_html data) (bc_html bc') = ReplaceCustomFields X (sd_html data) (bc_html bc)"
    and "length (tracked_links U (ReplaceCustomFields X (sd_html data) (bc_html bc))) \<le> 1023"
  shows "preparedHTML U X (service_issuer V L) bc' d' data st = preparedHTML U X (service_issuer V L) bc d data st \<and>
     (\<forall>html st1. preparedHTML U X (service_issuer V L) bc d data st = (Inr html, st1) \<longrightarrow>
        (\<exists>c. preparedHTML U X (service_issuer V L) bc' d' data st1 = (Inr html, (c, snd st1))))"
  using service.prepared_blind [OF assms(1-3)] second_build [OF assms(1,2) _ assms(3,4)] by blast

section \<open>The Envelope\<close>

lemma buildHeaders_unsubscribe:
  "buildHeaders subj s to pid mid baseHeaders custom u headerListUnsubscribe =
     (if u \<noteq> [] then Some [''<'' @ u @ ''>''] else None)"
  "buildHeaders subj s to pid mid baseHeaders custom u headerListUnsubscribePost =
     (if u \<noteq> [] then Some [''List-Unsubscribe=One-Click''] else None)"
  by (simp_all add: buildHeaders_def Let_def headerListUnsubscribe_def headerListUnsubscribePost_def baseHeaders_def)

lemma buildHeaders_address:
  "buildHeaders subj s to pid mid baseHeaders custom u ''To'' =
     Some (if hdr_to custom = [] then [to] else hdr_to custom)"
  "buildHeaders subj s to pid mid baseHeaders custom u ''Message-ID'' = Some [mid]"
  "buildHeaders subj s to pid mid baseHeaders custom u ''Subject'' = Some [subj]"
  by (simp_all add: buildHeaders_def Let_def headerListUnsubscribe_def headerListUnsubscribePost_def)

text \<open>The steps behind an Envelope that was built.\<close>

definition headers_for :: "regexp_lib \<Rightarrow> build_call \<Rightarrow> Delivery \<Rightarrow> SendingData \<Rightarrow> mail_headers" where
  "headers_for X bc d data =
     buildHeaders (ReplaceCustomFields X (sd_subject data) (bc_subject bc))
       \<lparr>sender_email = sd_sender_email data, sender_alias = sd_sender_alias data\<rparr> (dl_email d) (sd_message_id data)
       (buildEmailID (dl_email d) (sd_message_id data)) baseHeaders (sd_headers data)
       (resolveUnsubscribeURL X (sd_unsubscribe data) (bc_url bc))"

lemma Build_steps:
  assumes "Build U X M I source bc d st = (Inr env, st')"
  shows "\<exists>data html msg. source (dl_batch d) = Some data \<and> preparedHTML U X I bc d data st = (Inr html, st') \<and>
     renderMsg M html (headers_for X bc d data) (sd_attachments data) (bc_now bc) = Some msg \<and>
     signMessage M (sd_domain data) (sd_dkim_private data) msg = Inr (en_body env) \<and>
     env = \<lparr>en_email_id = buildEmailID (dl_email d) (sd_message_id data), en_from = sd_sender_email data,
         en_to = dl_email d, en_return_path = buildReturnPath (dl_email d) (sd_message_id data),
         en_body = en_body env, en_should_retry = CanRetry d\<rparr>"
proof -
  obtain data where data: "source (dl_batch d) = Some data"
    using assms by (auto simp: Build_def split: option.splits)
  obtain msg where msg: "prepareMessage U X M I bc d data st = (Inr msg, st')"
      "signMessage M (sd_domain data) (sd_dkim_private data) msg = Inr (en_body env)"
    and env: "env = \<lparr>en_email_id = buildEmailID (dl_email d) (sd_message_id data), en_from = sd_sender_email data,
         en_to = dl_email d, en_return_path = buildReturnPath (dl_email d) (sd_message_id data),
         en_body = en_body env, en_should_retry = CanRetry d\<rparr>"
    using assms data by (auto simp: Build_def Let_def split: prod.splits sum.splits)
  obtain html where "preparedHTML U X I bc d data st = (Inr html, st')"
      "renderMsg M html (headers_for X bc d data) (sd_attachments data) (bc_now bc) = Some msg"
    using msg(1) by (auto simp: prepareMessage_def headers_for_def Let_def split: prod.splits sum.splits option.splits)
  then show ?thesis using data msg(2) env by blast
qed

text \<open>
  C24. What an Envelope is made of.  Building fails with the storage and with nothing changed when the Batch
  cannot be looked up.  A built Envelope is addressed to the Delivery, carries the Message-ID and the
  Return-Path of the Delivery and the Batch, the Batch's sender and the Delivery's own answer to whether it
  may be tried again; its body is the signature, with the Domain's key over the fixed list of headers, of
  the message rendered from the prepared HTML and headers that advertise one-click unsubscribe with both
  headers or with none, exactly when the Batch's URL resolves for the Delivery.  With both axes off, no
  token is minted, the cache is not touched and the HTML is the rendered template without the attribute.
\<close>

theorem Build_envelope:
  assumes "Build U X M I source bc d st = (r, st')"
  shows "(case r of
       Inl e \<Rightarrow> source (dl_batch d) = None \<longrightarrow> e = NoSendingData \<and> st' = st
     | Inr env \<Rightarrow> (\<exists>data html h msg.
         source (dl_batch d) = Some data \<and> en_to env = dl_email d \<and> en_from env = sd_sender_email data \<and>
         en_email_id env = buildEmailID (dl_email d) (sd_message_id data) \<and>
         en_return_path env = buildReturnPath (dl_email d) (sd_message_id data) \<and>
         en_should_retry env = CanRetry d \<and>
         preparedHTML U X I bc d data st = (Inr html, st') \<and>
         renderMsg M html h (sd_attachments data) (bc_now bc) = Some msg \<and>
         signMessage M (sd_domain data) (sd_dkim_private data) msg = Inr (en_body env) \<and>
         h ''Message-ID'' = Some [en_email_id env] \<and>
         h ''To'' = Some (if hdr_to (sd_headers data) = [] then [dl_email d] else hdr_to (sd_headers data)) \<and>
         (let u = resolveUnsubscribeURL X (sd_unsubscribe data) (bc_url bc) in
            h headerListUnsubscribe = (if u \<noteq> [] then Some [''<'' @ u @ ''>''] else None) \<and>
            h headerListUnsubscribePost = (if u \<noteq> [] then Some [''List-Unsubscribe=One-Click''] else None)) \<and>
         (opens (dl_tracking d) = ModeOff \<and> links (dl_tracking d) = ModeOff \<longrightarrow>
            st' = st \<and> html = stripNoTrackAttrs (ReplaceCustomFields X (sd_html data) (bc_html bc)))))"
proof (cases "source (dl_batch d)")
  case None
  then have "r = Inl NoSendingData" "st' = st" using assms by (simp_all add: Build_def)
  then show ?thesis by simp
next
  case (Some data)
  show ?thesis
  proof (cases r)
    case (Inl e)
    then show ?thesis using Some by simp
  next
    case (Inr env)
    let ?h = "headers_for X bc d data"
    obtain html msg where html: "preparedHTML U X I bc d data st = (Inr html, st')"
        "renderMsg M html ?h (sd_attachments data) (bc_now bc) = Some msg"
      and msg: "signMessage M (sd_domain data) (sd_dkim_private data) msg = Inr (en_body env)"
      and env: "env = \<lparr>en_email_id = buildEmailID (dl_email d) (sd_message_id data), en_from = sd_sender_email data,
         en_to = dl_email d, en_return_path = buildReturnPath (dl_email d) (sd_message_id data),
         en_body = en_body env, en_should_retry = CanRetry d\<rparr>"
      using Build_steps [OF assms [unfolded Inr]] unfolding Some by blast
    have off: "st' = st \<and> html = stripNoTrackAttrs (ReplaceCustomFields X (sd_html data) (bc_html bc))"
      if "opens (dl_tracking d) = ModeOff \<and> links (dl_tracking d) = ModeOff"
    proof -
      have "ModeOff \<noteq> ModePseudonymous" by (simp add: mode_defs)
      then show ?thesis using html(1) that by (simp add: preparedHTML_def newTrackingIdentity_def Let_def)
    qed
    have id: "en_email_id env = buildEmailID (dl_email d) (sd_message_id data)" by (subst env) simp
    have fields: "en_to env = dl_email d" "en_from env = sd_sender_email data"
      "en_return_path env = buildReturnPath (dl_email d) (sd_message_id data)" "en_should_retry env = CanRetry d"
      by (subst env, simp)+
    show ?thesis
      unfolding Inr sum.case
      by (rule exI [of _ data], rule exI [of _ html], rule exI [of _ ?h], rule exI [of _ msg])
        (use html(2) in \<open>simp add: Some fields id html(1) msg off headers_for_def buildHeaders_unsubscribe buildHeaders_address Let_def\<close>)
  qed
qed

text \<open>
  C27. The unsubscribe header is exact.  For an endpoint whose braces all belong to placeholders and fields
  named by plain characters, in whatever order the map of fields is ranged over: the header is emitted
  exactly when an endpoint is stated and each of its placeholders names a field of the Recipient or the
  default field holding the address, and then it holds the endpoint with every value percent-encoded.
\<close>

theorem unsubscribe_exact:
  assumes "list_all segment_ok gs" and "iterates fs (EffectiveFields email f)"
    and "\<forall>k \<in> dom (EffectiveFields email f). simple_key k"
  shows "resolveUnsubscribeURL X (unparse gs) fs =
     (if \<exists>a k b. Hole a k b \<in> set gs \<and> k \<noteq> ''email'' \<and> (case f of None \<Rightarrow> True | Some m \<Rightarrow> m k = None) then []
      else unparse (map (fill (map_option QueryEscape \<circ> EffectiveFields email f)) gs))"
proof -
  have missing: "EffectiveFields email f k = None \<longleftrightarrow> k \<noteq> ''email'' \<and> (case f of None \<Rightarrow> True | Some m \<Rightarrow> m k = None)" for k
    by (auto simp: EffectiveFields_def map_add_def split: option.splits)
  have un: "HasUnresolvedPlaceholders (ReplaceCustomFieldsInURL X (unparse gs) fs) \<longleftrightarrow>
      (\<exists>a k b. Hole a k b \<in> set gs \<and> EffectiveFields email f k = None)"
    using unresolved_unparse [OF filled_url(2) [OF assms]] filled_url(1) [OF assms, where X = X]
    by (simp only: hole_filled mapped_ran)
  have empty: "unparse gs = [] \<Longrightarrow> (\<exists>a k b. Hole a k b \<in> set gs) = False"
    by (auto simp: unparse_def)
  have "unparse gs = [] \<Longrightarrow> unparse (map (fill m) gs) = []" for m
  proof -
    assume "unparse gs = []"
    then have "\<forall>g \<in> set gs. unparse1 g = []" by (simp add: unparse_def)
    then have "\<forall>g \<in> set gs. unparse1 (fill m g) = []"
    proof (intro ballI)
      fix g assume "\<forall>g \<in> set gs. unparse1 g = []" "g \<in> set gs"
      then show "unparse1 (fill m g) = []" by (cases g) auto
    qed
    then show "unparse (map (fill m) gs) = []" by (simp add: unparse_def)
  qed
  then show ?thesis
    using un empty filled_url(1) [OF assms, where X = X]
    unfolding resolveUnsubscribeURL_def missing ocu_is_zero_def by (auto simp: Let_def)
qed

section \<open>A Batch of two Deliveries\<close>

definition example_data :: SendingData where
  "example_data =
     \<lparr>sd_subject = ''Hi {{name}}'', sd_html = ''<body><a href='' @ q @ ''https://x.org'' @ q @ ''>Hi</a></body>'',
      sd_domain = ''k.dev'', sd_message_id = ''msg_c1@k.dev'', sd_sender_email = ''n@k.dev'', sd_sender_alias = ''N'',
      sd_dkim_private = ''key'', sd_attachments = Some Map.empty, sd_headers = \<lparr>hdr_to = [], hdr_cc = []\<rparr>,
      sd_unsubscribe = ''https://u.org/?m={{email}}''\<rparr>"

definition anonymous_to :: "string \<Rightarrow> Delivery" where
  "anonymous_to email =
     \<lparr>dl_batch = ''msg_c1@k.dev'', dl_email = email, dl_fields = Some [''name'' \<mapsto> ''R''], dl_attempts = 0,
      dl_domain = ''k.dev'', dl_scheduled = 0, dl_original = 0, dl_backoff = (\<lambda>n. minute), dl_window = hour,
      dl_tracking = \<lparr>opens = ModeAnonymous, links = ModeAnonymous\<rparr>\<rparr>"

definition example_build :: "string \<Rightarrow> build_call" where
  "example_build email =
     (let fs = [(''email'', email), (''name'', ''R'')] in
      \<lparr>bc_html = fs, bc_subject = fs, bc_url = fs, bc_random = None, bc_now = 0\<rparr>)"

text \<open>Mail libraries that always succeed, and a signer that signs anything.\<close>

definition plain_mail :: mail_lib where
  "plain_mail = \<lparr>ml_write = (\<lambda>html h atts now. Some html), ml_sign = (\<lambda>sd msg. Some msg)\<rparr>"

definition any_signer :: "(unit, unit) jwt_lib" where
  "any_signer = example_jwt\<lparr>sign_token := (\<lambda>k h j. Some ''tok'')\<rparr>"

definition example_start :: "service_state build_state" where
  "example_start = (newSharedTokens, ([], (\<lambda>n. example_call)))"

definition example_source :: "batch_id \<Rightarrow> SendingData option" where
  "example_source b = (if b = ''msg_c1@k.dev'' then Some example_data else None)"

abbreviation example_prepared where
  "example_prepared email \<equiv> preparedHTML no_unicode ascii_regexp (service_issuer no_unicode any_signer)
     (example_build email) (anonymous_to email) example_data"

lemma batch_uniform_witness:
  "\<exists>html c. fst (example_prepared ''a@x.org'' example_start) = Inr html \<and> \<not> contains ''a@x.org'' html \<and>
     example_prepared ''b@y.org'' (snd (example_prepared ''a@x.org'' example_start)) =
       (Inr html, (c, snd (snd (example_prepared ''a@x.org'' example_start))))"
proof -
  let ?html = "''<body><a href='' @ q @ ''https://stats.k.dev/c/tok'' @ q @ ''>Hi</a>'' @ pixel ''https://stats.k.dev/o/tok'' @ ''</body>''"
  have p: "nobody_told_apart (dl_tracking (anonymous_to ''a@x.org''))" "dl_tracking (anonymous_to ''b@y.org'') = dl_tracking (anonymous_to ''a@x.org'')"
    by (simp_all add: nobody_told_apart_def anonymous_to_def IsolatesRecipient_iff)
  have r: "ReplaceCustomFields ascii_regexp (sd_html example_data) (bc_html (example_build ''b@y.org'')) =
      ReplaceCustomFields ascii_regexp (sd_html example_data) (bc_html (example_build ''a@x.org''))" by code_simp
  have n: "length (tracked_links no_unicode (ReplaceCustomFields ascii_regexp (sd_html example_data) (bc_html (example_build ''a@x.org'')))) \<le> 1023"
    by code_simp
  have f: "fst (example_prepared ''a@x.org'' example_start) = Inr ?html" by code_simp
  have c: "\<not> contains ''a@x.org'' ?html" by code_simp
  have "example_prepared ''a@x.org'' example_start = (Inr ?html, snd (example_prepared ''a@x.org'' example_start))"
    using f by (metis prod.collapse)
  with batch_uniform [OF p r n, where L = any_signer and st = example_start] c f show ?thesis by blast
qed

lemma Build_envelope_witness:
  "\<exists>env st'. Build no_unicode ascii_regexp plain_mail (service_issuer no_unicode any_signer) example_source
      (example_build ''a@x.org'') (anonymous_to ''a@x.org'') example_start = (Inr env, st') \<and>
     en_to env = ''a@x.org'' \<and> en_should_retry env"
proof -
  obtain r st' where b: "Build no_unicode ascii_regexp plain_mail (service_issuer no_unicode any_signer) example_source
      (example_build ''a@x.org'') (anonymous_to ''a@x.org'') example_start = (r, st')" by (metis surj_pair)
  have "is_ok (fst (Build no_unicode ascii_regexp plain_mail (service_issuer no_unicode any_signer) example_source
      (example_build ''a@x.org'') (anonymous_to ''a@x.org'') example_start))" by code_simp
  then obtain env where r: "r = Inr env" using b by (cases r) (simp_all add: is_ok_def)
  have "CanRetry (anonymous_to ''a@x.org'')" by code_simp
  moreover have "dl_email (anonymous_to ''a@x.org'') = ''a@x.org''" by (simp add: anonymous_to_def)
  ultimately have "en_to env = ''a@x.org'' \<and> en_should_retry env"
    using Build_envelope [OF b] unfolding r sum.case by (elim exE conjE) simp
  with b show ?thesis unfolding r
    by - (rule exI [where x = env], rule exI [where x = st'], rule conjI)
qed

lemma unsubscribe_exact_witness:
  "resolveUnsubscribeURL ascii_regexp ''https://u.org/?m={{email}}'' [(''email'', ''a@x.org''), (''name'', ''R'')] =
     ''https://u.org/?m=a%40x.org''"
proof -
  let ?gs = "[Text ''https://u.org/?m='', Hole 0 ''email'' 0]" and ?m = "EffectiveFields ''a@x.org'' (Some [''name'' \<mapsto> ''R''])"
  have g: "list_all segment_ok ?gs" by code_simp
  have m: "?m = [''email'' \<mapsto> ''a@x.org'', ''name'' \<mapsto> ''R'']" by (auto simp: EffectiveFields_def map_add_def)
  have i: "iterates [(''email'', ''a@x.org''), (''name'', ''R'')] ?m" unfolding m by (auto simp: iterates_def)
  have "simple_key ''email''" "simple_key ''name''" by code_simp+
  then have k: "\<forall>k \<in> dom ?m. simple_key k" unfolding m by simp
  have u: "unparse ?gs = ''https://u.org/?m={{email}}''" by code_simp
  have v: "unparse (map (fill (map_option QueryEscape \<circ> ?m)) ?gs) = ''https://u.org/?m=a%40x.org''"
    unfolding m by code_simp
  show ?thesis using unsubscribe_exact [OF g i k, of ascii_regexp] unfolding u v by simp
qed

end
