(* ===== verification/Journey.thy ===== *)
theory Journey
  imports Intake Envelope
begin

text \<open>
  From a request to the Envelope, across the components that carry it: what \<open>scheduleBatch\<close>
  (\<open>pkg/api/mailapi/mailer.go\<close>) stores in \<open>messages\<close> and \<open>sending_pool_emails\<close>, what the Builder
  (\<open>internal/envelope/builder.go\<close>) reads back of it, and what it makes of that.
\<close>

section \<open>What intake leaves for the Builder\<close>

lemma scheduleBatch_message:
  assumes "scheduleBatch s c domain b rs t db = (Inr taken, db')"
  shows "md_messages db' (b_id b) = Some (batch_row b)"
proof -
  have "m_id (batch_row b) = b_id b" by (simp add: batch_row_def)
  then show ?thesis
    using assms by (auto simp: scheduleBatch_def batch_create_def Let_def split: if_splits sum.splits prod.splits)
qed

lemma scheduleBatch_rows:
  assumes "scheduleBatch s c domain b rs t db = (Inr taken, db')" and "w \<in> set (rows (md_pool db')) - set (rows (md_pool db))"
  shows "\<exists>j d. d \<in> set (in_deliveries taken) \<and> w = insert_row j (pool_params d)"
proof -
  have "rows (md_pool db') = rows (md_pool db) \<or>
      (\<exists>x p'. Schedule (sc_pool_ok c) (in_deliveries taken) (md_pool db) = (x, p') \<and> md_pool db' = p')"
    using assms(1) by (auto simp: scheduleBatch_def Let_def split: sum.splits if_splits prod.splits)
  then show ?thesis using assms(2) by (auto dest: scheduled_rows)
qed

lemma new_row:
  assumes "NewBatch U up cuid p = Inr b" and "scheduleBatch s c domain b rs t db = (Inr taken, db')"
    and "w \<in> set (rows (md_pool db')) - set (rows (md_pool db))"
  shows "\<exists>fs r. (fs, r) \<in> set (ranged c 0 rs) \<and> refusal s domain b fs r = None \<and> row_message w = b_id b \<and>
     row_email w = rcp_email (st_recipient r) \<and> row_fields w = toCustomFields (rcp_fields (st_recipient r))"
proof -
  have b: "b_id b \<noteq> []" "b_domain b \<noteq> []" using NewBatch_fields [OF assms(1)] by auto
  have "taken = intake_loop s c domain b t 0 rs \<lparr>in_deliveries = [], in_rejected = []\<rparr>"
    using assms(2) by (auto simp: scheduleBatch_def Let_def split: prod.splits sum.splits if_splits)
  then have taken: "in_deliveries taken = accepted s domain b t (ranged c 0 rs)" by (simp add: intake_loop_eq [OF b])
  obtain j d where d: "d \<in> set (in_deliveries taken)" "w = insert_row j (pool_params d)"
    using scheduleBatch_rows [OF assms(2,3)] by blast
  then obtain fs r where "(fs, r) \<in> set (ranged c 0 rs)" "refusal s domain b fs r = None" "d = queued s domain b t (st_recipient r)"
    by (auto simp: taken accepted_def)
  then show ?thesis using d(2) by (auto simp: insert_row_def pool_params_def queued_def)
qed

lemma EffectiveFields_nil [simp]: "EffectiveFields e (toCustomFields f) = EffectiveFields e f"
  by (auto simp: EffectiveFields_def toCustomFields_def split: option.splits)

text \<open>A row of the pool is at any later time the same Delivery: its attempts, status and times may have changed.\<close>

definition same_delivery :: "pool_row \<Rightarrow> pool_row \<Rightarrow> bool" where
  "same_delivery w w' \<longleftrightarrow>
     row_message w' = row_message w \<and> row_email w' = row_email w \<and> row_fields w' = row_fields w \<and>
     row_domain w' = row_domain w \<and> row_tracking w' = row_tracking w"

lemma GetSendingData_row:
  assumes "GetSendingData ms templates domains i = Some data" and "ms i = Some (batch_row b)"
  shows "sd_unsubscribe data = b_unsubscribe b \<and> sd_message_id data = b_id b \<and> sd_domain data = b_domain b \<and>
     sd_sender_email data = sender_email (b_sender b) \<and> sd_headers data = b_headers b"
proof -
  have "unsubscribeFromRow (toSQLCHeaders (b_headers b) (b_unsubscribe b)) = b_unsubscribe b"
    by (simp add: unsubscribeFromRow_def toSQLCHeaders_def ocu_is_zero_def)
  moreover have "\<lparr>hdr_to = sh_to (toSQLCHeaders (b_headers b) u), hdr_cc = sh_cc (toSQLCHeaders (b_headers b) u)\<rparr> = b_headers b" for u
    by (simp add: toSQLCHeaders_def)
  ultimately show ?thesis
    using assms by (auto simp: GetSendingData_def sqlGetSendingData_def Let_def batch_row_def split: option.splits)
qed

text \<open>A Recipient that was queued resolves every placeholder of the endpoint.\<close>

lemma queued_resolves:
  assumes g: "list_all segment_ok gs" and b: "b_unsubscribe b = unparse gs" "b_unsubscribe b \<noteq> []"
    and "refusal s domain b fs r = None"
    and m: "iterates fs (EffectiveFields e f)" "\<forall>k \<in> dom (EffectiveFields e f). simple_key k"
  shows "\<nexists>x k y. Hole x k y \<in> set gs \<and> EffectiveFields e f k = None"
proof -
  have "\<not> HasUnresolvedPlaceholders (ReplaceCustomFieldsInURL (ms_regexp s) (unparse gs) fs)"
    using assms(4) b by (auto simp: refusal_def split: if_splits)
  then show ?thesis
    using unresolved_unparse [OF filled_url(2) [OF g m]] filled_url(1) [OF g m, where X = "ms_regexp s"]
    by (simp only: hole_filled mapped_ran) blast
qed

text \<open>
  C12. A promise made at intake is kept in the Envelope.  Take a Batch that states a one-click unsubscribe
  endpoint, its braces all belonging to placeholders and some text between them, and a Delivery its intake
  queued, at any later point of its way, with fields named by plain characters.  However the two ranged over
  those fields, an Envelope built of it goes to the Recipient's address from the Sender of the Batch, and the
  message that was signed into its body advertises one-click unsubscribe with both headers, at the endpoint
  with every placeholder replaced by the Recipient's percent-encoded value.
\<close>

theorem intake_to_envelope:
  assumes "NewBatch U up cuid p = Inr b" and sched: "scheduleBatch s c domain b rs t db = (Inr taken, db')"
    and gs: "np_unsubscribe p = unparse gs" "list_all segment_ok gs" "Text v \<in> set gs" "v \<noteq> []"
    and w: "w \<in> set (rows (md_pool db')) - set (rows (md_pool db))" "same_delivery w w'"
    and names: "\<forall>k \<in> dom (EffectiveFields (row_email w) (row_fields w)). simple_key k"
    and ranges: "\<forall>(fs, r)\<in>set (ranged c 0 rs). iterates fs (EffectiveFields (rcp_email (st_recipient r)) (rcp_fields (st_recipient r)))"
    and data: "source (b_id b) = GetSendingData (md_messages db') templates domains (b_id b)"
    and bc: "iterates (bc_url bc) (EffectiveFields (row_email w) (row_fields w))"
    and built: "Build U' X M I source bc (rowToDelivery rp w') st = (Inr env, st')"
  shows "en_to env = row_email w \<and> en_from env = sender_email (np_sender p) \<and>
     (\<exists>html hdrs atts msg key.
        renderMsg M html hdrs atts (bc_now bc) = Some msg \<and> signMessage M (np_domain p) key msg = Inr (en_body env) \<and>
        hdrs headerListUnsubscribe =
          Some [''<'' @ unparse (map (fill (map_option QueryEscape \<circ> EffectiveFields (row_email w) (row_fields w))) gs) @ ''>''] \<and>
        hdrs headerListUnsubscribePost = Some [''List-Unsubscribe=One-Click''])"
proof -
  let ?m = "EffectiveFields (row_email w) (row_fields w)"
  let ?url = "unparse (map (fill (map_option QueryEscape \<circ> ?m)) gs)"
  have b: "b_id b \<noteq> []" "b_domain b = np_domain p" "b_domain b \<noteq> []" "b_sender b = np_sender p" "b_unsubscribe b = unparse gs"
    using NewBatch_fields [OF assms(1)] gs(1) by auto
  have lit: "unparse (map (fill m) gs) \<noteq> []" "unparse gs \<noteq> []" for m
    using gs(3,4) by (force simp: unparse_def)+
  obtain fs r where r: "(fs, r) \<in> set (ranged c 0 rs)" "refusal s domain b fs r = None"
    and row: "row_email w = rcp_email (st_recipient r)" "row_message w = b_id b" "row_fields w = toCustomFields (rcp_fields (st_recipient r))"
    using new_row [OF assms(1) sched w(1)] by blast
  have m: "?m = EffectiveFields (rcp_email (st_recipient r)) (rcp_fields (st_recipient r))" by (simp add: row)
  have it: "iterates fs ?m" using ranges r(1) unfolding m by blast
  have none: "\<nexists>x k y. Hole x k y \<in> set gs \<and> ?m k = None"
    by (rule queued_resolves [OF gs(2) b(5) _ r(2) it names]) (simp add: b(5) lit)
  have resolved: "resolveUnsubscribeURL X (unparse gs) (bc_url bc) = ?url"
    using unresolved_unparse [OF filled_url(2) [OF gs(2) bc names]] filled_url(1) [OF gs(2) bc names, where X = X] none lit(2)
    unfolding hole_filled mapped_ran resolveUnsubscribeURL_def ocu_is_zero_def Let_def by metis
  have dl: "dl_batch (rowToDelivery rp w') = b_id b" "dl_email (rowToDelivery rp w') = row_email w"
    using w(2) row(2) by (simp_all add: rowToDelivery_def LoadDelivery_def same_delivery_def)
  obtain sd html msg where e: "source (b_id b) = Some sd"
      "renderMsg M html (headers_for X bc (rowToDelivery rp w') sd) (sd_attachments sd) (bc_now bc) = Some msg"
      "signMessage M (sd_domain sd) (sd_dkim_private sd) msg = Inr (en_body env)"
    and env: "env = \<lparr>en_email_id = buildEmailID (row_email w) (sd_message_id sd), en_from = sd_sender_email sd,
         en_to = row_email w, en_return_path = buildReturnPath (row_email w) (sd_message_id sd),
         en_body = en_body env, en_should_retry = CanRetry (rowToDelivery rp w')\<rparr>"
    using Build_steps [OF built] unfolding dl by blast
  have to: "en_to env = row_email w" "en_from env = sd_sender_email sd" by (subst env, simp)+
  have sd: "sd_unsubscribe sd = unparse gs" "sd_domain sd = np_domain p" "sd_sender_email sd = sender_email (np_sender p)"
    using GetSendingData_row [where ms = "md_messages db'" and i = "b_id b" and b = b and data = sd]
      scheduleBatch_message [OF sched] e(1) data b by auto
  have "headers_for X bc (rowToDelivery rp w') sd headerListUnsubscribe = Some [''<'' @ ?url @ ''>''] \<and>
      headers_for X bc (rowToDelivery rp w') sd headerListUnsubscribePost = Some [''List-Unsubscribe=One-Click'']"
    using resolved lit(1) by (simp add: headers_for_def sd(1) buildHeaders_unsubscribe)
  then show ?thesis using e(2,3) to unfolding sd(2,3) by blast
qed

section \<open>A sample way\<close>

definition endpoint_params :: BatchParams where
  "endpoint_params = example_params\<lparr>np_unsubscribe := ''https://u.org/?m={{email}}''\<rparr>"

definition endpoint_batch :: Batch where
  "endpoint_batch = example_batch\<lparr>b_unsubscribe := ''https://u.org/?m={{email}}''\<rparr>"

definition endpoint_sent :: "(send_error + intake) \<times> mail_db" where
  "endpoint_sent =
     scheduleBatch example_service example_send example_domain endpoint_batch (recipientsFromRequest [example_rcpt ''a@x.org''])
       100 example_mail_db"

definition endpoint_row :: pool_row where
  "endpoint_row = hd (rows (md_pool (snd endpoint_sent)))"

definition endpoint_source :: "batch_id \<Rightarrow> SendingData option" where
  "endpoint_source =
     GetSendingData (md_messages (snd endpoint_sent)) [''t1'' \<mapsto> ''<p>''] [''k.dev'' \<mapsto> ''key'']"

definition endpoint_call :: build_call where
  "endpoint_call =
     (let fs = [(''email'', ''a@x.org'')] in \<lparr>bc_html = fs, bc_subject = fs, bc_url = fs, bc_random = None, bc_now = 200\<rparr>)"

abbreviation endpoint_built where
  "endpoint_built \<equiv> Build no_unicode ascii_regexp plain_mail (service_issuer no_unicode any_signer) endpoint_source endpoint_call
     (rowToDelivery example_repo (endpoint_row\<lparr>row_attempts := 2\<rparr>)) example_start"

lemma intake_to_envelope_witness:
  "\<exists>env st' html hdrs atts msg. endpoint_built = (Inr env, st') \<and> en_to env = ''a@x.org'' \<and>
     renderMsg plain_mail html hdrs atts 200 = Some msg \<and>
     hdrs headerListUnsubscribe = Some [''<https://u.org/?m=a%40x.org>'']"
proof -
  let ?gs = "[Text ''https://u.org/?m='', Hole 0 ''email'' 0]" and ?rs = "recipientsFromRequest [example_rcpt ''a@x.org'']"
  have fold: "equal_fold no_unicode ''https'' ''https''" by code_simp
  have nb: "NewBatch no_unicode (\<lambda>_. Some (''https'', ''u.org'')) ''c'' endpoint_params = Inr endpoint_batch"
    by (simp add: NewBatch_def endpoint_params_def endpoint_batch_def example_params_def example_batch_def ocu_validate_def
        ocu_is_zero_def NewID_def IDPrefix_def fold)
  obtain x db' where s: "endpoint_sent = (x, db')" by (metis surj_pair)
  have "is_ok (fst endpoint_sent)" by code_simp
  then obtain taken where x: "x = Inr taken" by (auto simp: s is_ok_iff)
  have sched: "scheduleBatch example_service example_send example_domain endpoint_batch ?rs 100 example_mail_db = (Inr taken, db')"
    using s unfolding endpoint_sent_def x .
  have gs: "np_unsubscribe endpoint_params = unparse ?gs" "list_all segment_ok ?gs" by code_simp+
  have gs': "Text ''https://u.org/?m='' \<in> set ?gs" "''https://u.org/?m='' \<noteq> []" by simp_all
  have "length (rows (md_pool (snd endpoint_sent))) = 1" by code_simp
  then have "endpoint_row \<in> set (rows (md_pool (snd endpoint_sent)))"
    unfolding endpoint_row_def by (metis One_nat_def hd_in_set list.size(3) n_not_Suc_n)
  moreover have "rows (md_pool example_mail_db) = []" by (simp add: example_mail_db_def)
  ultimately have row: "endpoint_row \<in> set (rows (md_pool db')) - set (rows (md_pool example_mail_db))" by (simp add: s)
  have row': "same_delivery endpoint_row (endpoint_row\<lparr>row_attempts := 2\<rparr>)" by (simp add: same_delivery_def)
  have e: "row_email endpoint_row = ''a@x.org''" by code_simp
  have "row_fields endpoint_row = Some Map.empty"
    using new_row [OF nb sched row] by (auto simp: recipientsFromRequest_def recipientFromRequest_def example_rcpt_def toCustomFields_def Let_def split: sum.splits)
  then have m: "EffectiveFields (row_email endpoint_row) (row_fields endpoint_row) = [''email'' \<mapsto> ''a@x.org'']"
    by (simp add: EffectiveFields_def e)
  have "simple_key ''email''" by code_simp
  then have names: "\<forall>k \<in> dom (EffectiveFields (row_email endpoint_row) (row_fields endpoint_row)). simple_key k"
    unfolding m by simp
  have ranges: "\<forall>(fs, r)\<in>set (ranged example_send 0 ?rs).
      iterates fs (EffectiveFields (rcp_email (st_recipient r)) (rcp_fields (st_recipient r)))"
    by (simp add: recipientsFromRequest_def recipientFromRequest_def example_rcpt_def example_send_def example_range_def
        EffectiveFields_def iterates_def Let_def split: sum.splits)
  obtain y st' where b: "endpoint_built = (y, st')" by (metis surj_pair)
  have "is_ok (fst endpoint_built)" by code_simp
  then obtain env where y: "y = Inr env" by (auto simp: b is_ok_iff)
  have bc: "iterates (bc_url endpoint_call) (EffectiveFields (row_email endpoint_row) (row_fields endpoint_row))"
    unfolding m by (simp add: endpoint_call_def iterates_def Let_def)
  have v: "unparse (map (fill (map_option QueryEscape \<circ> [''email'' \<mapsto> ''a@x.org''])) ?gs) = ''https://u.org/?m=a%40x.org''"
    by code_simp
  have now: "bc_now endpoint_call = 200" by code_simp
  have src: "endpoint_source (b_id endpoint_batch) =
      GetSendingData (md_messages db') [''t1'' \<mapsto> ''<p>''] [''k.dev'' \<mapsto> ''key''] (b_id endpoint_batch)"
    by (simp add: endpoint_source_def s)
  have "en_to env = ''a@x.org'' \<and> (\<exists>html hdrs atts msg. renderMsg plain_mail html hdrs atts 200 = Some msg \<and>
      hdrs headerListUnsubscribe = Some [''<'' @ ''https://u.org/?m=a%40x.org'' @ ''>''])"
    using intake_to_envelope [OF nb sched gs gs' row row' names ranges src bc b [unfolded y], unfolded m, unfolded v now e] by blast
  then obtain html hdrs atts msg where r: "en_to env = ''a@x.org''" "renderMsg plain_mail html hdrs atts 200 = Some msg"
      "hdrs headerListUnsubscribe = Some [''<https://u.org/?m=a%40x.org>'']" by auto
  show ?thesis
    by (rule exI [of _ env], rule exI [of _ st'], rule exI [of _ html], rule exI [of _ hdrs], rule exI [of _ atts],
        rule exI [of _ msg], intro conjI) (fact b [unfolded y] r)+
qed

end
