(* ===== verification/AuditRegister.thy ===== *)
theory AuditRegister
  imports Authz Stream DeliveryStore
begin

text \<open>
  The register of authorization decisions: \<open>internal/audit\<close> (the record, its wire form, the Recorder, the
  in-memory repository), \<open>internal/db/audit_repo.go\<close> with its statements, and the worker \<open>pkg/audit\<close>.
  JSON is modelled by its values; the text of a value and of an instant, as \<open>encoding/json\<close> and \<open>time\<close>
  write them, are the record \<open>json_lib\<close>.
\<close>

section \<open>The record\<close>

definition idPrefix :: string where "idPrefix = ''audit''"

text \<open>Action and Outcome are strings until a record is validated.\<close>

record Details =
  dt_attribution :: Attribution
  dt_grants :: "string list"
  dt_reason :: string

record AuditRecord =
  ar_id :: string
  ar_at :: go_time
  ar_action :: string
  ar_outcome :: string
  ar_principal :: string
  ar_resource :: "string list"
  ar_details :: Details

definition zero_time :: go_time where "zero_time = - 62135596800 * 1000000000"

fun outcome_string :: "Outcome \<Rightarrow> string" where
  "outcome_string Allowed = ''allowed''"
| "outcome_string Denied = ''denied''"
| "outcome_string NoPrincipal = ''no-principal''"

definition grantsOf :: "Principal \<Rightarrow> string list" where
  "grantsOf p = map grant_string (p_grants p)"

definition NewRecord :: "string \<Rightarrow> Decision \<Rightarrow> AuditRecord" where
  "NewRecord cuid d =
     \<lparr>ar_id = idPrefix @ ''_'' @ cuid, ar_at = d_at d, ar_action = action_string (d_action d),
      ar_outcome = outcome_string (d_outcome d), ar_principal = p_id (d_principal d),
      ar_resource = r_segments (d_resource d),
      ar_details = \<lparr>dt_attribution = p_attribution (d_principal d), dt_grants = grantsOf (d_principal d),
                    dt_reason = d_reason d\<rparr>\<rparr>"

datatype record_error =
  NoId | NoInstant | UnknownAction string | UnknownOutcome string | NoResource "string list" | WrongPrincipal string string

definition validate :: "AuditRecord \<Rightarrow> record_error + unit" where
  "validate r =
     (if ar_id r = [] then Inl NoId
      else if ar_at r = zero_time then Inl NoInstant
      else if ParseAction (ar_action r) = None then Inl (UnknownAction (ar_action r))
      else if ParseOutcome (ar_outcome r) = None then Inl (UnknownOutcome (ar_outcome r))
      else if ar_resource r = [] \<or> [] \<in> set (ar_resource r) then Inl (NoResource (ar_resource r))
      else if (ar_principal r = []) \<noteq> (ar_outcome r = ''no-principal'') then Inl (WrongPrincipal (ar_principal r) (ar_outcome r))
      else Inr ())"

section \<open>The wire form\<close>

datatype json = JNull | JBool bool | JNum string | JStr string | JArr "json list" | JObj "(string \<times> json) list"

text \<open>A byte that is no UTF-8 is written as the replacement character.\<close>

function utf8_coerce :: "string \<Rightarrow> string" where
  "utf8_coerce s =
     (if s = [] then []
      else (case decode_rune s of (r, w, ok) \<Rightarrow>
        (if ok then take w s else [CHR 0xEF, CHR 0xBF, CHR 0xBD]) @ utf8_coerce (drop w s)))"
  by auto
termination
  by (relation "measure length") (auto simp: decode_rune_def Let_def split: if_splits)

declare utf8_coerce.simps [simp del]

fun json_coerce :: "json \<Rightarrow> json" where
  "json_coerce (JStr s) = JStr (utf8_coerce s)"
| "json_coerce (JArr js) = JArr (map json_coerce js)"
| "json_coerce (JObj es) = JObj (map (\<lambda>(k, j). (utf8_coerce k, json_coerce j)) es)"
| "json_coerce j = j"

record 'b json_lib =
  js_time :: "go_time \<Rightarrow> string option"
  js_read_time :: "string \<Rightarrow> go_time option"
  js_text :: "json \<Rightarrow> 'b"
  js_read :: "'b \<Rightarrow> json option"

definition json_ok :: "'b json_lib \<Rightarrow> bool" where
  "json_ok L \<longleftrightarrow>
     (\<forall>t s. js_time L t = Some s \<longrightarrow> js_read_time L s = Some t \<and> valid_string s) \<and>
     (\<forall>j. js_read L (js_text L j) = Some (json_coerce j))"

text \<open>\<open>omitempty\<close> leaves an empty field out; a nil slice is \<open>null\<close>.\<close>

definition omitempty :: "bool \<Rightarrow> string \<Rightarrow> json \<Rightarrow> (string \<times> json) list" where
  "omitempty blank k j = (if blank then [] else [(k, j)])"

definition json_strings :: "string list \<Rightarrow> json" where
  "json_strings ss = (if ss = [] then JNull else JArr (map JStr ss))"

definition details_json :: "Details \<Rightarrow> json" where
  "details_json d =
     JObj (omitempty (dt_attribution d = []) ''attribution'' (JStr (dt_attribution d)) @
           omitempty (dt_grants d = []) ''grants'' (json_strings (dt_grants d)) @
           omitempty (dt_reason d = []) ''reason'' (JStr (dt_reason d)))"

definition record_json :: "string \<Rightarrow> AuditRecord \<Rightarrow> json" where
  "record_json at r =
     JObj [(''id'', JStr (ar_id r)), (''occurred_at'', JStr at), (''action'', JStr (ar_action r)),
           (''outcome'', JStr (ar_outcome r)), (''principal'', JStr (ar_principal r)),
           (''resource'', json_strings (ar_resource r)), (''data'', details_json (ar_details r))]"

definition Marshal :: "'b json_lib \<Rightarrow> AuditRecord \<Rightarrow> 'b option" where
  "Marshal L r = map_option (\<lambda>at. js_text L (record_json at r)) (js_time L (ar_at r))"

text \<open>
  Decoding into a struct: entries in the order of the text, a key matched without regard to case, \<open>null\<close>
  leaving a field alone, a value of another type an error, an unknown key skipped.
\<close>

definition is_key :: "unicode \<Rightarrow> string \<Rightarrow> string \<Rightarrow> bool" where
  "is_key U n k \<longleftrightarrow> k = n \<or> equal_fold U k n"

fun decode_str :: "json \<Rightarrow> string \<Rightarrow> string option" where
  "decode_str (JStr s) old = Some s"
| "decode_str JNull old = Some old"
| "decode_str _ old = None"

fun decode_elems :: "json list \<Rightarrow> string list \<Rightarrow> string list option" where
  "decode_elems [] old = Some []"
| "decode_elems (j # js) old =
     (case (decode_str j (case old of [] \<Rightarrow> [] | o1 # _ \<Rightarrow> o1), decode_elems js (tl old)) of
        (Some s, Some ss) \<Rightarrow> Some (s # ss)
      | _ \<Rightarrow> None)"

fun decode_strs :: "json \<Rightarrow> string list \<Rightarrow> string list option" where
  "decode_strs (JArr js) old = decode_elems js old"
| "decode_strs JNull old = Some []"
| "decode_strs _ old = None"

fun decode_time :: "'b json_lib \<Rightarrow> json \<Rightarrow> go_time \<Rightarrow> go_time option" where
  "decode_time L (JStr s) old = js_read_time L s"
| "decode_time L JNull old = Some old"
| "decode_time L _ old = None"

fun decode_detail_entries :: "unicode \<Rightarrow> (string \<times> json) list \<Rightarrow> Details \<Rightarrow> Details option" where
  "decode_detail_entries U [] d = Some d"
| "decode_detail_entries U ((k, j) # es) d =
     (case (if is_key U ''attribution'' k then map_option (\<lambda>x. d\<lparr>dt_attribution := x\<rparr>) (decode_str j (dt_attribution d))
            else if is_key U ''grants'' k then map_option (\<lambda>x. d\<lparr>dt_grants := x\<rparr>) (decode_strs j (dt_grants d))
            else if is_key U ''reason'' k then map_option (\<lambda>x. d\<lparr>dt_reason := x\<rparr>) (decode_str j (dt_reason d))
            else Some d) of
        None \<Rightarrow> None
      | Some d' \<Rightarrow> decode_detail_entries U es d')"

fun decode_details :: "unicode \<Rightarrow> json \<Rightarrow> Details \<Rightarrow> Details option" where
  "decode_details U (JObj es) old = decode_detail_entries U es old"
| "decode_details U JNull old = Some old"
| "decode_details U _ old = None"

fun decode_entries :: "unicode \<Rightarrow> 'b json_lib \<Rightarrow> (string \<times> json) list \<Rightarrow> AuditRecord \<Rightarrow> AuditRecord option" where
  "decode_entries U L [] r = Some r"
| "decode_entries U L ((k, j) # es) r =
     (case (if is_key U ''id'' k then map_option (\<lambda>x. r\<lparr>ar_id := x\<rparr>) (decode_str j (ar_id r))
            else if is_key U ''occurred_at'' k then map_option (\<lambda>x. r\<lparr>ar_at := x\<rparr>) (decode_time L j (ar_at r))
            else if is_key U ''action'' k then map_option (\<lambda>x. r\<lparr>ar_action := x\<rparr>) (decode_str j (ar_action r))
            else if is_key U ''outcome'' k then map_option (\<lambda>x. r\<lparr>ar_outcome := x\<rparr>) (decode_str j (ar_outcome r))
            else if is_key U ''principal'' k then map_option (\<lambda>x. r\<lparr>ar_principal := x\<rparr>) (decode_str j (ar_principal r))
            else if is_key U ''resource'' k then map_option (\<lambda>x. r\<lparr>ar_resource := x\<rparr>) (decode_strs j (ar_resource r))
            else if is_key U ''data'' k then map_option (\<lambda>x. r\<lparr>ar_details := x\<rparr>) (decode_details U j (ar_details r))
            else Some r) of
        None \<Rightarrow> None
      | Some r' \<Rightarrow> decode_entries U L es r')"

definition zero_record :: AuditRecord where
  "zero_record =
     \<lparr>ar_id = [], ar_at = zero_time, ar_action = [], ar_outcome = [], ar_principal = [], ar_resource = [],
      ar_details = \<lparr>dt_attribution = [], dt_grants = [], dt_reason = []\<rparr>\<rparr>"

datatype unmarshal_error = NotReadable | NotWellFormed record_error

definition Unmarshal :: "unicode \<Rightarrow> 'b json_lib \<Rightarrow> 'b \<Rightarrow> unmarshal_error + AuditRecord" where
  "Unmarshal U L data =
     (case (case js_read L data of
              Some (JObj es) \<Rightarrow> decode_entries U L es zero_record
            | Some JNull \<Rightarrow> Some zero_record
            | _ \<Rightarrow> None) of
        None \<Rightarrow> Inl NotReadable
      | Some r \<Rightarrow> (case validate r of Inl e \<Rightarrow> Inl (NotWellFormed e) | Inr _ \<Rightarrow> Inr r))"

definition subjectPrefix :: string where "subjectPrefix = ''kannon.audit.''"

definition Subject :: "Outcome \<Rightarrow> string" where
  "Subject oc =
     (if oc = Allowed then subjectPrefix @ outcome_string Allowed else subjectPrefix @ outcome_string Denied)"

section \<open>The Recorder\<close>

text \<open>What was published, and what the Recorder it decorates was told; \<open>a\<close> is how the publish turns out.\<close>

definition recorder_Record ::
  "'b json_lib \<Rightarrow> string \<Rightarrow> reply \<Rightarrow> Decision \<Rightarrow> (string \<times> 'b) list \<times> Decision list \<Rightarrow> (string \<times> 'b) list \<times> Decision list" where
  "recorder_Record L cuid a d st =
     (case st of (sent, told) \<Rightarrow>
        (case Marshal L (NewRecord cuid d) of
           None \<Rightarrow> sent
         | Some data \<Rightarrow> snd (remote a () (\<lambda>s. (Inr (), s @ [(Subject (d_outcome d), data)])) sent),
         told @ [d]))"

section \<open>The repositories\<close>

text \<open>\<open>InMemRepository\<close>; a clone of a value is the value.\<close>

definition inmem_Insert :: "AuditRecord \<Rightarrow> AuditRecord list \<Rightarrow> AuditRecord list" where
  "inmem_Insert r records = (if list_ex (\<lambda>stored. ar_id stored = ar_id r) records then records else records @ [r])"

fun inmem_DeleteOlderThan :: "go_time \<Rightarrow> AuditRecord list \<Rightarrow> int \<times> AuditRecord list" where
  "inmem_DeleteOlderThan before [] = (0, [])"
| "inmem_DeleteOlderThan before (r # rs) =
     (case inmem_DeleteOlderThan before rs of (deleted, kept) \<Rightarrow>
        if ar_at r < before then (deleted + 1, kept) else (deleted, r # kept))"

definition inmem_Records :: "string \<Rightarrow> AuditRecord list \<Rightarrow> AuditRecord list" where
  "inmem_Records who records = filter (\<lambda>r. ar_principal r = who) records"

record InsertAuditRecordParams =
  ia_id :: string
  ia_at :: go_time
  ia_principal :: string
  ia_resource :: "string list"
  ia_action :: string
  ia_outcome :: string
  ia_data :: json

type_synonym audit_rows = "InsertAuditRecordParams list" \<comment> \<open>by id\<close>

definition sqlInsertAuditRecord :: "InsertAuditRecordParams \<Rightarrow> audit_rows \<Rightarrow> audit_rows" where
  "sqlInsertAuditRecord p t =
     (if ia_id p \<in> ia_id ` set t then t else t @ [p\<lparr>ia_at := pg_timestamp (ia_at p)\<rparr>])"

definition sqlDeleteAuditRecordsOlderThan :: "go_time \<Rightarrow> audit_rows \<Rightarrow> int \<times> audit_rows" where
  "sqlDeleteAuditRecordsOlderThan before t =
     (let kept = filter (\<lambda>r. \<not> ia_at r < pg_timestamp before) t in (int (length t) - int (length kept), kept))"

definition audit_params :: "AuditRecord \<Rightarrow> InsertAuditRecordParams" where
  "audit_params r =
     \<lparr>ia_id = ar_id r, ia_at = ar_at r, ia_principal = ar_principal r, ia_resource = ar_resource r,
      ia_action = ar_action r, ia_outcome = ar_outcome r, ia_data = details_json (ar_details r)\<rparr>"

definition auditrepo_Insert :: "reply \<Rightarrow> AuditRecord \<Rightarrow> audit_rows \<Rightarrow> (unit + unit) \<times> audit_rows" where
  "auditrepo_Insert a r = remote a () (\<lambda>t. (Inr (), sqlInsertAuditRecord (audit_params r) t))"

definition auditrepo_DeleteOlderThan :: "reply \<Rightarrow> go_time \<Rightarrow> audit_rows \<Rightarrow> (unit + int) \<times> audit_rows" where
  "auditrepo_DeleteOlderThan a before =
     remote a () (\<lambda>t. case sqlDeleteAuditRecordsOlderThan before t of (n, t') \<Rightarrow> (Inr n, t'))"

section \<open>The writer\<close>

definition DefaultRetention :: go_time where "DefaultRetention = 720 * 3600 * 1000000000"

record audit_config =
  cfg_enabled :: bool
  cfg_retention :: go_time

definition audit_setDefaults :: "audit_config \<Rightarrow> audit_config" where
  "audit_setDefaults c = (if cfg_retention c \<le> 0 then c\<lparr>cfg_retention := DefaultRetention\<rparr> else c)"

definition handleRecordMsg :: "unicode \<Rightarrow> 'b json_lib \<Rightarrow> reply \<Rightarrow> 'b \<Rightarrow> audit_rows \<Rightarrow> disposition \<times> audit_rows" where
  "handleRecordMsg U L a data t =
     (case Unmarshal U L data of
        Inl _ \<Rightarrow> (MsgTerm, t)
      | Inr r \<Rightarrow> (case auditrepo_Insert a r t of (Inl _, t') \<Rightarrow> (MsgNak, t') | (Inr _, t') \<Rightarrow> (MsgAck, t')))"

text \<open>A sweep that failed is logged and the loop goes on.\<close>

definition audit_cleanupCycle :: "audit_config \<Rightarrow> go_time \<Rightarrow> reply \<Rightarrow> audit_rows \<Rightarrow> audit_rows" where
  "audit_cleanupCycle c now a t = snd (auditrepo_DeleteOlderThan a (now - cfg_retention c) t)"

text \<open>What the producer's watch finds: \<open>None\<close> where the stream or its state could not be read.\<close>

definition warnOnBacklog :: "(nat \<times> nat) option \<Rightarrow> bool" where
  "warnOnBacklog info = (case info of None \<Rightarrow> False | Some (msgs, consumers) \<Rightarrow> 0 < msgs \<and> consumers = 0)"

datatype 'b writer_event = Deliver reply 'b | Sweep go_time reply

fun writer_step :: "unicode \<Rightarrow> 'b json_lib \<Rightarrow> audit_config \<Rightarrow> 'b writer_event \<Rightarrow> audit_rows \<Rightarrow> disposition option \<times> audit_rows" where
  "writer_step U L c (Deliver a data) t = (case handleRecordMsg U L a data t of (d, t') \<Rightarrow> (Some d, t'))"
| "writer_step U L c (Sweep now a) t = (None, audit_cleanupCycle c now a t)"

fun writer_run :: "unicode \<Rightarrow> 'b json_lib \<Rightarrow> audit_config \<Rightarrow> 'b writer_event list \<Rightarrow> audit_rows \<Rightarrow>
    (disposition option) list \<times> audit_rows" where
  "writer_run U L c [] t = ([], t)"
| "writer_run U L c (e # es) t =
     (case writer_step U L c e t of (d, t1) \<Rightarrow> (case writer_run U L c es t1 of (ds, t2) \<Rightarrow> (d # ds, t2)))"

section \<open>A log that is swept\<close>

text \<open>An event log from which the events before an instant are deleted.\<close>

locale swept_log = event_log +
  fixes sweep :: "go_time \<Rightarrow> 's \<Rightarrow> 's"
    and at :: "'e \<Rightarrow> go_time"
    and cutoff :: "go_time \<Rightarrow> go_time"
  assumes sweep_inv: "inv s \<Longrightarrow> inv (sweep b s)"
    and sweep_log: "inv s \<Longrightarrow> log (sweep b s) = filter (\<lambda>e. \<not> at e < cutoff b) (log s)"
begin

lemma ins_holds: "inv s \<Longrightarrow> ekey (norm x) \<in> ekey ` set (log (ins x s))"
  by (auto simp: ins_log)

lemma ins_keeps: "inv s \<Longrightarrow> e \<in> set (log s) \<Longrightarrow> e \<in> set (log (ins x s))"
  by (simp add: ins_log)

lemma sweep_keeps: "inv s \<Longrightarrow> e \<in> set (log s) \<Longrightarrow> cutoff b \<le> at e \<Longrightarrow> e \<in> set (log (sweep b s))"
  by (simp add: sweep_log)

lemma sweep_twice: "inv s \<Longrightarrow> log (sweep b (sweep b s)) = log (sweep b s)"
  by (simp add: sweep_log sweep_inv)

lemma sweep_distinct: "inv s \<Longrightarrow> distinct (map ekey (log s)) \<Longrightarrow> distinct (map ekey (log (sweep b s)))"
  by (simp add: sweep_log distinct_map_filter)

end

interpretation sql_register: swept_log "\<lambda>_. True" "\<lambda>t. t" "\<lambda>r. (audit_params r)\<lparr>ia_at := pg_timestamp (ar_at r)\<rparr>" ia_id
    "\<lambda>r. sqlInsertAuditRecord (audit_params r)" "\<lambda>b t. snd (sqlDeleteAuditRecordsOlderThan b t)" ia_at pg_timestamp
  by unfold_locales (auto simp: sqlInsertAuditRecord_def sqlDeleteAuditRecordsOlderThan_def audit_params_def Let_def)

lemma inmem_delete:
  "inmem_DeleteOlderThan b rs = (int (length (filter (\<lambda>r. ar_at r < b) rs)), filter (\<lambda>r. \<not> ar_at r < b) rs)"
  by (induction rs) (auto split: prod.splits)

lemma inmem_Insert_alt: "inmem_Insert r rs = (if ar_id r \<in> ar_id ` set rs then rs else rs @ [r])"
  unfolding inmem_Insert_def list_ex_iff image_iff by metis

interpretation mem_register: swept_log "\<lambda>_. True" "\<lambda>t. t" "\<lambda>r. r" ar_id inmem_Insert
    "\<lambda>b t. snd (inmem_DeleteOlderThan b t)" ar_at "\<lambda>b. b"
  by unfold_locales (simp_all add: inmem_Insert_alt inmem_delete)

section \<open>Round trip of a record\<close>

lemma utf8_coerce_valid: "valid_string s \<Longrightarrow> utf8_coerce s = s"
proof (induction s rule: runes.induct)
  case (1 s)
  show ?case
  proof (cases "s = []")
    case False
    obtain r w ok where d: "decode_rune s = (r, w, ok)" by (metis surj_pair)
    have "runes s = (r, ok) # runes (drop w s)" using False d by (subst runes.simps) simp
    then have "ok" "valid_string (drop w s)" using "1.prems" by (simp_all add: valid_string_def)
    then show ?thesis
      using "1.IH" [OF False] False d by (subst utf8_coerce.simps) simp
  qed (simp add: utf8_coerce.simps)
qed

definition audit_keys :: "string list" where
  "audit_keys =
     [''id'', ''occurred_at'', ''action'', ''outcome'', ''principal'', ''resource'', ''data'', ''attribution'', ''grants'', ''reason'']"

lemma is_key_eq: "n \<in> set audit_keys \<Longrightarrow> k \<in> set audit_keys \<Longrightarrow> is_key U n k \<longleftrightarrow> n = k"
proof -
  assume nk: "n \<in> set audit_keys" "k \<in> set audit_keys"
  have "list_all (\<lambda>n. all_ascii n \<and> list_all (\<lambda>k. map lower_char k = map lower_char n \<longrightarrow> n = k) audit_keys) audit_keys"
    by code_simp
  then have a: "all_ascii n" "all_ascii k" "map lower_char k = map lower_char n \<longrightarrow> n = k"
    using nk by (auto simp: list_all_iff)
  then show ?thesis by (auto simp: is_key_def equal_fold_def)
qed

lemma is_key_simps [simp]:
  "is_key U ''id'' ''id''" "is_key U ''occurred_at'' ''occurred_at''" "is_key U ''action'' ''action''"
  "is_key U ''outcome'' ''outcome''" "is_key U ''principal'' ''principal''" "is_key U ''resource'' ''resource''"
  "is_key U ''data'' ''data''" "is_key U ''attribution'' ''attribution''" "is_key U ''grants'' ''grants''"
  "is_key U ''reason'' ''reason''"
  by (simp_all add: is_key_def)

lemma is_key_others [simp]:
  "\<not> is_key U ''id'' ''occurred_at''" "\<not> is_key U ''id'' ''action''" "\<not> is_key U ''occurred_at'' ''action''"
  "\<not> is_key U ''id'' ''outcome''" "\<not> is_key U ''occurred_at'' ''outcome''" "\<not> is_key U ''action'' ''outcome''"
  "\<not> is_key U ''id'' ''principal''" "\<not> is_key U ''occurred_at'' ''principal''" "\<not> is_key U ''action'' ''principal''"
  "\<not> is_key U ''outcome'' ''principal''"
  "\<not> is_key U ''id'' ''resource''" "\<not> is_key U ''occurred_at'' ''resource''" "\<not> is_key U ''action'' ''resource''"
  "\<not> is_key U ''outcome'' ''resource''" "\<not> is_key U ''principal'' ''resource''"
  "\<not> is_key U ''id'' ''data''" "\<not> is_key U ''occurred_at'' ''data''" "\<not> is_key U ''action'' ''data''"
  "\<not> is_key U ''outcome'' ''data''" "\<not> is_key U ''principal'' ''data''" "\<not> is_key U ''resource'' ''data''"
  "\<not> is_key U ''attribution'' ''grants''" "\<not> is_key U ''attribution'' ''reason''" "\<not> is_key U ''grants'' ''reason''"
  by (simp_all add: is_key_eq audit_keys_def)

text \<open>Every text of the record is UTF-8.\<close>

definition texts_valid :: "AuditRecord \<Rightarrow> bool" where
  "texts_valid r \<longleftrightarrow>
     list_all valid_string
       ([ar_id r, ar_action r, ar_outcome r, ar_principal r, dt_attribution (ar_details r), dt_reason (ar_details r)] @
        ar_resource r @ dt_grants (ar_details r))"

lemma decode_elems_strings: "decode_elems (map JStr ss) [] = Some ss"
  by (induction ss) simp_all

lemma decode_strs_strings: "decode_strs (json_strings ss) [] = Some ss"
  by (simp add: json_strings_def decode_elems_strings)

lemma coerce_strings: "list_all valid_string ss \<Longrightarrow> json_coerce (json_strings ss) = json_strings ss"
  by (auto simp: json_strings_def list_all_iff utf8_coerce_valid)

lemma audit_keys_coerce: "k \<in> set audit_keys \<Longrightarrow> utf8_coerce k = k"
proof -
  assume "k \<in> set audit_keys"
  moreover have "list_all all_ascii audit_keys" by code_simp
  ultimately show ?thesis by (auto simp: list_all_iff intro: utf8_coerce_valid valid_string_ascii)
qed

lemma keys_coerce [simp]:
  "utf8_coerce ''id'' = ''id''" "utf8_coerce ''occurred_at'' = ''occurred_at''" "utf8_coerce ''action'' = ''action''"
  "utf8_coerce ''outcome'' = ''outcome''" "utf8_coerce ''principal'' = ''principal''" "utf8_coerce ''resource'' = ''resource''"
  "utf8_coerce ''data'' = ''data''" "utf8_coerce ''attribution'' = ''attribution''" "utf8_coerce ''grants'' = ''grants''"
  "utf8_coerce ''reason'' = ''reason''"
  by (simp_all add: audit_keys_coerce audit_keys_def)

lemma coerce_details:
  assumes "valid_string (dt_attribution d)" and "valid_string (dt_reason d)" and "list_all valid_string (dt_grants d)"
  shows "json_coerce (details_json d) = details_json d"
  using assms by (simp add: details_json_def omitempty_def utf8_coerce_valid coerce_strings)

lemma decode_details_json:
  "decode_details U (details_json d) \<lparr>dt_attribution = [], dt_grants = [], dt_reason = []\<rparr> = Some d"
  by (cases d) (simp add: details_json_def omitempty_def decode_strs_strings)

lemma record_roundtrip:
  assumes L: "json_ok L" and "texts_valid r" and "Marshal L r = Some data"
  shows "Unmarshal U L data = (case validate r of Inl e \<Rightarrow> Inl (NotWellFormed e) | Inr _ \<Rightarrow> Inr r)"
proof -
  obtain at where at: "js_time L (ar_at r) = Some at" "data = js_text L (record_json at r)"
    using assms(3) by (auto simp: Marshal_def)
  have v: "valid_string at" "js_read_time L at = Some (ar_at r)" using L at(1) by (simp_all add: json_ok_def)
  have "json_coerce (record_json at r) = record_json at r"
    using assms(2) v(1) unfolding texts_valid_def
    by (simp add: record_json_def utf8_coerce_valid coerce_strings coerce_details)
  then have read: "js_read L data = Some (record_json at r)" using L at(2) by (simp add: json_ok_def)
  obtain es where es: "record_json at r = JObj es" "decode_entries U L es zero_record = Some r"
    using v(2) by (cases r) (simp add: record_json_def zero_record_def decode_strs_strings decode_details_json)
  show ?thesis unfolding Unmarshal_def read es(1) by (simp add: es(2))
qed

section \<open>Every decision, once\<close>

definition recordable :: "'b json_lib \<Rightarrow> string \<Rightarrow> Decision \<Rightarrow> bool" where
  "recordable L cuid d \<longleftrightarrow>
     resource_wf (d_resource d) \<and> d_at d \<noteq> zero_time \<and> js_time L (d_at d) \<noteq> None \<and>
     (p_id (d_principal d) = [] \<longleftrightarrow> d_outcome d = NoPrincipal) \<and> texts_valid (NewRecord cuid d)"

definition stored_record :: "AuditRecord \<Rightarrow> InsertAuditRecordParams" where
  "stored_record r = (audit_params r)\<lparr>ia_at := pg_timestamp (ar_at r)\<rparr>"

lemma outcome_string_simps:
  "ParseOutcome (outcome_string oc) = Some oc" "outcome_string oc = ''no-principal'' \<longleftrightarrow> oc = NoPrincipal"
  by (cases oc; simp add: ParseOutcome_def)+

lemma validate_NewRecord:
  "validate (NewRecord cuid d) = Inr () \<longleftrightarrow>
     resource_wf (d_resource d) \<and> d_at d \<noteq> zero_time \<and> (p_id (d_principal d) = [] \<longleftrightarrow> d_outcome d = NoPrincipal)"
proof -
  have "ParseAction (action_string a) = Some a" for a by (simp add: ParseAction_roundtrip)
  then show ?thesis
    by (auto simp: validate_def NewRecord_def outcome_string_simps idPrefix_def resource_wf_def split: if_splits)
qed

text \<open>What \<open>Guard\<close> tells its Recorder names nobody exactly when nothing authenticated the request.\<close>

lemma Guard_recordable:
  assumes "Guard c a r f recs st = (y, recs', st')" and "\<forall>p. c_principal c = Some p \<longrightarrow> p_id p \<noteq> []"
  shows "\<exists>d. recs' = recs @ [d] \<and> d_resource d = r \<and> d_action d = a \<and> d_at d = c_now c \<and>
     (p_id (d_principal d) = [] \<longleftrightarrow> d_outcome d = NoPrincipal) \<and> (d_outcome d = Allowed \<longleftrightarrow> permitted c a r)"
proof (cases "c_principal c")
  case None
  then show ?thesis using assms by (auto simp: Guard_def decision_def zero_principal_def permitted_def)
next
  case (Some p)
  then show ?thesis
    using assms by (auto simp: Guard_cases decision_def split: if_splits)
qed

definition published_records :: "'b json_lib \<Rightarrow> (string \<times> reply \<times> Decision) list \<Rightarrow> (string \<times> 'b) list \<times> Decision list" where
  "published_records L ds = fold (\<lambda>(cuid, a, d). recorder_Record L cuid a d) ds ([], [])"

lemma published_fold:
  "fold (\<lambda>(cuid, a, d). recorder_Record L cuid a d) ds (sent, told) =
     (sent', told') \<Longrightarrow> told' = told @ map (\<lambda>(cuid, a, d). d) ds \<and>
       (\<forall>(s, data)\<in>set sent'. (s, data) \<in> set sent \<or>
          (\<exists>(cuid, a, d)\<in>set ds. Marshal L (NewRecord cuid d) = Some data \<and> s = Subject (d_outcome d)))"
proof (induction ds arbitrary: sent told)
  case (Cons x ds)
  obtain cuid a d where x: "x = (cuid, a, d)" by (metis surj_pair)
  obtain s1 t1 where r: "recorder_Record L cuid a d (sent, told) = (s1, t1)" by (metis surj_pair)
  have t1: "t1 = told @ [d]" using r by (auto simp: recorder_Record_def)
  have s1: "\<forall>y\<in>set s1. y \<in> set sent \<or> (\<exists>data. Marshal L (NewRecord cuid d) = Some data \<and> y = (Subject (d_outcome d), data))"
    using r by (cases a) (auto simp: recorder_Record_def split: option.splits)
  have "fold (\<lambda>(cuid, a, d). recorder_Record L cuid a d) ds (s1, t1) = (sent', told')"
    using Cons.prems by (simp add: x r)
  from Cons.IH [OF this] show ?case using s1 t1 by (fastforce simp: x)
qed simp

text \<open>A message of a recordable decision is written, and never given up.\<close>

lemma handle_recordable:
  assumes "json_ok L" and "recordable L cuid d" and "Marshal L (NewRecord cuid d) = Some data"
  shows "handleRecordMsg U L a data t =
     (case a of Answered \<Rightarrow> (MsgAck, sqlInsertAuditRecord (audit_params (NewRecord cuid d)) t)
      | Refused \<Rightarrow> (MsgNak, t) | LostReply \<Rightarrow> (MsgNak, sqlInsertAuditRecord (audit_params (NewRecord cuid d)) t))"
proof -
  have "texts_valid (NewRecord cuid d)" "validate (NewRecord cuid d) = Inr ()"
    using assms(2) by (auto simp: recordable_def validate_NewRecord)
  then have "Unmarshal U L data = Inr (NewRecord cuid d)" using record_roundtrip [OF assms(1) _ assms(3), of U] by simp
  then show ?thesis by (cases a) (simp_all add: handleRecordMsg_def auditrepo_Insert_def)
qed

definition genuine :: "'b json_lib \<Rightarrow> (string \<times> reply \<times> Decision) list \<Rightarrow> 'b \<Rightarrow> bool" where
  "genuine L ds data \<longleftrightarrow> (\<exists>(cuid, a, d)\<in>set ds. recordable L cuid d \<and> Marshal L (NewRecord cuid d) = Some data)"

definition register_inv :: "(string \<times> reply \<times> Decision) list \<Rightarrow> audit_rows \<Rightarrow> bool" where
  "register_inv ds t \<longleftrightarrow>
     distinct (map ia_id t) \<and> (\<forall>row\<in>set t. \<exists>(cuid, a, d)\<in>set ds. row = stored_record (NewRecord cuid d))"

lemma register_inv_insert:
  "register_inv ds t \<Longrightarrow> (cuid, a, d) \<in> set ds \<Longrightarrow> register_inv ds (sqlInsertAuditRecord (audit_params (NewRecord cuid d)) t)"
  by (auto simp: register_inv_def sqlInsertAuditRecord_def stored_record_def audit_params_def)

lemma cleanup_cases: "audit_cleanupCycle c now a t \<in> {t, filter (\<lambda>r. pg_timestamp (now - cfg_retention c) \<le> ia_at r) t}"
  by (cases a) (auto simp: audit_cleanupCycle_def auditrepo_DeleteOlderThan_def sqlDeleteAuditRecordsOlderThan_def Let_def not_less)

lemma register_inv_cleanup: "register_inv ds t \<Longrightarrow> register_inv ds (audit_cleanupCycle c now a t)"
  using cleanup_cases [of c now a t] by (auto simp: register_inv_def distinct_map_filter)

fun event_ok :: "'b json_lib \<Rightarrow> (string \<times> reply \<times> Decision) list \<Rightarrow> 'b writer_event \<Rightarrow> bool" where
  "event_ok L ds (Deliver a data) = genuine L ds data"
| "event_ok L ds (Sweep now a) = True"

fun spares :: "audit_config \<Rightarrow> go_time \<Rightarrow> 'b writer_event \<Rightarrow> bool" where
  "spares c x (Deliver a data) = True"
| "spares c x (Sweep now a) = (pg_timestamp (now - cfg_retention c) \<le> x)"

lemma writer_step_inv:
  assumes "json_ok L" and "register_inv ds t" and "event_ok L ds e" and "writer_step U L c e t = (out, t')"
  shows "register_inv ds t' \<and> out \<noteq> Some MsgTerm"
proof (cases e)
  case (Deliver a data)
  then obtain cuid b d where "(cuid, b, d) \<in> set ds" "recordable L cuid d" "Marshal L (NewRecord cuid d) = Some data"
    using assms(3) by (auto simp: genuine_def)
  with assms Deliver show ?thesis
    by (cases a) (auto simp: handle_recordable intro: register_inv_insert)
next
  case (Sweep now a)
  then show ?thesis using assms(2,4) register_inv_cleanup by auto
qed

lemma writer_step_keeps:
  assumes "json_ok L" and "row \<in> set t" and "event_ok L ds e" and "spares c (ia_at row) e" and "writer_step U L c e t = (out, t')"
  shows "row \<in> set t'"
proof (cases e)
  case (Deliver a data)
  then obtain cuid b d where "recordable L cuid d" "Marshal L (NewRecord cuid d) = Some data"
    using assms(3) by (auto simp: genuine_def)
  with assms Deliver show ?thesis
    by (cases a) (auto simp: handle_recordable sqlInsertAuditRecord_def)
next
  case (Sweep now a)
  then have "t' = audit_cleanupCycle c now a t" using assms(5) by simp
  then show ?thesis using cleanup_cases [of c now a t] assms(2,4) Sweep by auto
qed

lemma writer_run_inv:
  "json_ok L \<Longrightarrow> register_inv ds t \<Longrightarrow> list_all (event_ok L ds) es \<Longrightarrow> writer_run U L c es t = (outs, t') \<Longrightarrow>
     register_inv ds t' \<and> Some MsgTerm \<notin> set outs"
proof (induction es arbitrary: t outs t')
  case (Cons e es)
  obtain out t1 where s: "writer_step U L c e t = (out, t1)" by (metis surj_pair)
  obtain rest t2 where r: "writer_run U L c es t1 = (rest, t2)" by (metis surj_pair)
  have "register_inv ds t1 \<and> out \<noteq> Some MsgTerm"
    using writer_step_inv [OF Cons.prems(1,2) _ s] Cons.prems(3) by simp
  then show ?case using Cons.IH [OF Cons.prems(1) _ _ r] Cons.prems(3,4) s r by auto
qed simp

lemma writer_run_keeps:
  "json_ok L \<Longrightarrow> row \<in> set t \<Longrightarrow> list_all (event_ok L ds) es \<Longrightarrow> list_all (spares c (ia_at row)) es \<Longrightarrow>
     writer_run U L c es t = (outs, t') \<Longrightarrow> row \<in> set t'"
proof (induction es arbitrary: t outs t')
  case (Cons e es)
  obtain out t1 where s: "writer_step U L c e t = (out, t1)" by (metis surj_pair)
  obtain rest t2 where r: "writer_run U L c es t1 = (rest, t2)" by (metis surj_pair)
  have "row \<in> set t1" using writer_step_keeps [OF Cons.prems(1,2) _ _ s] Cons.prems(3,4) by auto
  then show ?case using Cons.IH [OF Cons.prems(1) _ _ _ r] Cons.prems(3-5) s r by simp
qed simp

lemma acked_holds:
  assumes "json_ok L" and "recordable L cuid d" and "Marshal L (NewRecord cuid d) = Some data"
    and "(cuid, b, d) \<in> set ds" and "register_inv ds t" and ids: "inj_on fst (set ds)"
    and "writer_step U L c (Deliver a data) t = (Some MsgAck, t')"
  shows "stored_record (NewRecord cuid d) \<in> set t'"
proof -
  let ?r = "stored_record (NewRecord cuid d)"
  have t': "t' = sqlInsertAuditRecord (audit_params (NewRecord cuid d)) t"
    using assms(7) handle_recordable [OF assms(1-3), of U a t] by (cases a) auto
  show ?thesis
  proof (cases "ia_id ?r \<in> ia_id ` set t")
    case True
    then obtain row where row: "row \<in> set t" "ia_id row = ia_id ?r" by auto
    then obtain cuid' a' d' where o: "(cuid', a', d') \<in> set ds" "row = stored_record (NewRecord cuid' d')"
      using assms(5) by (auto simp: register_inv_def)
    have "cuid' = cuid" using row(2) by (simp add: o(2) stored_record_def audit_params_def NewRecord_def)
    then have "d' = d" using inj_onD [OF ids _ o(1) assms(4)] by simp
    then have "row = ?r" using o(2) \<open>cuid' = cuid\<close> by simp
    then show ?thesis using row(1) by (simp add: t' sqlInsertAuditRecord_def)
  next
    case False
    then show ?thesis by (simp add: t' sqlInsertAuditRecord_def stored_record_def audit_params_def)
  qed
qed

lemma acked_stays:
  assumes L: "json_ok L" and ids: "inj_on fst (set ds)"
    and d: "recordable L cuid d" "Marshal L (NewRecord cuid d) = Some data" "(cuid, b, d) \<in> set ds"
  shows "register_inv ds t \<Longrightarrow> list_all (event_ok L ds) es \<Longrightarrow> list_all (spares c (pg_timestamp (d_at d))) es \<Longrightarrow>
     writer_run U L c es t = (outs, t') \<Longrightarrow> (Deliver a data, Some MsgAck) \<in> set (zip es outs) \<Longrightarrow>
     stored_record (NewRecord cuid d) \<in> set t'"
proof (induction es arbitrary: t outs t')
  case (Cons e es)
  obtain out t1 where s: "writer_step U L c e t = (out, t1)" by (metis surj_pair)
  obtain rest t2 where r: "writer_run U L c es t1 = (rest, t2)" by (metis surj_pair)
  have o: "outs = out # rest" "t' = t2" using Cons.prems(4) s r by simp_all
  have inv: "register_inv ds t1" using writer_step_inv [OF L Cons.prems(1) _ s] Cons.prems(2) by simp
  have at: "ia_at (stored_record (NewRecord cuid d)) = pg_timestamp (d_at d)"
    by (simp add: stored_record_def NewRecord_def)
  show ?case
  proof (cases "(e, out) = (Deliver a data, Some MsgAck)")
    case True
    have h: "stored_record (NewRecord cuid d) \<in> set t1"
      using acked_holds [OF L d(1,2,3) Cons.prems(1) ids] s True by auto
    show ?thesis unfolding o(2)
      using writer_run_keeps [OF L h _ _ r, of ds] Cons.prems(2,3) unfolding at by simp
  next
    case False
    then have "(Deliver a data, Some MsgAck) \<in> set (zip es rest)" using Cons.prems(5) by (auto simp: o(1))
    from Cons.IH [OF inv _ _ r this] show ?thesis using Cons.prems(2,3) by (simp add: o(2))
  qed
qed simp

text \<open>
  C4. The register says what was decided, once.  Take the messages a Recorder published for decisions with
  identifiers of their own, and let the writer meet any sequence of their deliveries - repeated, in any order,
  with statements that fail or whose answer is lost - and of retention sweeps.  Then no identifier is stored
  twice, every row is the record of a decision as it was made, no message of a recordable decision is given
  up, and a decision one of whose deliveries was acknowledged is in the table as long as no sweep reached its
  instant.  The log line of the Recorder beneath is written for every decision whatever happens.
\<close>

theorem register_exact:
  assumes "json_ok L" and "inj_on fst (set ds)" and "published_records L ds = (sent, told)"
    and "\<forall>(cuid, a, d)\<in>set ds. recordable L cuid d"
    and "\<forall>a data. Deliver a data \<in> set es \<longrightarrow> data \<in> snd ` set sent"
    and "writer_run U L c es [] = (outs, t)"
  shows "told = map (\<lambda>(cuid, a, d). d) ds \<and> distinct (map ia_id t) \<and>
     (\<forall>row\<in>set t. \<exists>(cuid, a, d)\<in>set ds. row = stored_record (NewRecord cuid d)) \<and> Some MsgTerm \<notin> set outs \<and>
     (\<forall>(cuid, b, d)\<in>set ds. \<forall>a data.
        Marshal L (NewRecord cuid d) = Some data \<and> (Deliver a data, Some MsgAck) \<in> set (zip es outs) \<and>
        (\<forall>now a. Sweep now a \<in> set es \<longrightarrow> pg_timestamp (now - cfg_retention c) \<le> pg_timestamp (d_at d)) \<longrightarrow>
        stored_record (NewRecord cuid d) \<in> set t)"
proof -
  have p: "told = map (\<lambda>(cuid, a, d). d) ds"
    "\<forall>(s, data)\<in>set sent. \<exists>(cuid, a, d)\<in>set ds. Marshal L (NewRecord cuid d) = Some data"
    using published_fold [OF assms(3) [unfolded published_records_def]] by fastforce+
  have g: "list_all (event_ok L ds) es"
  proof (unfold list_all_iff, intro ballI)
    fix e assume e: "e \<in> set es"
    show "event_ok L ds e"
    proof (cases e)
      case (Deliver a data)
      then have "data \<in> snd ` set sent" using assms(5) e by blast
      then obtain s where "(s, data) \<in> set sent" by auto
      then show ?thesis using p(2) assms(4) Deliver by (fastforce simp: genuine_def)
    qed simp
  qed
  have i: "register_inv ds []" by (simp add: register_inv_def)
  have "register_inv ds t \<and> Some MsgTerm \<notin> set outs" by (rule writer_run_inv [OF assms(1) i g assms(6)])
  moreover have "stored_record (NewRecord cuid d) \<in> set t"
    if m: "(cuid, b, d) \<in> set ds" "Marshal L (NewRecord cuid d) = Some data" "(Deliver a data, Some MsgAck) \<in> set (zip es outs)"
      "\<forall>now a. Sweep now a \<in> set es \<longrightarrow> pg_timestamp (now - cfg_retention c) \<le> pg_timestamp (d_at d)" for cuid b d a data
  proof -
    have "recordable L cuid d" using assms(4) m(1) by auto
    moreover have "spares c (pg_timestamp (d_at d)) e" if "e \<in> set es" for e using m(4) that by (cases e) auto
    ultimately show ?thesis using acked_stays [OF assms(1,2) _ m(2,1) i g _ assms(6) m(3)] by (simp add: list_all_iff)
  qed
  ultimately show ?thesis using p(1) unfolding register_inv_def by blast
qed

section \<open>A sample register\<close>

definition tree_json :: "json json_lib" where
  "tree_json =
     \<lparr>js_time = (\<lambda>t. if t = 1000 then Some ''1970-01-01T00:00:00.000001Z'' else None),
      js_read_time = (\<lambda>s. if s = ''1970-01-01T00:00:00.000001Z'' then Some 1000 else None),
      js_text = json_coerce, js_read = Some\<rparr>"

lemma tree_json_ok: "json_ok tree_json"
proof -
  have "all_ascii ''1970-01-01T00:00:00.000001Z''" by code_simp
  then show ?thesis by (auto simp: json_ok_def tree_json_def valid_string_ascii split: if_splits)
qed

definition example_decision :: Decision where
  "example_decision =
     decision 1000 \<lparr>p_id = ''key_c1@k.dev'', p_grants = [], p_attribution = []\<rparr> Create (Batches (DomainName ''k.dev''))
       Denied reasonAction"

lemma register_exact_witness:
  "\<exists>sent data outs t. published_records tree_json [(''c1'', Answered, example_decision)] = (sent, [example_decision]) \<and>
     sent = [(''kannon.audit.denied'', data)] \<and>
     writer_run no_unicode tree_json \<lparr>cfg_enabled = True, cfg_retention = DefaultRetention\<rparr>
       [Deliver Refused data, Deliver LostReply data, Deliver Answered data, Sweep 5000 Answered] [] = (outs, t) \<and>
     distinct (map ia_id t) \<and> stored_record (NewRecord ''c1'' example_decision) \<in> set t"
proof -
  let ?c = "\<lparr>cfg_enabled = True, cfg_retention = DefaultRetention\<rparr>"
  let ?ds = "[(''c1'', Answered, example_decision)]"
  define data where "data = the (Marshal tree_json (NewRecord ''c1'' example_decision))"
  let ?es = "[Deliver Refused data, Deliver LostReply data, Deliver Answered data, Sweep 5000 Answered]"
  have m: "Marshal tree_json (NewRecord ''c1'' example_decision) = Some data"
    by (simp add: data_def Marshal_def tree_json_def NewRecord_def example_decision_def decision_def)
  have rec: "recordable tree_json ''c1'' example_decision" by code_simp
  have sub: "Subject (d_outcome example_decision) = ''kannon.audit.denied''" by code_simp
  have p: "published_records tree_json ?ds = ([(''kannon.audit.denied'', data)], [example_decision])"
    by (simp add: published_records_def recorder_Record_def m sub)
  obtain outs t where r: "writer_run no_unicode tree_json ?c ?es [] = (outs, t)" by (metis surj_pair)
  have h: "handleRecordMsg no_unicode tree_json a data t =
     (case a of Answered \<Rightarrow> (MsgAck, sqlInsertAuditRecord (audit_params (NewRecord ''c1'' example_decision)) t)
      | Refused \<Rightarrow> (MsgNak, t) | LostReply \<Rightarrow> (MsgNak, sqlInsertAuditRecord (audit_params (NewRecord ''c1'' example_decision)) t))" for a t
    by (rule handle_recordable [OF tree_json_ok rec m])
  have outs: "(Deliver Answered data, Some MsgAck) \<in> set (zip ?es outs)"
    using r by (auto simp: h split: prod.splits)
  have cut: "pg_timestamp (5000 - cfg_retention ?c) \<le> pg_timestamp (d_at example_decision)" by code_simp
  from register_exact [OF tree_json_ok _ p _ _ r] rec m outs cut
  have "distinct (map ia_id t) \<and> stored_record (NewRecord ''c1'' example_decision) \<in> set t" by force
  then show ?thesis using p r by (intro exI [of _ "[(''kannon.audit.denied'', data)]"] exI [of _ data] exI [of _ outs] exI [of _ t]) simp
qed

text \<open>
  A decision on a Resource with an empty segment - what the Mailer asks for a From host that has no canonical
  form - is published, and then given up by the writer: that refusal never reaches the table.
\<close>

lemma unnamed_resource_abandoned:
  "handleRecordMsg no_unicode tree_json Answered
     (the (Marshal tree_json (NewRecord ''c1'' (example_decision\<lparr>d_resource := Batches (DomainName [])\<rparr>)))) [] = (MsgTerm, [])"
  by code_simp

end
