(* ===== verification/Bounce.thy ===== *)
theory Bounce
  imports Sender
begin

text \<open>
  \<open>pkg/smtp\<close>: the server that receives the asynchronous bounces, one session at a time.  The SMTP library
  drives a session through its callbacks; \<open>net/mail\<close> splits a message into header and body, and is the
  argument \<open>read_message\<close>.  The lines of the body are read as \<open>bufio.Scanner\<close> reads them.
\<close>

section \<open>Configuration\<close>

record smtp_config =
  scf_address :: string
  scf_domain :: string
  scf_read_timeout :: go_time
  scf_write_timeout :: go_time
  scf_max_payload :: nat
  scf_max_recipients :: nat

definition smtp_setDefaults :: "smtp_config \<Rightarrow> smtp_config" where
  "smtp_setDefaults c =
     (let c = (if scf_address c = [] then c\<lparr>scf_address := '':25''\<rparr> else c);
          c = (if scf_domain c = [] then c\<lparr>scf_domain := ''localhost''\<rparr> else c);
          c = (if scf_read_timeout c \<le> 0 then c\<lparr>scf_read_timeout := 10 * 1000000000\<rparr> else c);
          c = (if scf_write_timeout c \<le> 0 then c\<lparr>scf_write_timeout := 10 * 1000000000\<rparr> else c);
          c = (if scf_max_payload c = 0 then c\<lparr>scf_max_payload := 1024 * 1024\<rparr> else c) in
      if scf_max_recipients c = 0 then c\<lparr>scf_max_recipients := 50\<rparr> else c)"

section \<open>The diagnostic code\<close>

definition maxScanTokenSize :: nat where "maxScanTokenSize = 64 * 1024"

definition drop_cr :: "string \<Rightarrow> string" where
  "drop_cr l = (if l \<noteq> [] \<and> last l = CHR 0x0D then butlast l else l)"

text \<open>A line that does not fit the buffer ends the scan; so does the end of the text after a line feed.\<close>

function scan_lines :: "string \<Rightarrow> string list" where
  "scan_lines s =
     (if s = [] then []
      else (let l = takeWhile (\<lambda>c. c \<noteq> newline) s in
        if maxScanTokenSize \<le> length l then []
        else drop_cr l # scan_lines (drop (Suc (length l)) s)))"
  by auto
termination
  by (relation "measure length") auto

declare scan_lines.simps [simp del]

definition is_digit :: "char \<Rightarrow> bool" where "is_digit c \<longleftrightarrow> 48 \<le> code c \<and> code c \<le> 57"

definition diagnosticPrefix :: string where "diagnosticPrefix = ''Diagnostic-Code: ''"

text \<open>\<open>parseMessageReg\<close>: the message and its digits.\<close>

definition match_diagnostic :: "string \<Rightarrow> (string \<times> string) option" where
  "match_diagnostic line =
     (if \<not> has_prefix (diagnosticPrefix @ ''SMTP; '') line then None
      else (let msg = drop (length diagnosticPrefix) line;
                ds = takeWhile is_digit (drop (length ''SMTP; '') msg) in
        if ds = [] \<or> take 1 (drop (length ''SMTP; '' + length ds) msg) \<noteq> '' '' then None else Some (msg, ds)))"

text \<open>\<open>strconv.Atoi\<close> on digits.\<close>

definition Atoi :: "string \<Rightarrow> int option" where
  "Atoi ds = (let n = int (parse_uint 0 ds) in if n < 2 ^ 63 then Some n else None)"

fun parse_lines :: "string list \<Rightarrow> int \<times> string" where
  "parse_lines [] = (550, ''unknown error'')"
| "parse_lines (l # ls) =
     (case match_diagnostic l of
        None \<Rightarrow> parse_lines ls
      | Some (msg, ds) \<Rightarrow> (case Atoi ds of None \<Rightarrow> parse_lines ls | Some n \<Rightarrow> (n, msg)))"

definition parseCode :: "string \<Rightarrow> int \<times> string" where
  "parseCode body = parse_lines (scan_lines body)"

definition isPermanentCode :: "int \<Rightarrow> bool" where
  "isPermanentCode n \<longleftrightarrow> 500 \<le> n \<and> n < 600"

section \<open>The session\<close>

record Session =
  se_from :: string
  se_to :: string

definition NewSession :: Session where "NewSession = \<lparr>se_from = [], se_to = []\<rparr>"

definition session_Mail :: "string \<Rightarrow> Session \<Rightarrow> Session" where
  "session_Mail sender s = s\<lparr>se_from := sender\<rparr>"

definition session_Rcpt :: "string \<Rightarrow> Session \<Rightarrow> Session" where
  "session_Rcpt to s = s\<lparr>se_to := to\<rparr>"

definition bounce_event :: "go_time \<Rightarrow> string \<Rightarrow> string \<Rightarrow> string \<Rightarrow> int \<Rightarrow> string \<Rightarrow> Event" where
  "bounce_event now email messageID domain n msg =
     \<lparr>ev_message = messageID, ev_domain = domain, ev_email = email, ev_time = now,
      ev_outcome = Bounced (isPermanentCode n) (word_of_int n) msg, ev_mode = ModeUnspecified\<rparr>"

text \<open>The result is whether the library is told of an error.\<close>

definition session_Data ::
  "'b codec \<Rightarrow> (string \<Rightarrow> string option) \<Rightarrow> go_time \<Rightarrow> reply \<Rightarrow> string \<Rightarrow> Session \<Rightarrow> 'b world \<Rightarrow> bool \<times> 'b world" where
  "session_Data cd read_message now a raw s w =
     (case read_message raw of
        None \<Rightarrow> (False, w)
      | Some body \<Rightarrow>
          (case ParseBounceReturnPath (se_to s) of
             InvalidBounce \<Rightarrow> (True, w)
           | NotBounce \<Rightarrow> (True, w)
           | BouncePath email messageID domain \<Rightarrow>
               (case parseCode body of (n, errMsg) \<Rightarrow>
                  (True, snd (PublishStat cd a (bounce_event now email messageID domain n errMsg) w)))))"

datatype smtp_command = CMail string | CRcpt string | CData string | CReset

text \<open>A conversation: the library calls back once per command; \<open>Reset\<close> keeps the fields.\<close>

fun session_command ::
  "'b codec \<Rightarrow> (string \<Rightarrow> string option) \<Rightarrow> go_time \<Rightarrow> reply \<Rightarrow> smtp_command \<Rightarrow> Session \<times> 'b world \<Rightarrow> Session \<times> 'b world" where
  "session_command cd rm now a (CMail x) (s, w) = (session_Mail x s, w)"
| "session_command cd rm now a (CRcpt x) (s, w) = (session_Rcpt x s, w)"
| "session_command cd rm now a (CData x) (s, w) = (s, snd (session_Data cd rm now a x s w))"
| "session_command cd rm now a CReset (s, w) = (s, w)"

section \<open>Lines\<close>

lemma scan_lines_unterminated:
  assumes "newline \<notin> set l" and "l \<noteq> []" and "length l < maxScanTokenSize"
  shows "scan_lines l = [drop_cr l]"
proof -
  have t: "takeWhile (\<lambda>c. c \<noteq> newline) l = l" using assms(1) by (auto simp: takeWhile_eq_all_conv)
  show ?thesis using assms(2,3) by (subst scan_lines.simps) (simp add: t Let_def scan_lines.simps [of "[]"])
qed

lemma scan_lines_line:
  assumes "newline \<notin> set l" and "length l < maxScanTokenSize"
  shows "scan_lines (l @ newline # rest) = drop_cr l # scan_lines rest"
proof -
  have t: "takeWhile (\<lambda>c. c \<noteq> newline) (l @ newline # rest) = l"
    using assms(1) by (subst takeWhile_append2) auto
  show ?thesis using assms(2) by (subst scan_lines.simps) (simp add: t Let_def)
qed

text \<open>Lines written with the line ends of SMTP.\<close>

definition crlf_text :: "string list \<Rightarrow> string" where
  "crlf_text ls = concat (map (\<lambda>l. l @ [CHR 0x0D, newline]) ls)"

lemma scan_crlf:
  assumes "\<forall>l\<in>set ls. newline \<notin> set l \<and> length l + 1 < maxScanTokenSize"
  shows "scan_lines (crlf_text ls) = ls"
  using assms
proof (induction ls)
  case (Cons l ls)
  have "scan_lines ((l @ [CHR 0x0D]) @ newline # crlf_text ls) = drop_cr (l @ [CHR 0x0D]) # scan_lines (crlf_text ls)"
    using Cons.prems by (intro scan_lines_line) auto
  then show ?case using Cons by (simp add: crlf_text_def drop_cr_def)
qed (simp add: crlf_text_def scan_lines.simps)

lemma match_diagnostic_line:
  assumes "ds \<noteq> []" and "list_all is_digit ds"
  shows "match_diagnostic (diagnosticPrefix @ ''SMTP; '' @ ds @ '' '' @ tx) = Some (''SMTP; '' @ ds @ '' '' @ tx, ds)"
proof -
  have "takeWhile is_digit (ds @ '' '' @ tx) = ds"
    using assms(2) by (subst takeWhile_append2) (auto simp: list_all_iff is_digit_def)
  moreover have "has_prefix (diagnosticPrefix @ ''SMTP; '') (diagnosticPrefix @ ''SMTP; '' @ ds @ '' '' @ tx)"
    using has_prefix_append [of "diagnosticPrefix @ ''SMTP; ''" "ds @ '' '' @ tx"] by (simp only: append_assoc)
  ultimately show ?thesis using assms(1) by (simp add: match_diagnostic_def)
qed

lemma parse_lines_skip:
  "\<forall>l\<in>set pre. match_diagnostic l = None \<Longrightarrow> parse_lines (pre @ ls) = parse_lines ls"
  by (induction pre) simp_all

section \<open>A bounce reaches its Delivery\<close>

lemma format_uint_ne: "format_uint n \<noteq> []"
  by (subst format_uint.simps) simp

lemma parseCode_found:
  assumes "\<forall>l\<in>set (pre @ line # post). newline \<notin> set l \<and> length l + 1 < maxScanTokenSize"
    and "\<forall>l\<in>set pre. match_diagnostic l = None"
    and "line = diagnosticPrefix @ ''SMTP; '' @ format_uint n @ '' '' @ tx" and "n < 2 ^ 63"
  shows "parseCode (crlf_text (pre @ line # post)) = (int n, ''SMTP; '' @ format_uint n @ '' '' @ tx)"
proof -
  have "list_all is_digit (format_uint n)" using format_uint_digits by (auto simp: list_all_iff is_digit_def)
  then have m: "match_diagnostic line = Some (''SMTP; '' @ format_uint n @ '' '' @ tx, format_uint n)"
    unfolding assms(3) by (rule match_diagnostic_line [OF format_uint_ne])
  have "Atoi (format_uint n) = Some (int n)" using assms(4) by (simp add: Atoi_def parse_format Let_def)
  then show ?thesis unfolding parseCode_def scan_crlf [OF assms(1)] parse_lines_skip [OF assms(2)] by (simp add: m)
qed

lemma parseCode_none:
  assumes "\<forall>l\<in>set ls. newline \<notin> set l \<and> length l + 1 < maxScanTokenSize" and "\<forall>l\<in>set ls. match_diagnostic l = None"
  shows "parseCode (crlf_text ls) = (550, ''unknown error'')"
  using parse_lines_skip [OF assms(2), of "[]"] unfolding parseCode_def scan_crlf [OF assms(1)] by simp

definition bounce_report :: "string list \<Rightarrow> (nat \<times> string) option \<Rightarrow> string list \<Rightarrow> string list" where
  "bounce_report pre d post =
     (case d of None \<Rightarrow> pre
      | Some (n, tx) \<Rightarrow> pre @ (diagnosticPrefix @ ''SMTP; '' @ format_uint n @ '' '' @ tx) # post)"

lemma bounce_report_code:
  assumes "\<forall>l\<in>set (bounce_report pre d post). newline \<notin> set l \<and> length l + 1 < maxScanTokenSize"
    and "\<forall>l\<in>set pre. match_diagnostic l = None" and "\<forall>n tx. d = Some (n, tx) \<longrightarrow> n < 2 ^ 63"
  shows "parseCode (crlf_text (bounce_report pre d post)) =
     (case d of None \<Rightarrow> (550, ''unknown error'') | Some (n, tx) \<Rightarrow> (int n, ''SMTP; '' @ format_uint n @ '' '' @ tx))"
proof (cases d)
  case None
  then show ?thesis using parseCode_none [of pre] assms by (simp add: bounce_report_def)
next
  case (Some y)
  obtain n tx where y: "y = (n, tx)" by (metis surj_pair)
  have "n < 2 ^ 63" using assms(3) by (simp add: Some y)
  then show ?thesis
    using parseCode_found [of pre _ post n tx, OF _ assms(2) refl] assms(1) by (simp add: Some y bounce_report_def)
qed


definition example_report :: string where
  "example_report = crlf_text (bounce_report [''Reporting-MTA: dns; mx.x''] (Some (550, ''no such user'')) [])"


lemma lower_case_type_unread:
  "parseCode (crlf_text [''Diagnostic-Code: SMTP; 450 busy'']) = (450, ''SMTP; 450 busy'')"
  "parseCode (crlf_text [''Diagnostic-Code: smtp; 450 busy'']) = (550, ''unknown error'')"
  "isPermanentCode 550 \<and> \<not> isPermanentCode 450"
proof -
  have short: "parseCode (crlf_text ls) = parse_lines ls"
    if "\<forall>l\<in>set ls. newline \<notin> set l \<and> length l < 100" for ls
    unfolding parseCode_def by (subst scan_crlf) (use that in \<open>auto simp: maxScanTokenSize_def\<close>)
  show "parseCode (crlf_text [''Diagnostic-Code: SMTP; 450 busy'']) = (450, ''SMTP; 450 busy'')"
    by (subst short) code_simp+
  show "parseCode (crlf_text [''Diagnostic-Code: smtp; 450 busy'']) = (550, ''unknown error'')"
    by (subst short) code_simp+
  show "isPermanentCode 550 \<and> \<not> isPermanentCode 450" by code_simp
qed

end
