(* ===== verification/AdminApi.thy ===== *)
theory AdminApi
  imports ApiKeys Domains TemplateStore TrackingWire "HOL-Library.Word"
begin

text \<open>
  The Admin API: the operator's token (\<open>internal/admintoken\<close>), the interceptor that turns the headers of a
  request into a Principal and an error into a code (\<open>internal/authzconnect\<close>), and the handlers of
  \<open>pkg/api/adminapi\<close> with their translation of entities to messages.  A request is one constructor per
  procedure; the tables behind the three services and the Decisions recorded so far are \<open>admin_db\<close>.
\<close>

section \<open>The admin token\<close>

type_synonym Token = string \<comment> \<open>the secret; the zero Token has none\<close>

datatype token_error = TokenEmpty | ErrInvalidToken

definition token_principalID :: string where "token_principalID = ''admin-token''"

definition token_Parse :: "unicode \<Rightarrow> string \<Rightarrow> token_error + Token" where
  "token_Parse U s = (let secret = trim_space U s in if secret = [] then Inl TokenEmpty else Inr secret)"

text \<open>\<open>MustNewPrincipal\<close> of one Grant: the admin Role on the root.\<close>

definition AdminPrincipal :: Principal where
  "AdminPrincipal =
     \<lparr>p_id = token_principalID, p_grants = [\<lparr>g_role = RoleAdmin, g_anchor = RootAnchor\<rparr>], p_attribution = []\<rparr>"

definition token_Authenticate :: "Token \<Rightarrow> string \<Rightarrow> token_error + Principal" where
  "token_Authenticate t presented =
     (if t = [] then Inl ErrInvalidToken
      else if t \<noteq> presented then Inl ErrInvalidToken
      else Inr AdminPrincipal)"

section \<open>The interceptor\<close>

text \<open>The two headers, empty where absent.\<close>

record rpc_headers =
  h_token :: string
  h_attribution :: string

definition attributed :: "unicode \<Rightarrow> Principal \<Rightarrow> string \<Rightarrow> attribution_error + Principal" where
  "attributed U p header =
     (if header = [] then Inr p
      else bindR (ParseAttribution U header) (\<lambda>a. Inr (WithAttribution p a)))"

definition adminTokenInterceptor ::
  "unicode \<Rightarrow> Token \<Rightarrow> go_time \<Rightarrow> rpc_headers \<Rightarrow> (ctx \<Rightarrow> 's \<Rightarrow> (connect_code + 'a) \<times> 's) \<Rightarrow> 's \<Rightarrow> (connect_code + 'a) \<times> 's" where
  "adminTokenInterceptor U t now h k st =
     (case token_Authenticate t (h_token h) of
        Inl _ \<Rightarrow> (Inl CodeUnauthenticated, st)
      | Inr p \<Rightarrow>
          (case attributed U p (h_attribution h) of
             Inl _ \<Rightarrow> (Inl CodeInvalidArgument, st)
           | Inr q \<Rightarrow> k \<lparr>c_principal = Some q, c_now = now\<rparr> st))"

text \<open>\<open>Error\<close>: what a refusal of \<open>Guard\<close>, or an error of the operation, is answered with.\<close>

definition connect_Error :: "connect_code \<Rightarrow> 'e guarded_error \<Rightarrow> connect_code" where
  "connect_Error fallback e = (case e of AuthzError _ \<Rightarrow> CodePermissionDenied | OpError _ \<Rightarrow> fallback)"

section \<open>Messages\<close>

record pb_domain =
  pd_domain :: string
  pd_key :: string
  pd_tracking :: wire_policy

record pb_template =
  pt_id :: string
  pt_html :: string
  pt_title :: string
  pt_type :: string

record pb_key =
  pk_id :: string
  pk_name :: string
  pk_domain :: string
  pk_active :: bool
  pk_key :: string
  pk_created :: "int \<times> int"
  pk_expires :: "(int \<times> int) option"
  pk_deactivated :: "(int \<times> int) option"

text \<open>\<open>timestamppb.New\<close> and \<open>AsTime\<close>: seconds and nanoseconds.\<close>

definition stamp :: "go_time \<Rightarrow> int \<times> int" where
  "stamp t = (t div 1000000000, t mod 1000000000)"

definition stamp_time :: "int \<times> int \<Rightarrow> go_time" where
  "stamp_time p = fst p * 1000000000 + snd p"

definition domainToPb :: "Domain \<Rightarrow> pb_domain" where
  "domainToPb d =
     \<lparr>pd_domain = dn_string (do_name d), pd_key = do_public d, pd_tracking = FromPolicy (do_tracking d)\<rparr>"

definition templateToPb :: "Template \<Rightarrow> pb_template" where
  "templateToPb t = \<lparr>pt_id = tp_id t, pt_html = tp_html t, pt_title = tp_title t, pt_type = tp_type t\<rparr>"

definition apiKeyToProto :: "APIKey \<Rightarrow> pb_key" where
  "apiKeyToProto k =
     \<lparr>pk_id = ak_id k, pk_name = ak_name k, pk_domain = dn_string (ak_domain k), pk_active = ak_active k,
      pk_key = MaskedKey k, pk_created = stamp (ak_created k), pk_expires = map_option stamp (ak_expires k),
      pk_deactivated = map_option stamp (ak_deactivated k)\<rparr>"

section \<open>The service\<close>

text \<open>What a request meets on its way: the databases of the three services, what fresh values came out.\<close>

record admin_env =
  ae_unicode :: unicode
  ae_digest :: "string \<Rightarrow> string"
  ae_domains :: domain_call
  ae_dkim :: "(string \<times> string) option"
  ae_templates :: template_call
  ae_cuid :: string
  ae_keys :: key_call
  ae_material :: key_material
  ae_now :: go_time

record admin_db =
  ad_log :: "Decision list"
  ad_domains :: domain_table
  ad_templates :: template_table
  ad_keys :: key_rows

datatype admin_error =
    BadDomainName parse_error
  | BadTracking wire_error
  | BadTemplateId template_error
  | BadKeyRef key_error
  | OnDomains "domain_error guarded_error"
  | OnTemplates "template_error guarded_error"
  | OnKeys "key_error guarded_error"

definition on_domains ::
  "(Decision list \<Rightarrow> domain_table \<Rightarrow> (domain_error guarded_error + 'a) \<times> Decision list \<times> domain_table) \<Rightarrow>
     admin_db \<Rightarrow> (admin_error + 'a) \<times> admin_db" where
  "on_domains f db =
     (case f (ad_log db) (ad_domains db) of (r, log, t) \<Rightarrow>
        (map_sum OnDomains id r, db\<lparr>ad_log := log, ad_domains := t\<rparr>))"

definition on_templates :: "'a template_op \<Rightarrow> admin_db \<Rightarrow> (admin_error + 'a) \<times> admin_db" where
  "on_templates f db =
     (case f (ad_log db) (ad_templates db) of (r, log, t) \<Rightarrow>
        (map_sum OnTemplates id r, db\<lparr>ad_log := log, ad_templates := t\<rparr>))"

definition on_keys ::
  "(Decision list \<Rightarrow> key_rows \<Rightarrow> (key_error guarded_error + 'a) \<times> Decision list \<times> key_rows) \<Rightarrow>
     admin_db \<Rightarrow> (admin_error + 'a) \<times> admin_db" where
  "on_keys f db =
     (case f (ad_log db) (ad_keys db) of (r, log, t) \<Rightarrow>
        (map_sum OnKeys id r, db\<lparr>ad_log := log, ad_keys := t\<rparr>))"

text \<open>A handler that gives up on an argument has asked nobody and touched nothing.\<close>

definition parsed :: "('e \<Rightarrow> admin_error) \<Rightarrow> 'e + 'b \<Rightarrow> ('b \<Rightarrow> admin_db \<Rightarrow> (admin_error + 'a) \<times> admin_db) \<Rightarrow>
    admin_db \<Rightarrow> (admin_error + 'a) \<times> admin_db" where
  "parsed err r k db = (case r of Inl e \<Rightarrow> (Inl (err e), db) | Inr x \<Rightarrow> k x db)"

definition answered :: "('a \<Rightarrow> 'b) \<Rightarrow> (admin_error + 'a) \<times> 's \<Rightarrow> (admin_error + 'b) \<times> 's" where
  "answered f r = map_prod (map_sum id f) id r"

subsection \<open>Domains\<close>

definition admin_GetDomains :: "admin_env \<Rightarrow> ctx \<Rightarrow> admin_db \<Rightarrow> (admin_error + pb_domain list) \<times> admin_db" where
  "admin_GetDomains E x db = answered (map domainToPb) (on_domains (GetDomains (ae_unicode E) (ae_domains E) x) db)"

definition admin_GetDomain :: "admin_env \<Rightarrow> ctx \<Rightarrow> string \<Rightarrow> admin_db \<Rightarrow> (admin_error + pb_domain) \<times> admin_db" where
  "admin_GetDomain E x domain =
     parsed BadDomainName (parse (ae_unicode E) domain) (\<lambda>name db.
       answered domainToPb (on_domains (GetDomain (ae_unicode E) (ae_domains E) x name) db))"

definition admin_CreateDomain :: "admin_env \<Rightarrow> ctx \<Rightarrow> string \<Rightarrow> admin_db \<Rightarrow> (admin_error + pb_domain) \<times> admin_db" where
  "admin_CreateDomain E x domain =
     parsed BadDomainName (parse (ae_unicode E) domain) (\<lambda>name db.
       answered domainToPb (on_domains (CreateDomain (ae_unicode E) (ae_domains E) (ae_dkim E) x name) db))"

definition admin_SetTrackingPolicy ::
  "admin_env \<Rightarrow> ctx \<Rightarrow> string \<Rightarrow> wire_policy option \<Rightarrow> admin_db \<Rightarrow> (admin_error + pb_domain) \<times> admin_db" where
  "admin_SetTrackingPolicy E x domain tracking =
     parsed BadDomainName (parse (ae_unicode E) domain) (\<lambda>name.
     parsed BadTracking (ToPolicy tracking) (\<lambda>policy db.
       answered domainToPb (on_domains (SetTrackingPolicy (ae_unicode E) (ae_domains E) x name policy) db)))"

subsection \<open>Templates\<close>

definition admin_CreateTemplate ::
  "admin_env \<Rightarrow> ctx \<Rightarrow> string \<Rightarrow> string \<Rightarrow> string \<Rightarrow> admin_db \<Rightarrow> (admin_error + pb_template) \<times> admin_db" where
  "admin_CreateTemplate E x domain html title =
     parsed BadDomainName (parse (ae_unicode E) domain) (\<lambda>name db.
       answered templateToPb (on_templates (CreateTemplate (ae_unicode E) (ae_templates E) (ae_cuid E) x name html title) db))"

definition admin_UpdateTemplate ::
  "admin_env \<Rightarrow> ctx \<Rightarrow> template_id \<Rightarrow> string \<Rightarrow> string \<Rightarrow> admin_db \<Rightarrow> (admin_error + pb_template) \<times> admin_db" where
  "admin_UpdateTemplate E x i html title =
     parsed BadTemplateId (DomainFromID (ae_unicode E) i) (\<lambda>domain db.
       answered templateToPb (on_templates (UpdateTemplate (ae_unicode E) (ae_templates E) x domain i html title) db))"

definition admin_DeleteTemplate ::
  "admin_env \<Rightarrow> ctx \<Rightarrow> template_id \<Rightarrow> admin_db \<Rightarrow> (admin_error + pb_template) \<times> admin_db" where
  "admin_DeleteTemplate E x i =
     parsed BadTemplateId (DomainFromID (ae_unicode E) i) (\<lambda>domain db.
       answered templateToPb (on_templates (DeleteTemplate (ae_unicode E) (ae_templates E) x domain i) db))"

definition admin_GetTemplate ::
  "admin_env \<Rightarrow> ctx \<Rightarrow> template_id \<Rightarrow> admin_db \<Rightarrow> (admin_error + pb_template) \<times> admin_db" where
  "admin_GetTemplate E x i =
     parsed BadTemplateId (DomainFromID (ae_unicode E) i) (\<lambda>domain db.
       answered templateToPb (on_templates (GetTemplate (ae_unicode E) (ae_templates E) x domain i) db))"

definition admin_GetTemplates ::
  "admin_env \<Rightarrow> ctx \<Rightarrow> string \<Rightarrow> 32 word \<Rightarrow> 32 word \<Rightarrow> admin_db \<Rightarrow> (admin_error + pb_template list \<times> 32 word) \<times> admin_db" where
  "admin_GetTemplates E x domain skip tk =
     parsed BadDomainName (parse (ae_unicode E) domain) (\<lambda>name db.
       answered (map_prod (map templateToPb) word_of_int)
         (on_templates (GetTemplates (ae_unicode E) (ae_templates E) x name (unat skip) (unat tk)) db))"

subsection \<open>API keys\<close>

definition admin_CreateAPIKey ::
  "admin_env \<Rightarrow> ctx \<Rightarrow> string \<Rightarrow> string \<Rightarrow> (int \<times> int) option \<Rightarrow> admin_db \<Rightarrow> (admin_error + pb_key \<times> string) \<times> admin_db" where
  "admin_CreateAPIKey E x domain name exp =
     parsed BadDomainName (parse (ae_unicode E) domain) (\<lambda>d db.
       answered (\<lambda>res. (apiKeyToProto (cr_key res), cr_plaintext res))
         (on_keys (CreateKey (ae_digest E) (sql_key_repo (ae_unicode E) (ae_keys E)) (ae_material E) x d name
             (map_option stamp_time exp)) db))"

definition admin_ListAPIKeys ::
  "admin_env \<Rightarrow> ctx \<Rightarrow> string \<Rightarrow> bool \<Rightarrow> 32 word \<Rightarrow> 32 word \<Rightarrow> admin_db \<Rightarrow> (admin_error + pb_key list \<times> 32 word) \<times> admin_db" where
  "admin_ListAPIKeys E x domain onlyActive limit offset =
     parsed BadDomainName (parse (ae_unicode E) domain) (\<lambda>d db.
       (let lim = (if 0 < sint limit then sint limit else 100);
            off = (if 0 < sint offset then sint offset else 0) in
        answered (map_prod (map apiKeyToProto) word_of_int)
          (on_keys (ListKeys (sql_key_repo (ae_unicode E) (ae_keys E)) x d onlyActive lim off) db)))"

definition admin_GetAPIKey :: "admin_env \<Rightarrow> ctx \<Rightarrow> string \<Rightarrow> string \<Rightarrow> admin_db \<Rightarrow> (admin_error + pb_key) \<times> admin_db" where
  "admin_GetAPIKey E x domain i =
     parsed BadKeyRef (ParseKeyRef (ae_unicode E) domain i) (\<lambda>ref db.
       answered apiKeyToProto (on_keys (GetKey (sql_key_repo (ae_unicode E) (ae_keys E)) x ref) db))"

definition admin_DeactivateAPIKey ::
  "admin_env \<Rightarrow> ctx \<Rightarrow> string \<Rightarrow> string \<Rightarrow> admin_db \<Rightarrow> (admin_error + pb_key) \<times> admin_db" where
  "admin_DeactivateAPIKey E x domain i =
     parsed BadKeyRef (ParseKeyRef (ae_unicode E) domain i) (\<lambda>ref db.
       answered apiKeyToProto
         (on_keys (DeactivateKey (sql_key_repo (ae_unicode E) (ae_keys E)) (ae_now E) x ref) db))"

section \<open>The adapter\<close>

datatype admin_request =
    ReqGetDomains
  | ReqGetDomain string
  | ReqCreateDomain string
  | ReqSetTrackingPolicy string "wire_policy option"
  | ReqCreateTemplate string string string
  | ReqUpdateTemplate template_id string string
  | ReqDeleteTemplate template_id
  | ReqGetTemplate template_id
  | ReqGetTemplates string "32 word" "32 word"
  | ReqCreateAPIKey string string "(int \<times> int) option"
  | ReqListAPIKeys string bool "32 word" "32 word"
  | ReqGetAPIKey string string
  | ReqDeactivateAPIKey string string

datatype admin_response =
    ResDomains "pb_domain list"
  | ResDomain pb_domain
  | ResTemplate pb_template
  | ResTemplates "pb_template list" "32 word"
  | ResNewKey pb_key string
  | ResKeys "pb_key list" "32 word"
  | ResKey pb_key

definition serviceError :: "admin_error \<Rightarrow> connect_code" where
  "serviceError e =
     (case e of
        OnDomains g \<Rightarrow> connect_Error CodeInternal g
      | OnTemplates g \<Rightarrow> connect_Error CodeInternal g
      | OnKeys g \<Rightarrow> connect_Error CodeInternal g
      | _ \<Rightarrow> CodeInternal)"

definition trackingPolicyError :: "admin_error \<Rightarrow> connect_code" where
  "trackingPolicyError e =
     (case e of
        BadTracking _ \<Rightarrow> CodeInvalidArgument
      | OnDomains (OpError ErrDomainNotFound) \<Rightarrow> CodeNotFound
      | _ \<Rightarrow> serviceError e)"

definition reply_with :: "(admin_error \<Rightarrow> connect_code) \<Rightarrow> ('a \<Rightarrow> admin_response) \<Rightarrow> (admin_error + 'a) \<times> 's \<Rightarrow>
    (connect_code + admin_response) \<times> 's" where
  "reply_with err f r = map_prod (map_sum err f) id r"

fun admin_serve :: "admin_env \<Rightarrow> admin_request \<Rightarrow> ctx \<Rightarrow> admin_db \<Rightarrow> (connect_code + admin_response) \<times> admin_db" where
  "admin_serve E ReqGetDomains x db = reply_with serviceError ResDomains (admin_GetDomains E x db)"
| "admin_serve E (ReqGetDomain d) x db = reply_with serviceError ResDomain (admin_GetDomain E x d db)"
| "admin_serve E (ReqCreateDomain d) x db = reply_with serviceError ResDomain (admin_CreateDomain E x d db)"
| "admin_serve E (ReqSetTrackingPolicy d p) x db =
     reply_with trackingPolicyError ResDomain (admin_SetTrackingPolicy E x d p db)"
| "admin_serve E (ReqCreateTemplate d html title) x db =
     reply_with serviceError ResTemplate (admin_CreateTemplate E x d html title db)"
| "admin_serve E (ReqUpdateTemplate i html title) x db =
     reply_with serviceError ResTemplate (admin_UpdateTemplate E x i html title db)"
| "admin_serve E (ReqDeleteTemplate i) x db = reply_with serviceError ResTemplate (admin_DeleteTemplate E x i db)"
| "admin_serve E (ReqGetTemplate i) x db = reply_with serviceError ResTemplate (admin_GetTemplate E x i db)"
| "admin_serve E (ReqGetTemplates d skip tk) x db =
     reply_with serviceError (\<lambda>(ts, n). ResTemplates ts n) (admin_GetTemplates E x d skip tk db)"
| "admin_serve E (ReqCreateAPIKey d n exp) x db =
     reply_with serviceError (\<lambda>(k, s). ResNewKey k s) (admin_CreateAPIKey E x d n exp db)"
| "admin_serve E (ReqListAPIKeys d act lim off) x db =
     reply_with serviceError (\<lambda>(ks, n). ResKeys ks n) (admin_ListAPIKeys E x d act lim off db)"
| "admin_serve E (ReqGetAPIKey d i) x db = reply_with serviceError ResKey (admin_GetAPIKey E x d i db)"
| "admin_serve E (ReqDeactivateAPIKey d i) x db = reply_with serviceError ResKey (admin_DeactivateAPIKey E x d i db)"

text \<open>A request as the server handles it, the interceptor around the handler.\<close>

definition admin_rpc ::
  "admin_env \<Rightarrow> Token \<Rightarrow> rpc_headers \<Rightarrow> admin_request \<Rightarrow> admin_db \<Rightarrow> (connect_code + admin_response) \<times> admin_db" where
  "admin_rpc E t h rq = adminTokenInterceptor (ae_unicode E) t (ae_now E) h (admin_serve E rq)"

section \<open>The gate\<close>

lemma AdminPrincipal_issued:
  "NewGrant RoleAdmin RootAnchor = Inr \<lparr>g_role = RoleAdmin, g_anchor = RootAnchor\<rparr> \<and>
   NewPrincipal U token_principalID [\<lparr>g_role = RoleAdmin, g_anchor = RootAnchor\<rparr>] = Some AdminPrincipal"
proof -
  have "grant_issued \<lparr>g_role = RoleAdmin, g_anchor = RootAnchor\<rparr>" by code_simp
  moreover have "all_ascii token_principalID" "ascii_trim token_principalID \<noteq> []" by code_simp+
  ultimately show ?thesis by (simp add: NewGrant_Inr_iff NewPrincipal_def trim_space_def AdminPrincipal_def)
qed

lemma Admin_permitted:
  assumes "c_principal x = Some p" and "p_grants p = p_grants AdminPrincipal"
  shows "permitted x a r \<longleftrightarrow> resource_wf r"
proof -
  have "anchor_covers RootAnchor r \<longleftrightarrow> resource_wf r"
    using anchor_covers_root [of "\<lparr>g_role = RoleAdmin, g_anchor = RootAnchor\<rparr>" r] by (simp add: RootAnchor_def)
  then have "Can p b r \<longleftrightarrow> resource_wf r" for b
    using assms(2) by (auto simp: Can_grants_on grants_on_def AdminPrincipal_def)
  then show ?thesis by (auto simp: permitted_def assms(1))
qed

text \<open>What every request comes to: an argument refused, or one guarded operation.\<close>

definition decided :: "ctx \<Rightarrow> Decision \<Rightarrow> bool" where
  "decided x d \<longleftrightarrow>
     (case c_principal x of Some p \<Rightarrow> d_principal d = p | None \<Rightarrow> d_principal d = zero_principal) \<and>
     (d_outcome d = Allowed) = permitted x (d_action d) (d_resource d)"

definition one_decision :: "ctx \<Rightarrow> admin_db \<Rightarrow> (connect_code + 'r) \<times> admin_db \<Rightarrow> bool" where
  "one_decision x db out \<longleftrightarrow>
     out \<in> {(Inl CodeInternal, db), (Inl CodeInvalidArgument, db)} \<or>
     (\<exists>d. ad_log (snd out) = ad_log db @ [d] \<and> resource_wf (d_resource d) \<and> decided x d \<and>
        (if d_outcome d = Allowed then fst out \<noteq> Inl CodePermissionDenied \<and> fst out \<noteq> Inl CodeUnauthenticated
         else fst out = Inl CodePermissionDenied \<and> db\<lparr>ad_log := ad_log (snd out)\<rparr> = snd out))"

text \<open>How the adapters answer: a refusal is \<open>CodePermissionDenied\<close> and nothing else is.\<close>

definition refuses :: "(admin_error \<Rightarrow> connect_code) \<Rightarrow> bool" where
  "refuses err \<longleftrightarrow>
     (\<forall>e. err (OnDomains (AuthzError e)) = CodePermissionDenied \<and> err (OnTemplates (AuthzError e)) = CodePermissionDenied \<and>
        err (OnKeys (AuthzError e)) = CodePermissionDenied) \<and>
     (\<forall>e. err (OnDomains (OpError e)) \<notin> {CodePermissionDenied, CodeUnauthenticated}) \<and>
     (\<forall>e. err (OnTemplates (OpError e)) \<notin> {CodePermissionDenied, CodeUnauthenticated}) \<and>
     (\<forall>e. err (OnKeys (OpError e)) \<notin> {CodePermissionDenied, CodeUnauthenticated})"

lemma refuses_errors: "refuses serviceError" "refuses trackingPolicyError"
  by (auto simp: refuses_def serviceError_def trackingPolicyError_def connect_Error_def split: domain_error.splits)

lemma Guard_answers:
  "\<exists>d out. Guard x a r f log t = (out, log @ [d], if d_outcome d = Allowed then snd (f t) else t) \<and>
     d_resource d = r \<and> decided x d \<and> (d_outcome d = Allowed) = (\<forall>e. out \<noteq> Inl (AuthzError e))"
  by (cases "fst (f t)"; cases "c_principal x") (auto simp: Guard_cases decision_def permitted_def decided_def)

lemma code_of:
  assumes "(d_outcome d = Allowed) = (\<forall>e. r0 \<noteq> Inl (AuthzError e))"
    and "\<forall>e. err (wrap (AuthzError e)) = CodePermissionDenied"
    and "\<forall>e. err (wrap (OpError e)) \<notin> {CodePermissionDenied, CodeUnauthenticated}"
  shows "if d_outcome d = Allowed
     then map_sum err g (map_sum id h (map_sum wrap id r0)) \<noteq> Inl CodePermissionDenied \<and>
       map_sum err g (map_sum id h (map_sum wrap id r0)) \<noteq> Inl CodeUnauthenticated
     else map_sum err g (map_sum id h (map_sum wrap id r0)) = Inl CodePermissionDenied"
proof (cases r0)
  case (Inl e)
  then show ?thesis using assms by (cases e) auto
qed (use assms in auto)

lemma one_decisionI:
  assumes "resource_wf (d_resource d)" and "decided x d" and "ad_log (snd out) = ad_log db @ [d]"
    and "if d_outcome d = Allowed then fst out \<noteq> Inl CodePermissionDenied \<and> fst out \<noteq> Inl CodeUnauthenticated
      else fst out = Inl CodePermissionDenied"
    and "d_outcome d \<noteq> Allowed \<Longrightarrow> db\<lparr>ad_log := ad_log (snd out)\<rparr> = snd out"
  shows "one_decision x db out"
  unfolding one_decision_def using assms by (intro disjI2 exI [of _ d]) auto

lemma guarded_decision:
  assumes "resource_wf r" and "refuses err"
  shows "one_decision x db (reply_with err g (answered h (on_domains (Guard x a r f) db)))"
    and "one_decision x db (reply_with err g (answered h' (on_templates (Guard x a r f') db)))"
    and "one_decision x db (reply_with err g (answered h'' (on_keys (Guard x a r f'') db)))"
proof -
  note on = reply_with_def answered_def on_domains_def on_templates_def on_keys_def
  from assms(2) have err: "\<forall>e. err (OnDomains (AuthzError e)) = CodePermissionDenied"
      "\<forall>e. err (OnTemplates (AuthzError e)) = CodePermissionDenied" "\<forall>e. err (OnKeys (AuthzError e)) = CodePermissionDenied"
      "\<forall>e. err (OnDomains (OpError e)) \<notin> {CodePermissionDenied, CodeUnauthenticated}"
      "\<forall>e. err (OnTemplates (OpError e)) \<notin> {CodePermissionDenied, CodeUnauthenticated}"
      "\<forall>e. err (OnKeys (OpError e)) \<notin> {CodePermissionDenied, CodeUnauthenticated}"
    unfolding refuses_def by blast+
  obtain d r0 where G: "Guard x a r f (ad_log db) (ad_domains db) =
      (r0, ad_log db @ [d], if d_outcome d = Allowed then snd (f (ad_domains db)) else ad_domains db)" "d_resource d = r"
      "decided x d" "(d_outcome d = Allowed) = (\<forall>e. r0 \<noteq> Inl (AuthzError e))"
    using Guard_answers [of x a r f "ad_log db" "ad_domains db"] by blast
  show "one_decision x db (reply_with err g (answered h (on_domains (Guard x a r f) db)))"
    by (rule one_decisionI [where d = d]) (use assms(1) G(1-3) code_of [where wrap = OnDomains and err = err and g = g and h = h, OF G(4) err(1,4)] in \<open>simp_all add: on\<close>)
  obtain d r0 where G: "Guard x a r f' (ad_log db) (ad_templates db) =
      (r0, ad_log db @ [d], if d_outcome d = Allowed then snd (f' (ad_templates db)) else ad_templates db)" "d_resource d = r"
      "decided x d" "(d_outcome d = Allowed) = (\<forall>e. r0 \<noteq> Inl (AuthzError e))"
    using Guard_answers [of x a r f' "ad_log db" "ad_templates db"] by blast
  show "one_decision x db (reply_with err g (answered h' (on_templates (Guard x a r f') db)))"
    by (rule one_decisionI [where d = d]) (use assms(1) G(1-3) code_of [where wrap = OnTemplates and err = err and g = g and h = h', OF G(4) err(2,5)] in \<open>simp_all add: on\<close>)
  obtain d r0 where G: "Guard x a r f'' (ad_log db) (ad_keys db) =
      (r0, ad_log db @ [d], if d_outcome d = Allowed then snd (f'' (ad_keys db)) else ad_keys db)" "d_resource d = r"
      "decided x d" "(d_outcome d = Allowed) = (\<forall>e. r0 \<noteq> Inl (AuthzError e))"
    using Guard_answers [of x a r f'' "ad_log db" "ad_keys db"] by blast
  show "one_decision x db (reply_with err g (answered h'' (on_keys (Guard x a r f'') db)))"
    by (rule one_decisionI [where d = d]) (use assms(1) G(1-3) code_of [where wrap = OnKeys and err = err and g = g and h = h'', OF G(4) err(3,6)] in \<open>simp_all add: on\<close>)
qed

lemma parsed_decision:
  assumes "\<And>v. pr = Inr v \<Longrightarrow> one_decision x db (reply_with err g (k v db))"
    and "\<And>e. pr = Inl e \<Longrightarrow> err (w e) \<in> {CodeInternal, CodeInvalidArgument}"
  shows "one_decision x db (reply_with err g (parsed w pr k db))"
  using assms by (cases pr) (auto simp: parsed_def one_decision_def reply_with_def)

lemma named_resources:
  assumes "canonical_name d"
  shows "resource_wf (DomainR d)" "resource_wf (Templates d)" "resource_wf (APIKeys d)"
    and "i \<noteq> [] \<Longrightarrow> resource_wf (TemplateR d i)" and "i \<noteq> [] \<Longrightarrow> resource_wf (APIKeyR d i)"
  using canonical_name_nonzero [OF assms] by (auto simp: resource_wf_def resource_defs seg_defs)

lemma DomainFromID_canonical: "DomainFromID U i = Inr d \<Longrightarrow> canonical_name d \<and> i \<noteq> []"
  by (auto simp: DomainFromID_def separators_def split: if_splits sum.splits prod.splits intro: parse_canonical_name)

lemma ParseKeyRef_canonical: "ParseKeyRef U d i = Inr ref \<Longrightarrow> canonical_name (ref_domain ref) \<and> ref_id ref \<noteq> []"
  by (auto simp: ParseKeyRef_def ParseKeyID_def NewKeyRef_def bindR_eq_Inr split: if_splits sum.splits intro: parse_canonical_name)

lemma admin_serve_decision: "one_decision x db (admin_serve E rq x db)"
proof -
  have D: "resource_wf Domains" by (simp add: resource_wf_def resource_defs seg_defs)
  have bad: "serviceError (BadDomainName e) = CodeInternal" "trackingPolicyError (BadDomainName e) = CodeInternal"
      "serviceError (BadTemplateId f) = CodeInternal" "serviceError (BadKeyRef g) = CodeInternal"
      "trackingPolicyError (BadTracking w) = CodeInvalidArgument" for e f g w
    by (simp_all add: serviceError_def trackingPolicyError_def)
  note names = parse_canonical_name DomainFromID_canonical ParseKeyRef_canonical
  note G = guarded_decision [OF _ refuses_errors(1)] guarded_decision [OF _ refuses_errors(2)]
  note N = GetDomains_def GetDomain_def CreateDomain_def SetTrackingPolicy_def CreateTemplate_def UpdateTemplate_def
    DeleteTemplate_def GetTemplate_def GetTemplates_def CreateKey_def ListKeys_def GetKey_def DeactivateKey_def key_resource_def
  show ?thesis
  proof (cases rq)
    case ReqGetDomains
    then show ?thesis by (simp add: admin_GetDomains_def N G D)
  next
    case (ReqGetDomain d)
    then show ?thesis by (auto simp: admin_GetDomain_def N bad intro!: parsed_decision G named_resources names)
  next
    case (ReqCreateDomain d)
    then show ?thesis by (auto simp: admin_CreateDomain_def N bad D intro!: parsed_decision G)
  next
    case (ReqSetTrackingPolicy d p)
    then show ?thesis by (auto simp: admin_SetTrackingPolicy_def N bad intro!: parsed_decision G named_resources names)
  next
    case (ReqCreateTemplate d html title)
    then show ?thesis by (auto simp: admin_CreateTemplate_def N bad intro!: parsed_decision G named_resources names)
  next
    case (ReqUpdateTemplate i html title)
    then show ?thesis by (auto simp: admin_UpdateTemplate_def N bad dest: names intro!: parsed_decision G named_resources)
  next
    case (ReqDeleteTemplate i)
    then show ?thesis by (auto simp: admin_DeleteTemplate_def N bad dest: names intro!: parsed_decision G named_resources)
  next
    case (ReqGetTemplate i)
    then show ?thesis by (auto simp: admin_GetTemplate_def N bad dest: names intro!: parsed_decision G named_resources)
  next
    case (ReqGetTemplates d skip tk)
    then show ?thesis by (auto simp: admin_GetTemplates_def N bad intro!: parsed_decision G named_resources names)
  next
    case (ReqCreateAPIKey d n exp)
    then show ?thesis by (auto simp: admin_CreateAPIKey_def N bad intro!: parsed_decision G named_resources names)
  next
    case (ReqListAPIKeys d act lim off)
    then show ?thesis by (auto simp: admin_ListAPIKeys_def N bad Let_def intro!: parsed_decision G named_resources names)
  next
    case (ReqGetAPIKey d i)
    then show ?thesis by (auto simp: admin_GetAPIKey_def N bad dest: names intro!: parsed_decision G named_resources)
  next
    case (ReqDeactivateAPIKey d i)
    then show ?thesis by (auto simp: admin_DeactivateAPIKey_def N bad dest: names intro!: parsed_decision G named_resources)
  qed
qed

lemma admin_rpc_allowed:
  assumes p: "attributed (ae_unicode E) AdminPrincipal (h_attribution h) = Inr p"
    and t: "token_Authenticate t (h_token h) = Inr AdminPrincipal" and s: "admin_rpc E t h rq db = (res, db')"
  shows "res \<noteq> Inl CodePermissionDenied \<and> res \<noteq> Inl CodeUnauthenticated \<and>
    (db' = db \<and> res \<in> {Inl CodeInternal, Inl CodeInvalidArgument} \<or>
     (\<exists>d. ad_log db' = ad_log db @ [d] \<and> d_outcome d = Allowed \<and> p_id (d_principal d) = ''admin-token'' \<and>
        p_attribution (d_principal d) =
          (if h_attribution h = [] then [] else trim_space (ae_unicode E) (h_attribution h))))"
proof -
  let ?x = "\<lparr>c_principal = Some p, c_now = ae_now E\<rparr>"
  have x: "c_principal ?x = Some p" by simp
  have q: "p_id p = ''admin-token''" "p_grants p = p_grants AdminPrincipal" "p_attribution p =
      (if h_attribution h = [] then [] else trim_space (ae_unicode E) (h_attribution h))"
    using p by (auto simp: attributed_def bindR_eq_Inr WithAttribution_def AdminPrincipal_def token_principalID_def
        ParseAttribution_bounded split: if_splits)
  have s': "admin_serve E rq ?x db = (res, db')"
    using s t p by (simp add: admin_rpc_def adminTokenInterceptor_def)
  have allowed: "d_outcome d = Allowed \<and> d_principal d = p" if "decided ?x d" "resource_wf (d_resource d)" for d
    using that Admin_permitted [OF x q(2)] by (simp add: decided_def)
  from admin_serve_decision [of ?x db E rq] consider
      "db' = db" "res \<in> {Inl CodeInternal, Inl CodeInvalidArgument}"
    | d where "ad_log db' = ad_log db @ [d]" "d_outcome d = Allowed" "d_principal d = p"
        "res \<noteq> Inl CodePermissionDenied" "res \<noteq> Inl CodeUnauthenticated"
    unfolding one_decision_def s' fst_conv snd_conv using allowed by (auto split: if_splits)
  then show ?thesis
  proof cases
    case 2
    then show ?thesis using q(1,3) by (intro conjI disjI2 exI [of _ d]) simp_all
  qed auto
qed


section \<open>A request stays with the Domain it names\<close>

definition admin_ok :: "admin_db \<Rightarrow> bool" where
  "admin_ok db \<longleftrightarrow> domains_ok (ad_domains db) \<and> templates_ok (ad_templates db) \<and> keys_ok (ad_keys db)"

text \<open>What the tables say of one Domain: its row, its Templates, its API keys.\<close>

definition of_domain :: "DomainName \<Rightarrow> admin_db \<Rightarrow> domain_row option \<times> template_row list \<times> api_key_row list" where
  "of_domain d db =
     (sqlFindDomain (dn_string d) (ad_domains db),
      filter (\<lambda>r. tr_domain r = dn_string d) (tt_rows (ad_templates db)),
      filter (\<lambda>r. akr_domain r = dn_string d) (ad_keys db))"

definition right_of :: "'e + 'a \<Rightarrow> 'a option" where
  "right_of r = (case r of Inl _ \<Rightarrow> None | Inr x \<Rightarrow> Some x)"

fun request_domain :: "unicode \<Rightarrow> admin_request \<Rightarrow> DomainName option" where
  "request_domain U ReqGetDomains = None"
| "request_domain U (ReqGetDomain d) = right_of (parse U d)"
| "request_domain U (ReqCreateDomain d) = right_of (parse U d)"
| "request_domain U (ReqSetTrackingPolicy d p) = right_of (parse U d)"
| "request_domain U (ReqCreateTemplate d html title) = right_of (parse U d)"
| "request_domain U (ReqUpdateTemplate i html title) = right_of (DomainFromID U i)"
| "request_domain U (ReqDeleteTemplate i) = right_of (DomainFromID U i)"
| "request_domain U (ReqGetTemplate i) = right_of (DomainFromID U i)"
| "request_domain U (ReqGetTemplates d skip tk) = right_of (parse U d)"
| "request_domain U (ReqCreateAPIKey d n exp) = right_of (parse U d)"
| "request_domain U (ReqListAPIKeys d act lim off) = right_of (parse U d)"
| "request_domain U (ReqGetAPIKey d i) = right_of (parse U d)"
| "request_domain U (ReqDeactivateAPIKey d i) = right_of (parse U d)"

text \<open>The random part of an identifier has no separator and makes one the table does not hold.\<close>

definition fresh_template :: "admin_env \<Rightarrow> admin_db \<Rightarrow> bool" where
  "fresh_template E db \<longleftrightarrow>
     CHR ''@'' \<notin> set (ae_cuid E) \<and>
     (\<forall>r\<in>set (tt_rows (ad_templates db)). \<not> has_prefix (newTemplateID (ae_cuid E) (DomainName [])) (tr_template r))"

text \<open>One handler, from the tables it found to those it left.\<close>

definition confined :: "DomainName option \<Rightarrow> admin_db \<Rightarrow> ('e + 'a) \<times> admin_db \<Rightarrow> bool" where
  "confined n db out \<longleftrightarrow>
     admin_ok (snd out) \<and> (\<not> is_ok (fst out) \<longrightarrow> snd out = db\<lparr>ad_log := ad_log (snd out)\<rparr>) \<and>
     (\<forall>d. n \<noteq> Some d \<longrightarrow> of_domain d (snd out) = of_domain d db)"

lemma confined_reply: "confined n db (reply_with err g (answered h out)) \<longleftrightarrow> confined n db out"
  by (cases out; cases "fst out") (auto simp: confined_def reply_with_def answered_def)

lemma confined_parsed:
  assumes "admin_ok db" and "\<And>v. pr = Inr v \<Longrightarrow> confined n db (reply_with err g (k v db))"
  shows "confined n db (reply_with err g (parsed w pr k db))"
  using assms by (cases pr) (auto simp: parsed_def confined_def reply_with_def)

lemma dn_string_eq: "dn_string d = dn_string d' \<longleftrightarrow> d = d'"
  by (cases d; cases d') auto

lemma confined_on_domains:
  assumes "admin_ok db" and "f (ad_log db) (ad_domains db) = (r, log, t)" and "domains_ok t"
    and "\<not> is_ok r \<Longrightarrow> t = ad_domains db"
    and "\<And>d. n \<noteq> Some d \<Longrightarrow> sqlFindDomain (dn_string d) t = sqlFindDomain (dn_string d) (ad_domains db)"
  shows "confined n db (on_domains f db)"
  using assms by (cases r) (auto simp: confined_def on_domains_def admin_ok_def of_domain_def)

lemma confined_on_templates:
  assumes "admin_ok db" and "f (ad_log db) (ad_templates db) = (r, log, t)" and "templates_ok t"
    and "\<not> is_ok r \<Longrightarrow> t = ad_templates db" and "foreign n t = foreign n (ad_templates db)"
  shows "confined (Some n) db (on_templates f db)"
proof -
  have "filter (\<lambda>r. tr_domain r = dn_string d) (tt_rows t) = filter (\<lambda>r. tr_domain r = dn_string d) (tt_rows (ad_templates db))"
    if "n \<noteq> d" for d
  proof -
    have "filter (\<lambda>r. tr_domain r = dn_string d) rs = filter (\<lambda>r. tr_domain r = dn_string d) (filter (\<lambda>r. tr_domain r \<noteq> dn_string n) rs)" for rs
      using that by (auto simp: dn_string_eq intro: filter_cong)
    then show ?thesis using assms(5) unfolding foreign_def by metis
  qed
  then show ?thesis
    using assms by (cases r) (auto simp: confined_def on_templates_def admin_ok_def of_domain_def)
qed

lemma confined_on_keys:
  assumes "admin_ok db" and "f (ad_log db) (ad_keys db) = (r, log, t)" and "keys_ok t"
    and "\<not> is_ok r \<Longrightarrow> t = ad_keys db"
    and "\<And>d. n \<noteq> d \<Longrightarrow> filter (\<lambda>r. akr_domain r = dn_string d) t = filter (\<lambda>r. akr_domain r = dn_string d) (ad_keys db)"
  shows "confined (Some n) db (on_keys f db)"
  using assms by (cases r) (auto simp: confined_def on_keys_def admin_ok_def of_domain_def)

lemma confined_failed:
  assumes "admin_ok db"
  shows "\<exists>e log. f (ad_log db) (ad_domains db) = (Inl e, log, ad_domains db) \<Longrightarrow> confined n db (on_domains f db)"
    and "\<exists>e log. f' (ad_log db) (ad_templates db) = (Inl e, log, ad_templates db) \<Longrightarrow> confined n db (on_templates f' db)"
    and "\<exists>e log. f'' (ad_log db) (ad_keys db) = (Inl e, log, ad_keys db) \<Longrightarrow> confined n db (on_keys f'' db)"
  using assms by (auto simp: confined_def on_domains_def on_templates_def on_keys_def admin_ok_def of_domain_def)

text \<open>A read leaves its table as it was.\<close>

lemma Guard_read: "\<exists>out log'. Guard x a r (\<lambda>s. (g s, s)) log t = (out, log', t)"
  by (auto simp: Guard_cases)

lemma confined_read:
  assumes "admin_ok db"
  shows "confined n db (on_domains (Guard x a r (\<lambda>t. (f t, t))) db)"
    and "confined n db (on_templates (Guard x a r (\<lambda>t. (f' t, t))) db)"
    and "confined n db (on_keys (Guard x a r (\<lambda>t. (f'' t, t))) db)"
  using assms
  by (auto simp: confined_def on_domains_def on_templates_def on_keys_def admin_ok_def of_domain_def Guard_cases)

subsection \<open>The writes\<close>

lemma Guard_failed:
  "\<not> permitted x a r \<or> (\<exists>e. f t = (Inl e, t)) \<Longrightarrow> \<exists>e log'. Guard x a r f log t = (Inl e, log', t)"
  by (auto simp: Guard_cases)

lemma Guard_passed:
  "permitted x a r \<Longrightarrow> f t = (out, t') \<Longrightarrow> \<exists>out' log'. Guard x a r f log t = (out', log', t') \<and> is_ok out' = is_ok out"
  by (cases out) (auto simp: Guard_cases)

lemma CreateDomain_confined:
  assumes "admin_ok db" and "canonical_name n"
  shows "confined (Some n) db (on_domains (CreateDomain U c pair x n) db)"
proof (cases "permitted x Create Domains \<and> is_ok (NewDomain n pair)")
  case False
  then have "\<exists>e log. CreateDomain U c pair x n (ad_log db) (ad_domains db) = (Inl e, log, ad_domains db)"
    unfolding CreateDomain_def by (intro Guard_failed) (auto split: sum.splits)
  then show ?thesis by (rule confined_failed(1) [OF assms(1)])
next
  case True
  then obtain d where d: "NewDomain n pair = Inr d" "do_name d = n" by (auto simp: is_ok_iff NewDomain_def split: option.splits)
  obtain r t where q: "sqlCreateDomain c (dn_string n) (do_private d) (do_public d) (ad_domains db) = (r, t)" by (metis surj_pair)
  have ok: "domains_ok t" using domains_ok_create [OF _ q] assms(1) by (simp add: admin_ok_def)
  have other: "sqlFindDomain (dn_string d') t = sqlFindDomain (dn_string d') (ad_domains db)" if "n \<noteq> d'" for d'
    using q that by (auto simp: sqlCreateDomain_def sqlFindDomain_def Let_def find_snoc dn_string_eq split: if_splits option.splits)
  have readable: "\<exists>y. rowToDomain U row = Inr y" if "r = Inr row" for row
    using q that assms(2) by (cases n) (auto simp: sqlCreateDomain_def Let_def rowToDomain_def parse_canonical canonical_name_def split: if_splits)
  have same: "t = ad_domains db" if "r = Inl e" for e
    using q that by (auto simp: sqlCreateDomain_def Let_def split: if_splits)
  obtain out where out: "domains_Create U c d (ad_domains db) = (out, t)" "\<not> is_ok out \<Longrightarrow> t = ad_domains db"
  proof (cases r)
    case (Inl e)
    then show ?thesis using that [of "Inl e"] q d(2) same by (simp add: domains_Create_def)
  next
    case (Inr row)
    then show ?thesis using that [of "rowToDomain U row"] q d(2) readable [OF Inr] by (auto simp: domains_Create_def)
  qed
  obtain out' log where g: "CreateDomain U c pair x n (ad_log db) (ad_domains db) = (out', log, t)" "is_ok out' = is_ok out"
    using Guard_passed [of x Create Domains "\<lambda>t. case NewDomain n pair of Inl e \<Rightarrow> (Inl e, t) | Inr d \<Rightarrow> domains_Create U c d t"
        "ad_domains db" out t "ad_log db"] True d(1) out(1)
    by (auto simp: CreateDomain_def)
  show ?thesis
    by (rule confined_on_domains [where f = "CreateDomain U c pair x n", OF assms(1) g(1) ok]) (use g(2) other out(2) in auto)
qed

lemma SetTrackingPolicy_confined:
  assumes "admin_ok db" and "canonical_name n"
  shows "confined (Some n) db (on_domains (SetTrackingPolicy U c x n p) db)"
proof (cases "permitted x Update (DomainR n) \<and> dc_up c")
  case False
  then have "\<exists>e log. SetTrackingPolicy U c x n p (ad_log db) (ad_domains db) = (Inl e, log, ad_domains db)"
    unfolding SetTrackingPolicy_def by (intro Guard_failed) (auto simp: domains_SetTrackingPolicy_def)
  then show ?thesis by (rule confined_failed(1) [OF assms(1)])
next
  case True
  let ?t = "snd (sqlSetDomainTracking (dn_string n) (Normalized p) (ad_domains db))"
  have ok: "domains_ok ?t" using domains_ok_set assms(1) by (simp add: admin_ok_def)
  have other: "sqlFindDomain (dn_string d) ?t = sqlFindDomain (dn_string d) (ad_domains db)" if "n \<noteq> d" for d
    using that by (auto simp: sqlFindDomain_set dn_string_eq option.map_ident)
  have fst: "fst (sqlSetDomainTracking (dn_string n) (Normalized p) (ad_domains db)) = sqlFindDomain (dn_string n) ?t"
    by (simp add: sqlSetDomainTracking_def Let_def)
  have none: "?t = ad_domains db" if "sqlFindDomain (dn_string n) ?t = None"
  proof -
    have "\<forall>r\<in>set (dt_rows (ad_domains db)). dr_domain r \<noteq> dn_string n"
      using that unfolding sqlFindDomain_set by (auto simp: sqlFindDomain_def find_None_iff)
    then have "map (\<lambda>r. if dr_domain r = dn_string n then r\<lparr>dr_tracking := Normalized p\<rparr> else r) (dt_rows (ad_domains db)) =
        dt_rows (ad_domains db)" by (intro map_idI) auto
    then show ?thesis by (simp add: sqlSetDomainTracking_def Let_def)
  qed
  have readable: "\<exists>y. rowToDomain U row = Inr y" if "sqlFindDomain (dn_string n) ?t = Some row" for row
  proof -
    have "dr_domain row = dn_string n" using that by (auto simp: sqlFindDomain_def find_Some_iff)
    then show ?thesis using assms(2) by (cases n) (auto simp: rowToDomain_def parse_canonical canonical_name_def)
  qed
  obtain so t where pair: "sqlSetDomainTracking (dn_string n) (Normalized p) (ad_domains db) = (so, t)" by (metis surj_pair)
  have so: "so = sqlFindDomain (dn_string n) ?t" "?t = t" using fst unfolding pair by simp_all
  obtain out where out: "domains_SetTrackingPolicy U c n p (ad_domains db) = (out, ?t)" "\<not> is_ok out \<Longrightarrow> ?t = ad_domains db"
  proof (cases so)
    case None
    then have q: "domains_SetTrackingPolicy U c n p (ad_domains db) = (Inl ErrDomainNotFound, ?t)"
      using True by (simp add: domains_SetTrackingPolicy_def pair)
    have "?t = ad_domains db" by (rule none) (simp only: so(1) [symmetric] None)
    then show ?thesis by (intro that [OF q])
  next
    case (Some row)
    obtain y where y: "rowToDomain U row = Inr y" using readable Some so(1) by metis
    have "domains_SetTrackingPolicy U c n p (ad_domains db) = (Inr y, ?t)"
      using True y Some by (simp add: domains_SetTrackingPolicy_def pair)
    then show ?thesis using that [of "Inr y"] by simp
  qed
  obtain out' log where g: "SetTrackingPolicy U c x n p (ad_log db) (ad_domains db) = (out', log, ?t)" "is_ok out' = is_ok out"
    using Guard_passed [of x Update "DomainR n" "domains_SetTrackingPolicy U c n p" "ad_domains db" out ?t "ad_log db"] True out(1)
    by (auto simp: SetTrackingPolicy_def)
  show ?thesis
    by (rule confined_on_domains [where f = "SetTrackingPolicy U c x n p", OF assms(1) g(1) ok]) (use g(2) other out(2) in auto)
qed

lemma CreateTemplate_confined:
  assumes "admin_ok db" and "canonical_name n" and "fresh_template E db"
  shows "confined (Some n) db (on_templates (CreateTemplate U c (ae_cuid E) x n html title) db)"
proof (cases "permitted x Create (Templates n)")
  case False
  then have "\<exists>e log. CreateTemplate U c (ae_cuid E) x n html title (ad_log db) (ad_templates db) = (Inl e, log, ad_templates db)"
    unfolding CreateTemplate_def by (intro Guard_failed) simp
  then show ?thesis by (rule confined_failed(2) [OF assms(1)])
next
  case True
  let ?i = "newTemplateID (ae_cuid E) n"
  obtain r t where q: "sqlCreateTemplate c ?i html title (dn_string n) (toSQLCTemplateType TypePersistent) (ad_templates db) = (r, t)"
    by (metis surj_pair)
  have "has_prefix (newTemplateID (ae_cuid E) (DomainName [])) ?i"
    by (simp add: has_prefix_iff newTemplateID_def)
  then have "?i \<notin> tr_template ` set (tt_rows (ad_templates db))" using assms(3) by (auto simp: fresh_template_def)
  note C = templates_ok_create [OF _ _ assms(2) this, of c html title "toSQLCTemplateType TypePersistent"]
  have ok: "templates_ok t" "foreign n t = foreign n (ad_templates db)"
    using C assms(1,3) q by (simp_all add: admin_ok_def fresh_template_def)
  have readable: "\<exists>y. rowToTemplate U row = Inr y" if "r = Inr row" for row
    using q that assms(2) by (cases n) (auto simp: sqlCreateTemplate_def Let_def rowToTemplate_def parse_canonical canonical_name_def split: if_splits)
  have same: "t = ad_templates db" if "r = Inl e" for e
    using q that by (auto simp: sqlCreateTemplate_def Let_def split: if_splits)
  obtain out where out: "templates_Create U c (NewPersistent (ae_cuid E) n html title) (ad_templates db) = (out, t)"
      "\<not> is_ok out \<Longrightarrow> t = ad_templates db"
  proof (cases r)
    case (Inl e)
    then show ?thesis using that [of "Inl e"] q same by (simp add: templates_Create_def NewPersistent_def)
  next
    case (Inr row)
    then show ?thesis using that [of "rowToTemplate U row"] q readable [OF Inr] by (auto simp: templates_Create_def NewPersistent_def)
  qed
  obtain out' log where g: "CreateTemplate U c (ae_cuid E) x n html title (ad_log db) (ad_templates db) = (out', log, t)"
      "is_ok out' = is_ok out"
    using Guard_passed [of x Create "Templates n" "templates_Create U c (NewPersistent (ae_cuid E) n html title)"
        "ad_templates db" out t "ad_log db"] True out(1)
    by (auto simp: CreateTemplate_def)
  show ?thesis
    by (rule confined_on_templates [where f = "CreateTemplate U c (ae_cuid E) x n html title", OF assms(1) g(1) ok(1)])
       (use g(2) ok(2) out(2) in auto)
qed

lemma UpdateTemplate_confined:
  assumes "admin_ok db"
  shows "confined (Some n) db (on_templates (UpdateTemplate U c x n i html title) db)"
proof -
  obtain r log t where u: "UpdateTemplate U c x n i html title (ad_log db) (ad_templates db) = (r, log, t)" by (metis surj_pair)
  show ?thesis using UpdateTemplate_done [OF _ u] assms by (intro confined_on_templates [where f = "UpdateTemplate U c x n i html title", OF assms u]) (auto simp: admin_ok_def)
qed

lemma DeleteTemplate_confined:
  assumes "admin_ok db"
  shows "confined (Some n) db (on_templates (DeleteTemplate U c x n i) db)"
proof -
  obtain r log t where u: "DeleteTemplate U c x n i (ad_log db) (ad_templates db) = (r, log, t)" by (metis surj_pair)
  show ?thesis using DeleteTemplate_done [OF _ u] assms by (intro confined_on_templates [where f = "DeleteTemplate U c x n i", OF assms u]) (auto simp: admin_ok_def)
qed

lemma CreateKey_confined:
  assumes "admin_ok db" and "canonical_name n"
  shows "confined (Some n) db (on_keys (CreateKey digest (sql_key_repo U c) m x n name exp) db)"
proof -
  obtain r log t where u: "CreateKey digest (sql_key_repo U c) m x n name exp (ad_log db) (ad_keys db) = (r, log, t)" by (metis surj_pair)
  show ?thesis
  proof (cases r)
    case (Inl e)
    then have "t = ad_keys db"
      using u by (auto simp: CreateKey_def Guard_cases sql_key_repo_def keyrepo_Create_def sqlCreateAPIKey_def Let_def
          split: if_splits sum.splits)
    then show ?thesis using assms(1) by (intro confined_on_keys [where f = "CreateKey digest (sql_key_repo U c) m x n name exp", OF assms(1) u]) (simp_all add: admin_ok_def)
  next
    case (Inr res)
    then have k: "NewAPIKey digest m n name exp = Inr res" "keyrepo_Create c (cr_key res) (ad_keys db) = (Inr (), t)"
      using u by (auto simp: CreateKey_def Guard_cases sql_key_repo_def split: if_splits sum.splits prod.splits)
    have f: "fresh_key (cr_key res)" "ak_domain (cr_key res) = n"
      using NewAPIKey_fresh [OF k(1)] NewAPIKey_key [OF k(1)] assms(2) by simp_all
    obtain row where "t = ad_keys db @ [row]" "akr_domain row = dn_string n"
      using keyrepo_Create_row [OF f(1) k(2)] f(2) by blast
    moreover have "keys_ok t" using keyrepo_create_done [OF _ f(1) k(2)] assms(1) by (simp add: admin_ok_def)
    ultimately show ?thesis using Inr by (intro confined_on_keys [where f = "CreateKey digest (sql_key_repo U c) m x n name exp", OF assms(1) u]) (auto simp: dn_string_eq)
  qed
qed

lemma DeactivateKey_confined:
  assumes "admin_ok db"
  shows "confined (Some (ref_domain ref)) db (on_keys (DeactivateKey (sql_key_repo U c) now x ref) db)"
proof -
  obtain r log t where u: "DeactivateKey (sql_key_repo U c) now x ref (ad_log db) (ad_keys db) = (r, log, t)" by (metis surj_pair)
  show ?thesis
  proof (cases r)
    case (Inl e)
    then have "t = ad_keys db"
      using u by (auto simp: DeactivateKey_def Guard_cases sql_key_repo_def keyrepo_Update_def
          split: if_splits sum.splits option.splits)
    then show ?thesis using assms(1) by (intro confined_on_keys [where f = "DeactivateKey (sql_key_repo U c) now x ref", OF assms u]) (simp_all add: admin_ok_def)
  next
    case (Inr k)
    have ok: "keys_ok (ad_keys db)" using assms by (simp add: admin_ok_def)
    have k: "keyrepo_Update U c ref (\<lambda>k. Inr (Deactivate now k)) (ad_keys db) = (Inr k, t)"
      using u Inr by (cases "keyrepo_Update U c ref (\<lambda>k. Inr (Deactivate now k)) (ad_keys db)")
        (auto simp: DeactivateKey_def Guard_cases sql_key_repo_def split: if_splits sum.splits)
    obtain row where row: "row \<in> set (ad_keys db)" "akr_domain row = dn_string (ref_domain ref)"
        "Deactivate now (key_entity row) = k" "t = sqlUpdateAPIKey (key_update_params k) (ad_keys db)"
      using keyrepo_Update_row [OF ok k] by auto
    have dom: "uap_domain (key_update_params k) = dn_string (ref_domain ref)"
      using row(2,3) by (auto simp: key_update_params_def key_entity_def Deactivate_def split: if_splits)
    have "filter (\<lambda>r. akr_domain r = s) (sqlUpdateAPIKey p rs) = filter (\<lambda>r. akr_domain r = s) rs"
      if "s \<noteq> uap_domain p" for s p rs
      using that by (induction rs) (auto simp: sqlUpdateAPIKey_def)
    then show ?thesis
      using Inr keys_ok_update [OF ok] by (intro confined_on_keys [where f = "DeactivateKey (sql_key_repo U c) now x ref", OF assms u]) (auto simp: row(4) dom dn_string_eq)
  qed
qed

lemma admin_serve_confined:
  assumes "admin_ok db" and "fresh_template E db"
  shows "confined (request_domain (ae_unicode E) rq) db (admin_serve E rq x db)"
proof -
  have ref: "parse U d = Inr (ref_domain ref)" if "ParseKeyRef U d i = Inr ref" for U d i ref
    using that by (auto simp: ParseKeyRef_def NewKeyRef_def bindR_eq_Inr split: sum.splits)
  note R = confined_read [OF assms(1)]
  note W = CreateDomain_confined SetTrackingPolicy_confined CreateTemplate_confined UpdateTemplate_confined
    DeleteTemplate_confined CreateKey_confined DeactivateKey_confined
  note P = confined_parsed [OF assms(1)] confined_reply
  note D = GetDomains_def GetDomain_def GetTemplate_def GetTemplates_def ListKeys_def GetKey_def
  show ?thesis
  proof (cases rq)
    case ReqGetDomains
    then show ?thesis by (simp add: admin_GetDomains_def confined_reply D R)
  next
    case (ReqGetDomain d)
    then show ?thesis by (auto simp: admin_GetDomain_def confined_reply D R intro!: P(1))
  next
    case (ReqCreateDomain d)
    then show ?thesis using assms(1)
      by (auto simp: admin_CreateDomain_def confined_reply right_of_def intro!: P(1) W dest: parse_canonical_name)
  next
    case (ReqSetTrackingPolicy d p)
    then show ?thesis using assms(1)
      by (auto simp: admin_SetTrackingPolicy_def confined_reply right_of_def intro!: P(1) W dest: parse_canonical_name)
  next
    case (ReqCreateTemplate d html title)
    then show ?thesis using assms(1,2)
      by (auto simp: admin_CreateTemplate_def confined_reply right_of_def intro!: P(1) W dest: parse_canonical_name)
  next
    case (ReqUpdateTemplate i html title)
    then show ?thesis using assms(1) by (auto simp: admin_UpdateTemplate_def confined_reply right_of_def intro!: P(1) W)
  next
    case (ReqDeleteTemplate i)
    then show ?thesis using assms(1) by (auto simp: admin_DeleteTemplate_def confined_reply right_of_def intro!: P(1) W)
  next
    case (ReqGetTemplate i)
    then show ?thesis by (auto simp: admin_GetTemplate_def confined_reply D R intro!: P(1))
  next
    case (ReqGetTemplates d skip tk)
    then show ?thesis by (auto simp: admin_GetTemplates_def confined_reply D R intro!: P(1))
  next
    case (ReqCreateAPIKey d n exp)
    then show ?thesis using assms(1)
      by (auto simp: admin_CreateAPIKey_def confined_reply right_of_def intro!: P(1) W dest: parse_canonical_name)
  next
    case (ReqListAPIKeys d act lim off)
    then show ?thesis by (auto simp: admin_ListAPIKeys_def confined_reply D R Let_def intro!: P(1))
  next
    case (ReqGetAPIKey d i)
    then show ?thesis by (auto simp: admin_GetAPIKey_def confined_reply D R intro!: P(1))
  next
    case (ReqDeactivateAPIKey d i)
    then show ?thesis using W(7) [OF assms(1)]
      by (auto simp: admin_DeactivateAPIKey_def confined_reply right_of_def ref intro!: P(1))
  qed
qed


definition example_admin_env :: admin_env where
  "example_admin_env =
     \<lparr>ae_unicode = no_unicode, ae_digest = rev, ae_domains = example_domain_call, ae_dkim = None,
      ae_templates = example_template_call, ae_cuid = ''c9'', ae_keys = example_key_call,
      ae_material = example_material, ae_now = 0\<rparr>"

definition example_admin_db :: admin_db where
  "example_admin_db = \<lparr>ad_log = [], ad_domains = example_domains, ad_templates = example_templates, ad_keys = []\<rparr>"



end
