(* ===== verification/StatsApi.thy ===== *)
theory StatsApi
  imports AdminApi StatsStore
begin

text \<open>
  The Stats APIs, \<open>pkg/statsapi/statsv1\<close> and \<open>pkg/statsapi/statsv2\<close>, behind the interceptor of the admin
  token: what they make of a request, ask of the statistics service, and answer.  A timestamp of a request is
  \<open>None\<close> where the message is nil.
\<close>

type_synonym wire_time = "(int \<times> int) option"

record wire_aggregated =
  wa_type :: string
  wa_time :: wire_time
  wa_count :: int

datatype stats_api_error = StatsBadDomain parse_error | OnStats "stats_error guarded_error"

definition stats_Error :: "stats_api_error \<Rightarrow> connect_code" where
  "stats_Error e = (case e of StatsBadDomain _ \<Rightarrow> CodeInternal | OnStats g \<Rightarrow> connect_Error CodeInternal g)"

definition statToPb :: "Stat \<Rightarrow> wire_stats" where
  "statToPb s =
     \<lparr>ws_message = st_message s, ws_domain = dn_string (st_domain s), ws_email = st_email s,
      ws_time = pb_time (st_time s), ws_type = type_string (st_type s), ws_data = FromOutcome (st_outcome s), ws_mode = 0\<rparr>"

definition aggregatedToPb :: "AggregatedStat \<Rightarrow> wire_aggregated" where
  "aggregatedToPb a = \<lparr>wa_type = type_string (as_type a), wa_time = pb_time (as_stamp a), wa_count = as_count a\<rparr>"

type_synonym stats_state = "Decision list \<times> stats_service"

text \<open>Version one: \<open>GetStats\<close> and \<open>GetStatsAggregated\<close>.\<close>

definition v1_GetStats ::
  "unicode \<Rightarrow> (stat_row list \<Rightarrow> stat_row list) \<Rightarrow> ctx \<Rightarrow> string \<Rightarrow> wire_time \<Rightarrow> wire_time \<Rightarrow> 32 word \<Rightarrow> 32 word \<Rightarrow>
     stats_state \<Rightarrow> (stats_api_error + int \<times> wire_stats list) \<times> stats_state" where
  "v1_GetStats U ord x dname fromDate toDate skip tk st =
     (case parse U dname of
        Inl e \<Rightarrow> (Inl (StatsBadDomain e), st)
      | Inr domain \<Rightarrow>
          (case QueryStats U ord x domain \<lparr>tr_start = as_time fromDate, tr_stop = as_time toDate\<rparr>
                  \<lparr>pg_limit = uint tk, pg_offset = uint skip\<rparr> (fst st) (snd st) of
             (Inl e, st') \<Rightarrow> (Inl (OnStats e), st')
           | (Inr (results, found), st') \<Rightarrow> (Inr (found, map statToPb results), st')))"

definition v1_GetStatsAggregated ::
  "unicode \<Rightarrow> ctx \<Rightarrow> string \<Rightarrow> wire_time \<Rightarrow> wire_time \<Rightarrow> stats_state \<Rightarrow> (stats_api_error + wire_aggregated list) \<times> stats_state" where
  "v1_GetStatsAggregated U x dname fromDate toDate st =
     (case parse U dname of
        Inl e \<Rightarrow> (Inl (StatsBadDomain e), st)
      | Inr domain \<Rightarrow>
          (case QueryTimeline x domain \<lparr>tr_start = as_time fromDate, tr_stop = as_time toDate\<rparr> (fst st) (snd st) of
             (Inl e, st') \<Rightarrow> (Inl (OnStats e), st')
           | (Inr results, st') \<Rightarrow> (Inr (map aggregatedToPb results), st')))"

text \<open>Version two answers with a code of its own for each bad argument.\<close>

definition v2_GetAggregatedStats ::
  "unicode \<Rightarrow> ctx \<Rightarrow> string \<Rightarrow> wire_time \<Rightarrow> wire_time \<Rightarrow> stats_state \<Rightarrow> (connect_code + wire_aggregated list) \<times> stats_state" where
  "v2_GetAggregatedStats U x dname fromDate toDate st =
     (case parse U dname of
        Inl e \<Rightarrow> (Inl CodeInvalidArgument, st)
      | Inr domain \<Rightarrow>
          if fromDate = None \<or> toDate = None then (Inl CodeInvalidArgument, st)
          else if \<not> as_time fromDate < as_time toDate then (Inl CodeInvalidArgument, st)
          else
            (case QueryAggregatedStats x domain \<lparr>tr_start = as_time fromDate, tr_stop = as_time toDate\<rparr> (fst st) (snd st) of
               (Inl e, st') \<Rightarrow> (Inl (connect_Error CodeInternal e), st')
             | (Inr results, st') \<Rightarrow> (Inr (map aggregatedToPb results), st')))"

section \<open>The servers\<close>

datatype stats_request =
    ReqStats string wire_time wire_time "32 word" "32 word"
  | ReqTimeline string wire_time wire_time
  | ReqAggregated string wire_time wire_time

datatype stats_response = ResStats int "wire_stats list" | ResAggregated "wire_aggregated list"

fun stats_serve ::
  "unicode \<Rightarrow> (stat_row list \<Rightarrow> stat_row list) \<Rightarrow> stats_request \<Rightarrow> ctx \<Rightarrow> stats_state \<Rightarrow> (connect_code + stats_response) \<times> stats_state" where
  "stats_serve U ord (ReqStats d fr to skip tk) x st =
     map_prod (map_sum stats_Error (\<lambda>(n, ss). ResStats n ss)) id (v1_GetStats U ord x d fr to skip tk st)"
| "stats_serve U ord (ReqTimeline d fr to) x st =
     map_prod (map_sum stats_Error ResAggregated) id (v1_GetStatsAggregated U x d fr to st)"
| "stats_serve U ord (ReqAggregated d fr to) x st =
     map_prod (map_sum id ResAggregated) id (v2_GetAggregatedStats U x d fr to st)"

definition stats_rpc ::
  "unicode \<Rightarrow> (stat_row list \<Rightarrow> stat_row list) \<Rightarrow> Token \<Rightarrow> go_time \<Rightarrow> rpc_headers \<Rightarrow> stats_request \<Rightarrow> stats_state \<Rightarrow>
     (connect_code + stats_response) \<times> stats_state" where
  "stats_rpc U ord t now h rq = adminTokenInterceptor U t now h (stats_serve U ord rq)"

section \<open>What a caller reads\<close>

definition admin_claiming :: "rpc_headers \<Rightarrow> Token \<Rightarrow> bool" where
  "admin_claiming h t \<longleftrightarrow> t \<noteq> [] \<and> h_token h = t \<and> h_attribution h = []"

lemma stats_rpc_admin:
  assumes "admin_claiming h t"
  shows "stats_rpc U ord t now h rq st = stats_serve U ord rq \<lparr>c_principal = Some AdminPrincipal, c_now = now\<rparr> st"
  using assms by (simp add: admin_claiming_def stats_rpc_def adminTokenInterceptor_def token_Authenticate_def attributed_def)

lemma stats_resources:
  assumes "canonical_name d"
  shows "resource_wf (StatsR d)" "resource_wf (AggregatedStatsR d)"
  using canonical_name_nonzero [OF assms] by (auto simp: resource_wf_def resource_defs seg_defs)

lemma stats_permitted:
  assumes "canonical_name d"
  shows "permitted \<lparr>c_principal = Some AdminPrincipal, c_now = now\<rparr> a (StatsR d)"
    and "permitted \<lparr>c_principal = Some AdminPrincipal, c_now = now\<rparr> a (AggregatedStatsR d)"
  using Admin_permitted [of "\<lparr>c_principal = Some AdminPrincipal, c_now = now\<rparr>" AdminPrincipal] stats_resources [OF assms]
  by simp_all



end
