(* ===== verification/EnvRef.thy ===== *)
theory EnvRef
  imports Regex AdminApi
begin

text \<open>
  \<open>x/config/envref\<close>: references to environment variables in configuration values, as the decode hook resolves
  them, and what \<open>x/config\<close> and \<open>pkg/api\<close> make of the admin token read through it.  \<open>lookup\<close> is the environment;
  the decoder that walks the configuration and calls the hook on each leaf is a library.
\<close>

section \<open>The patterns\<close>

abbreviation name_start :: re where "name_start \<equiv> Cls [(65, 90), (97, 122), (95, 95)]"
abbreviation name_rest :: re where "name_rest \<equiv> Cls [(65, 90), (97, 122), (48, 57), (95, 95)]"
abbreviation any_byte :: re where "any_byte \<equiv> Cls [(0, 255)]"

definition envRefPattern :: re where
  "envRefPattern =
     Cat (seq_re (map code ''env://''))
       (Cat (Cat name_start (Rep name_rest)) (opt_re (Cat (seq_re (map code '':-'')) (Rep any_byte))))"

text \<open>\<open>FindStringSubmatchIndex\<close>: the name, and the default where that group took part.\<close>

definition env_submatch :: "string \<Rightarrow> (string \<times> string option) option" where
  "env_submatch raw =
     (if \<not> full_match envRefPattern raw then None
      else (let rest = drop (length ''env://'') raw;
                name = takeWhile (in_class [(65, 90), (97, 122), (48, 57), (95, 95)]) rest;
                tail = drop (length name) rest in
        Some (name, if tail = [] then None else Some (drop (length '':-'') tail))))"

definition ascii_lower :: "char \<Rightarrow> char" where
  "ascii_lower c = (if 65 \<le> code c \<and> code c \<le> 90 then char_of (code c + 32) else c)"

text \<open>\<open>envSchemePattern\<close>; no letter of it folds to one outside ASCII.\<close>

definition envSchemePattern :: "string \<Rightarrow> bool" where
  "envSchemePattern raw \<longleftrightarrow> map ascii_lower (take (length ''env:/'') raw) = ''env:/''"

section \<open>Resolution\<close>

datatype env_error = MissingEnvError string string | MalformedRefError string

record env_options =
  eo_emptyIsUnset :: bool
  eo_lookup :: "string \<Rightarrow> string option"

definition kannonOptions :: "(string \<Rightarrow> string option) \<Rightarrow> env_options" where
  "kannonOptions lookup = \<lparr>eo_emptyIsUnset = True, eo_lookup = lookup\<rparr>"

definition env_resolve :: "env_options \<Rightarrow> string \<Rightarrow> env_error + string \<times> bool" where
  "env_resolve opts raw =
     (if has_prefix (CHR 0x5C # ''env://'') raw then Inr (''env://'' @ drop (length (CHR 0x5C # ''env://'')) raw, True)
      else
        (case env_submatch raw of
           None \<Rightarrow> if envSchemePattern raw then Inl (MalformedRefError raw) else Inr (raw, False)
         | Some (name, inline) \<Rightarrow>
             (let found = (case eo_lookup opts name of
                             None \<Rightarrow> None
                           | Some v \<Rightarrow> if eo_emptyIsUnset opts \<and> v = [] then None else Some v) in
              case found of
                Some v \<Rightarrow> Inr (v, True)
              | None \<Rightarrow> (case inline of Some d \<Rightarrow> Inr (d, True) | None \<Rightarrow> Inl (MissingEnvError name raw)))))"

text \<open>The hook on a leaf: only strings are looked at; \<open>None\<close> is a leaf of another kind.\<close>

definition env_Hook :: "env_options \<Rightarrow> string option \<Rightarrow> env_error + string option" where
  "env_Hook opts leaf =
     (case leaf of
        None \<Rightarrow> Inr leaf
      | Some raw \<Rightarrow> bindR (env_resolve opts raw) (\<lambda>(v, isRef). Inr (if \<not> isRef then leaf else Some v)))"

text \<open>The comma-separated list of a slice field.\<close>

definition stringToWeakSlice :: "string \<Rightarrow> string list" where
  "stringToWeakSlice raw = (if raw = [] then [] else split_char CHR '','' raw)"

text \<open>The admin token: the string field of its section, empty where the key is absent.\<close>

datatype admin_token_error = TokenUnresolved env_error | TokenUnusable token_error

definition APIAdminToken :: "(string \<Rightarrow> string option) \<Rightarrow> string option \<Rightarrow> env_error + string" where
  "APIAdminToken lookup leaf =
     bindR (env_Hook (kannonOptions lookup) leaf) (\<lambda>v. Inr (case v of None \<Rightarrow> [] | Some s \<Rightarrow> s))"

definition api_AdminToken :: "unicode \<Rightarrow> (string \<Rightarrow> string option) \<Rightarrow> string option \<Rightarrow> admin_token_error + Token" where
  "api_AdminToken U lookup leaf =
     (case APIAdminToken lookup leaf of
        Inl e \<Rightarrow> Inl (TokenUnresolved e)
      | Inr raw \<Rightarrow> (case token_Parse U raw of Inl e \<Rightarrow> Inl (TokenUnusable e) | Inr t \<Rightarrow> Inr t))"

section \<open>References as a grammar\<close>

definition env_name :: "string \<Rightarrow> bool" where
  "env_name n \<longleftrightarrow> n \<noteq> [] \<and> in_class [(65, 90), (97, 122), (95, 95)] (hd n) \<and>
     list_all (in_class [(65, 90), (97, 122), (48, 57), (95, 95)]) (tl n)"

definition env_ref :: "string \<Rightarrow> string option \<Rightarrow> string" where
  "env_ref n d = ''env://'' @ n @ (case d of None \<Rightarrow> [] | Some x \<Rightarrow> '':-'' @ x)"

lemma any_byte_all: "list_all (in_class [(0, 255)]) s"
proof -
  have "code c \<le> 255" for c using code_lt [of c] by linarith
  then have "in_class [(0, 255)] c" for c by (simp add: in_class_def)
  then show ?thesis by (simp add: list_all_iff)
qed

lemma envRef_lang: "s \<in> lang envRefPattern \<longleftrightarrow> (\<exists>n d. env_name n \<and> s = env_ref n d)"
proof -
  have name: "u \<in> lang (Cat name_start (Rep name_rest)) \<longleftrightarrow> env_name u" for u
    unfolding lang_class_Cat lang_class_star by (cases u) (auto simp: env_name_def)
  have tail: "v \<in> lang (opt_re (Cat (seq_re (map code '':-'')) (Rep any_byte))) \<longleftrightarrow>
      (\<exists>d. v = (case d of None \<Rightarrow> [] | Some x \<Rightarrow> '':-'' @ x))" for v
  proof -
    have "v \<in> lang (opt_re (Cat (seq_re (map code '':-'')) (Rep any_byte))) \<longleftrightarrow> v = [] \<or> (\<exists>x. v = '':-'' @ x)"
      unfolding lang.simps(2,4,5) lang_class_star lang_seq by (simp add: any_byte_all)
    also have "\<dots> \<longleftrightarrow> (\<exists>d. v = (case d of None \<Rightarrow> [] | Some x \<Rightarrow> '':-'' @ x))"
      by (metis (no_types, lifting) option.exhaust option.simps(4,5))
    finally show ?thesis .
  qed
  have "s \<in> lang envRefPattern \<longleftrightarrow> (\<exists>u v. s = ''env://'' @ u @ v \<and> env_name u \<and> (\<exists>d. v = (case d of None \<Rightarrow> [] | Some x \<Rightarrow> '':-'' @ x)))"
    unfolding envRefPattern_def lang.simps(5) [of "seq_re (map code ''env://'')"]
      lang.simps(5) [of "Cat name_start (Rep name_rest)"] lang_seq name [symmetric] tail [symmetric] by blast
  then show ?thesis by (auto simp: env_ref_def)
qed

lemma colon_no_name: "\<not> in_class [(65, 90), (97, 122), (48, 57), (95, 95)] CHR '':''"
  by code_simp

lemma env_submatch_ref:
  assumes "env_name n"
  shows "env_submatch (env_ref n d) = Some (n, d)"
proof -
  let ?P = "in_class [(65, 90), (97, 122), (48, 57), (95, 95)]"
  have n: "n \<noteq> []" "\<forall>c\<in>set n. ?P c"
    using assms by (cases n; auto simp: env_name_def list_all_iff in_class_def)+
  define tail where "tail = (case d of None \<Rightarrow> [] | Some x \<Rightarrow> '':-'' @ x)"
  have "takeWhile ?P (n @ tail) = n"
    using n(2) colon_no_name by (cases d) (simp_all add: tail_def takeWhile_append2 takeWhile_eq_all_conv)
  moreover have "full_match envRefPattern (env_ref n d)" using assms by (auto simp: full_match_lang envRef_lang)
  moreover have "drop (length ''env://'') (env_ref n d) = n @ tail" by (simp add: env_ref_def tail_def)
  moreover have "(if tail = [] then None else Some (drop (length '':-'') tail)) = d" by (cases d) (simp_all add: tail_def)
  ultimately show ?thesis unfolding env_submatch_def Let_def by (auto split: if_splits)
qed

lemma env_submatch_None: "env_submatch raw = None \<longleftrightarrow> (\<forall>n d. env_name n \<longrightarrow> raw \<noteq> env_ref n d)"
  by (auto simp: env_submatch_def Let_def full_match_lang envRef_lang)

definition env_value :: "env_options \<Rightarrow> string \<Rightarrow> string option" where
  "env_value opts n =
     (case eo_lookup opts n of None \<Rightarrow> None | Some v \<Rightarrow> if eo_emptyIsUnset opts \<and> v = [] then None else Some v)"

lemma ref_not_escaped: "\<not> has_prefix (CHR 0x5C # ''env://'') (env_ref n d)"
  by (simp add: has_prefix_def env_ref_def)

lemma resolve_ref:
  "env_name n \<Longrightarrow> env_resolve opts (env_ref n d) =
     (case env_value opts n of
        Some v \<Rightarrow> Inr (v, True)
      | None \<Rightarrow> (case d of Some x \<Rightarrow> Inr (x, True) | None \<Rightarrow> Inl (MissingEnvError n (env_ref n d))))"
  by (simp add: env_resolve_def ref_not_escaped env_submatch_ref env_value_def Let_def)

lemma resolve_escaped: "env_resolve opts (CHR 0x5C # ''env://'' @ rest) = Inr (''env://'' @ rest, True)"
  by (simp add: env_resolve_def has_prefix_def)

lemma resolve_other:
  assumes "\<forall>n d. env_name n \<longrightarrow> raw \<noteq> env_ref n d" and "\<forall>rest. raw \<noteq> CHR 0x5C # ''env://'' @ rest"
  shows "env_resolve opts raw = (if envSchemePattern raw then Inl (MalformedRefError raw) else Inr (raw, False))"
proof -
  have "\<not> has_prefix (CHR 0x5C # ''env://'') raw" using assms(2) by (auto simp: has_prefix_iff)
  moreover have "env_submatch raw = None" using assms(1) by (simp add: env_submatch_None)
  ultimately show ?thesis by (simp add: env_resolve_def)
qed



end
