(* ===== verification/Lifecycle.thy ===== *)
theory Lifecycle
  imports Prelude "HOL-Library.Word" "HOL-Library.AList"
begin

text \<open>
  What keeps the program running: the loop of \<open>internal/runner\<close> that every periodic task is driven by, the
  singletons, closers and health checks of \<open>x/container\<close>, and the services of \<open>x/config\<close>.  A loop function and
  the wait between two runs are functions on a state of the caller's choosing, so that what they do is theirs.
\<close>

section \<open>The runner\<close>

record runOpts =
  ro_hasLimit :: bool
  ro_maxLoop :: "64 word"
  ro_loopWait :: int

datatype RunOpt = MaxLoop "64 word" | WaitLoop int

fun configureRunner :: "RunOpt \<Rightarrow> runOpts \<Rightarrow> runOpts" where
  "configureRunner (MaxLoop n) o' = o'\<lparr>ro_hasLimit := True, ro_maxLoop := n\<rparr>"
| "configureRunner (WaitLoop w) o' = o'\<lparr>ro_loopWait := w\<rparr>"

definition buildOptions :: "RunOpt option list \<Rightarrow> runOpts" where
  "buildOptions opts =
     fold (\<lambda>opt o'. case opt of None \<Rightarrow> o' | Some x \<Rightarrow> configureRunner x o') opts
       \<lparr>ro_hasLimit = False, ro_maxLoop = 0, ro_loopWait = 100 * 1000000\<rparr>"

definition checkExit :: "64 word \<Rightarrow> runOpts \<Rightarrow> bool" where
  "checkExit runs o' \<longleftrightarrow> ro_hasLimit o' \<and> ro_maxLoop o' \<le> runs"

text \<open>Every run ended, one of them failed, or the context was done while waiting for the next.\<close>

datatype 'e run_end = Ran | Failed 'e | Cancelled

partial_function (option) run_from ::
  "('s \<Rightarrow> 'e option \<times> 's) \<Rightarrow> (int \<Rightarrow> 's \<Rightarrow> bool \<times> 's) \<Rightarrow> runOpts \<Rightarrow> 64 word \<Rightarrow> 's \<Rightarrow> ('e run_end \<times> 's) option" where
  "run_from loop wait o' runs s =
     (case loop s of
        (Some e, s1) \<Rightarrow> Some (Failed e, s1)
      | (None, s1) \<Rightarrow>
          if checkExit (runs + 1) o' then Some (Ran, s1)
          else
            (case wait (ro_loopWait o') s1 of
               (go, s2) \<Rightarrow> if go then run_from loop wait o' (runs + 1) s2 else Some (Cancelled, s2)))"

definition Run ::
  "('s \<Rightarrow> 'e option \<times> 's) \<Rightarrow> (int \<Rightarrow> 's \<Rightarrow> bool \<times> 's) \<Rightarrow> RunOpt option list \<Rightarrow> 's \<Rightarrow> ('e run_end \<times> 's) option" where
  "Run loop wait opts s = run_from loop wait (buildOptions opts) 0 s"

section \<open>Singletons\<close>

text \<open>What \<open>once\<close> has stored: \<open>None\<close> before the first \<open>Get\<close>, then its outcome for good.\<close>

type_synonym ('e, 'a) singleton = "('e + 'a) option"

definition singleton_Get :: "('s \<Rightarrow> ('e + 'a) \<times> 's) \<Rightarrow> ('e, 'a) singleton \<Rightarrow> 's \<Rightarrow> ('e + 'a) \<times> ('e, 'a) singleton \<times> 's" where
  "singleton_Get f g s =
     (case g of
        Some r \<Rightarrow> (r, g, s)
      | None \<Rightarrow> (case f s of (r, s') \<Rightarrow> (r, Some r, s')))"

text \<open>\<open>MustGet\<close> exits the process on an error: \<open>None\<close>.\<close>

definition singleton_MustGet :: "('s \<Rightarrow> ('e + 'a) \<times> 's) \<Rightarrow> ('e, 'a) singleton \<Rightarrow> 's \<Rightarrow> 'a option \<times> ('e, 'a) singleton \<times> 's" where
  "singleton_MustGet f g s =
     (case singleton_Get f g s of (r, g', s') \<Rightarrow> (case r of Inl _ \<Rightarrow> None | Inr v \<Rightarrow> Some v, g', s'))"

section \<open>Health\<close>

text \<open>The checks run at once; \<open>ended\<close> is their outcomes in the order they ended.\<close>

type_synonym HZRes = "(string \<times> string option) list" \<comment> \<open>a map from names to errors, \<open>None\<close> the nil one\<close>

definition container_HZ :: "(string \<times> string option) list \<Rightarrow> HZRes" where
  "container_HZ ended =
     fold (\<lambda>(name, err) res. if err \<noteq> None then AList.update name err res else res) ended []"

definition hzapi_HZ :: "(string \<times> string option) list \<Rightarrow> (string \<times> string) list" where
  "hzapi_HZ ended = map (\<lambda>(name, err). (name, case err of Some e \<Rightarrow> e | None \<Rightarrow> ''OK'')) (container_HZ ended)"

text \<open>A healthy dependency is never reported as such: the answer holds the failed ones alone.\<close>

lemma hz_reports_failures_only:
  "(\<forall>(name, report)\<in>set (hzapi_HZ ended). (name, Some report) \<in> set ended) \<and>
   (list_all (\<lambda>(name, err). err = None) ended \<longrightarrow> hzapi_HZ ended = [])"
proof
  have "\<forall>(name, err)\<in>set (fold (\<lambda>(name, err) res. if err \<noteq> None then AList.update name err res else res) xs res).
      (name, err) \<in> set xs \<union> set res \<and> ((name, err) \<in> set res \<or> err \<noteq> None)" for xs res
  proof (induction xs arbitrary: res)
    case (Cons x xs)
    obtain n e where x: "x = (n, e)" by (metis surj_pair)
    have "set (AList.update n e res) \<subseteq> insert (n, e) (set res)"
      by (induction res) auto
    then show ?case using Cons [of "if e \<noteq> None then AList.update n e res else res"] by (fastforce simp: x split: if_splits)
  qed auto
  from this [of ended "[]"]
  show "\<forall>(name, report)\<in>set (hzapi_HZ ended). (name, Some report) \<in> set ended"
    by (fastforce simp: hzapi_HZ_def container_HZ_def split: option.splits)
  have "fold (\<lambda>(name, err) res. if err \<noteq> None then AList.update name err res else res) xs res = res"
    if "list_all (\<lambda>(name, err). err = None) xs" for xs :: "(string \<times> string option) list" and res
    using that by (induction xs arbitrary: res) auto
  then show "list_all (\<lambda>(name, err). err = None) ended \<longrightarrow> hzapi_HZ ended = []"
    by (simp add: hzapi_HZ_def container_HZ_def)
qed

section \<open>Singletons are made once\<close>

fun singleton_Gets :: "('s \<Rightarrow> ('e + 'a) \<times> 's) list \<Rightarrow> ('e, 'a) singleton \<Rightarrow> 's \<Rightarrow> ('e + 'a) list \<times> ('e, 'a) singleton \<times> 's" where
  "singleton_Gets [] g s = ([], g, s)"
| "singleton_Gets (m # ms) g s =
     (case singleton_Get m g s of (r, g1, s1) \<Rightarrow>
        (case singleton_Gets ms g1 s1 of (rs, g2, s2) \<Rightarrow> (r # rs, g2, s2)))"

lemma singleton_kept: "singleton_Gets ms (Some r) s = (replicate (length ms) r, Some r, s)"
  by (induction ms) (simp_all add: singleton_Get_def)

lemma singleton_once:
  "singleton_Gets (m # ms) None s =
     (replicate (Suc (length ms)) (fst (m s)), Some (fst (m s)), snd (m s))"
  by (cases "m s") (simp add: singleton_Get_def singleton_kept)

section \<open>The runner ends when it should\<close>

text \<open>The loop function with a count of its runs.\<close>

definition counting :: "('s \<Rightarrow> 'e option \<times> 's) \<Rightarrow> 's \<times> nat \<Rightarrow> 'e option \<times> 's \<times> nat" where
  "counting loop st = (case loop (fst st) of (e, s') \<Rightarrow> (e, s', Suc (snd st)))"

definition on_first :: "(int \<Rightarrow> 's \<Rightarrow> bool \<times> 's) \<Rightarrow> int \<Rightarrow> 's \<times> nat \<Rightarrow> bool \<times> 's \<times> nat" where
  "on_first wait d st = (case wait d (fst st) of (go, s') \<Rightarrow> (go, s', snd st))"

lemma run_limited:
  assumes "ro_hasLimit o'" and "unat runs \<le> unat (ro_maxLoop o') - 1"
  shows "\<exists>res s' c. run_from (counting loop) (on_first wait) o' runs (s, k) = Some (res, s', k + c) \<and>
     run_from loop wait o' runs s = Some (res, s') \<and> 1 \<le> c \<and> c \<le> max 1 (unat (ro_maxLoop o')) - unat runs \<and>
     (res = Ran \<longrightarrow> c = max 1 (unat (ro_maxLoop o')) - unat runs)"
  using assms(2)
proof (induction "unat (ro_maxLoop o') - unat runs" arbitrary: runs s k rule: less_induct)
  case less
  obtain e s1 where l: "loop s = (e, s1)" by (metis surj_pair)
  have room: "1 \<le> max 1 (unat (ro_maxLoop o')) - unat runs" using less.prems by auto
  show ?case
  proof (cases e)
    case (Some err)
    then show ?thesis using l room
      by (subst (1 2) run_from.simps) (auto simp: counting_def intro!: exI [of _ 1])
  next
    case None
    have next_run: "unat (runs + 1) = Suc (unat runs)"
    proof -
      have "unat (ro_maxLoop o') < 2 ^ LENGTH(64)" by (rule unsigned_less)
      then have "unat runs + unat (1 :: 64 word) < 2 ^ LENGTH(64)" using less.prems by auto
      then show ?thesis by (simp only: unat_add_lem) simp
    qed
    show ?thesis
    proof (cases "checkExit (runs + 1) o'")
      case True
      then have "unat (ro_maxLoop o') \<le> Suc (unat runs)"
        by (simp add: checkExit_def word_le_nat_alt next_run)
      then have c: "max 1 (unat (ro_maxLoop o')) - unat runs = 1" using less.prems by auto
      show ?thesis unfolding c using l None True
        by (subst (1 2) run_from.simps) (auto simp: counting_def intro!: exI [of _ 1])
    next
      case False
      then have more: "Suc (unat runs) < unat (ro_maxLoop o')"
        using assms(1) by (auto simp: checkExit_def word_le_nat_alt next_run)
      obtain go s2 where w: "wait (ro_loopWait o') s1 = (go, s2)" by (metis surj_pair)
      show ?thesis
      proof (cases go)
        case False
        then show ?thesis using l None \<open>\<not> checkExit (runs + 1) o'\<close> w room
          by (subst (1 2) run_from.simps) (auto simp: counting_def on_first_def intro!: exI [of _ 1])
      next
        case True
        have "unat (ro_maxLoop o') - unat (runs + 1) < unat (ro_maxLoop o') - unat runs"
            "unat (runs + 1) \<le> unat (ro_maxLoop o') - 1" using more by (auto simp: next_run)
        from less.hyps [OF this, of s2 "Suc k"] obtain res s' c
          where IH: "run_from (counting loop) (on_first wait) o' (runs + 1) (s2, Suc k) = Some (res, s', Suc k + c)"
            "run_from loop wait o' (runs + 1) s2 = Some (res, s')" "1 \<le> c"
            "c \<le> max 1 (unat (ro_maxLoop o')) - unat (runs + 1)"
            "res = Ran \<longrightarrow> c = max 1 (unat (ro_maxLoop o')) - unat (runs + 1)" by blast
        have "run_from (counting loop) (on_first wait) o' runs (s, k) = Some (res, s', k + Suc c)"
          "run_from loop wait o' runs s = Some (res, s')"
          using l None \<open>\<not> checkExit (runs + 1) o'\<close> w True IH(1,2)
          by (subst run_from.simps; simp add: counting_def on_first_def)+
        then show ?thesis using IH(3-5) more by (intro exI [of _ res] exI [of _ s'] exI [of _ "Suc c"]) (auto simp: next_run)
      qed
    qed
  qed
qed

definition stops :: "('s \<Rightarrow> 'e option \<times> 's) \<Rightarrow> (int \<Rightarrow> 's \<Rightarrow> bool \<times> 's) \<Rightarrow> bool" where
  "stops loop wait \<longleftrightarrow> (\<exists>s. fst (loop s) \<noteq> None) \<or> (\<exists>d s. \<not> fst (wait d s))"

lemma run_unlimited:
  assumes "run_from loop wait o' runs s = Some r"
  shows "\<not> ro_hasLimit o' \<longrightarrow> fst r \<noteq> Ran \<and> stops loop wait"
proof (rule run_from.raw_induct [OF _ assms])
  fix rf :: "('s \<Rightarrow> 'e option \<times> 's) \<Rightarrow> (int \<Rightarrow> 's \<Rightarrow> bool \<times> 's) \<Rightarrow> runOpts \<Rightarrow> 64 word \<Rightarrow> 's \<Rightarrow> ('e run_end \<times> 's) option"
    and loop wait o' runs s r
  assume IH: "\<And>loop wait o' runs s r. rf loop wait o' runs s = Some r \<Longrightarrow>
      \<not> ro_hasLimit o' \<longrightarrow> fst r \<noteq> Ran \<and> stops loop wait"
    and body: "(case loop s of
        (None, s1) \<Rightarrow> if checkExit (runs + 1) o' then Some (Ran, s1)
          else (case wait (ro_loopWait o') s1 of (go, s2) \<Rightarrow> if go then rf loop wait o' (runs + 1) s2 else Some (Cancelled, s2))
      | (Some e, s1) \<Rightarrow> Some (Failed e, s1)) = Some r"
  obtain e s1 where l: "loop s = (e, s1)" by (metis surj_pair)
  obtain go s2 where w: "wait (ro_loopWait o') s1 = (go, s2)" by (metis surj_pair)
  show "\<not> ro_hasLimit o' \<longrightarrow> fst r \<noteq> Ran \<and> stops loop wait"
  proof
    assume no: "\<not> ro_hasLimit o'"
    then have nx: "\<not> checkExit (runs + 1) o'" by (simp add: checkExit_def)
    show "fst r \<noteq> Ran \<and> stops loop wait"
    proof (cases e)
      case (Some err)
      then have "r = (Failed err, s1)" using body unfolding l by simp
      moreover have "fst (loop s) \<noteq> None" by (simp add: l Some)
      ultimately show ?thesis by (auto simp: stops_def)
    next
      case None
      then have r: "(if go then rf loop wait o' (runs + 1) s2 else Some (Cancelled, s2)) = Some r"
        using body nx unfolding l w by (simp add: w)
      show ?thesis
      proof (cases go)
        case True
        then show ?thesis using IH [of loop wait o' "runs + 1" s2 r] r no by simp
      next
        case False
        then have "\<not> fst (wait (ro_loopWait o') s1)" by (simp add: w)
        then show ?thesis using r False by (auto simp: stops_def)
      qed
    qed
  qed
qed

text \<open>The limit the options ask for: the last one given.\<close>

fun last_limit :: "RunOpt option list \<Rightarrow> 64 word option" where
  "last_limit [] = None"
| "last_limit (opt # opts) =
     (case last_limit opts of
        Some n \<Rightarrow> Some n
      | None \<Rightarrow> (case opt of Some (MaxLoop n) \<Rightarrow> Some n | _ \<Rightarrow> None))"

lemma buildOptions_limit:
  "ro_hasLimit (fold (\<lambda>opt o'. case opt of None \<Rightarrow> o' | Some x \<Rightarrow> configureRunner x o') opts o') \<longleftrightarrow>
     last_limit opts \<noteq> None \<or> ro_hasLimit o'"
  "ro_maxLoop (fold (\<lambda>opt o'. case opt of None \<Rightarrow> o' | Some x \<Rightarrow> configureRunner x o') opts o') =
     (case last_limit opts of Some n \<Rightarrow> n | None \<Rightarrow> ro_maxLoop o')"
proof (induction opts arbitrary: o')
  case (Cons opt opts)
  { case 1 show ?case using Cons(1) by (cases opt; cases "the opt") (auto split: option.splits) }
  { case 2 show ?case using Cons(2) by (cases opt; cases "the opt") (auto split: option.splits) }
qed auto



section \<open>Closing\<close>

datatype close_result = Closed | ShutdownErrors "string list" | ShutdownTimeout

text \<open>The results of the closers as they came in before the deadline; each is awaited in turn.\<close>

fun close_collect :: "nat \<Rightarrow> string option list \<Rightarrow> string list \<Rightarrow> close_result" where
  "close_collect 0 came errs = (if errs = [] then Closed else ShutdownErrors errs)"
| "close_collect (Suc n) [] errs = ShutdownTimeout"
| "close_collect (Suc n) (r # came) errs = close_collect n came (case r of None \<Rightarrow> errs | Some e \<Rightarrow> errs @ [e])"

definition CloseWithTimeout :: "nat \<Rightarrow> string option list \<Rightarrow> close_result" where
  "CloseWithTimeout closers came = (if closers = 0 then Closed else close_collect closers came [])"

lemma close_collect_result:
  "close_collect n came errs =
     (if length came < n then ShutdownTimeout
      else if errs @ concat (map (\<lambda>r. case r of None \<Rightarrow> [] | Some e \<Rightarrow> [e]) (take n came)) = [] then Closed
      else ShutdownErrors (errs @ concat (map (\<lambda>r. case r of None \<Rightarrow> [] | Some e \<Rightarrow> [e]) (take n came))))"
  by (induction n came errs rule: close_collect.induct) (auto split: option.splits)

lemma CloseWithTimeout_Closed:
  "CloseWithTimeout n came = Closed \<longleftrightarrow> n \<le> length came \<and> list_all (\<lambda>r. r = None) (take n came)"
proof -
  have "concat (map (\<lambda>r. case r of None \<Rightarrow> [] | Some e \<Rightarrow> [e]) xs) = [] \<longleftrightarrow> list_all (\<lambda>r. r = None) xs" for xs :: "string option list"
    by (induction xs) (auto split: option.splits)
  then show ?thesis by (auto simp: CloseWithTimeout_def close_collect_result)
qed

section \<open>The streams of the embedded server\<close>

definition embedded_streams :: "(string \<times> string list) list" where
  "embedded_streams =
     [(''kannon-sending'', [''kannon.sending'']), (''kannon-stats'', [''kannon.stats.*'']), (''kannon-bounce'', [''kannon.bounce''])]"

text \<open>\<open>adds\<close> says whether \<open>AddStream\<close> succeeds for a name; a stream that exists is left as it is.\<close>

fun provision :: "(string \<Rightarrow> bool) \<Rightarrow> (string \<times> string list) list \<Rightarrow> (string \<rightharpoonup> string list) \<Rightarrow> bool \<times> (string \<rightharpoonup> string list)" where
  "provision adds [] js = (True, js)"
| "provision adds ((name, subjects) # rest) js =
     (if js name \<noteq> None then provision adds rest js
      else if \<not> adds name then (False, js)
      else provision adds rest (js(name \<mapsto> subjects)))"

definition provisionEmbeddedJetStreams :: "(string \<Rightarrow> bool) \<Rightarrow> (string \<rightharpoonup> string list) \<Rightarrow> bool \<times> (string \<rightharpoonup> string list)" where
  "provisionEmbeddedJetStreams adds = provision adds embedded_streams"

lemma provision_kept: "js n = Some ss \<Longrightarrow> snd (provision adds streams js) n = Some ss"
proof (induction adds streams js rule: provision.induct)
  case (2 adds name subjects rest js)
  then show ?case by (cases "n = name") (auto simp: fun_upd_def)
qed simp

lemma provision_done:
  "fst (provision adds streams js) \<Longrightarrow> (n, ss) \<in> set streams \<Longrightarrow> snd (provision adds streams js) n \<noteq> None"
  by (induction adds streams js rule: provision.induct) (auto simp: provision_kept split: if_splits)

section \<open>Services\<close>

record Services =
  sv_sender :: bool
  sv_dispatcher :: bool
  sv_validator :: bool
  sv_stats :: bool
  sv_tracker :: bool
  sv_api :: bool
  sv_smtp :: bool
  sv_audit :: bool

definition services_each :: "Services \<Rightarrow> (string \<times> bool) list" where
  "services_each s =
     [(''sender'', sv_sender s), (''dispatcher'', sv_dispatcher s), (''validator'', sv_validator s),
      (''stats'', sv_stats s), (''tracker'', sv_tracker s), (''api'', sv_api s), (''smtp'', sv_smtp s),
      (''audit'', sv_audit s)]"

definition services_Enabled :: "Services \<Rightarrow> string list" where
  "services_Enabled s = map fst (filter snd (services_each s))"

definition AllServices :: Services where
  "AllServices =
     \<lparr>sv_sender = True, sv_dispatcher = True, sv_validator = True, sv_stats = True, sv_tracker = True,
      sv_api = True, sv_smtp = True, sv_audit = True\<rparr>"

lemma AllServices_each: "list_all snd (services_each AllServices)"
  by (simp add: services_each_def AllServices_def)

end
