(* ===== verification/Spec2Isabelle.thy ===== *)
theory Spec2Isabelle
  imports Pipeline Tracker Journey AuditRegister Bounce StatsApi EnvRef Lifecycle
begin

text \<open>
  Verification of Kannon, a server that sends transactional mail for many tenants.  The development models
  the Go code of \<open>internal/\<close>, \<open>pkg/\<close> and \<open>x/\<close>; this theory collects it.

  \<^bold>\<open>The program.\<close>  A tenant is a Domain.  It authenticates with an API key and asks the Mailer API
  (\<open>pkg/api/mailapi\<close>) to send a Template or an HTML body to a list of Recipients.  The request becomes a
  Batch, a row of \<open>messages\<close>, and one Delivery per admitted Recipient, a row of \<open>sending_pool_emails\<close>, the
  Pool.  From there on workers share nothing but the Pool and two NATS streams.  The Validator claims
  Deliveries to validate and either marks them scheduled or drops them as Rejected.  The Dispatcher claims
  scheduled ones, has the Builder render an Envelope and publishes it on the sending stream.  The SMTPSender
  takes Envelopes off that stream, claims each stored message once, transmits it and publishes the outcome on
  the stats stream; consumers of the Dispatcher turn outcomes into commands on the Pool (drop or retry), and
  the reclaimer hands back Deliveries whose outcome never came.  The tracker, which answers the pixel and the
  links of a message, and the bounce server publish on the stats stream as well; the stats worker stores what
  arrives there.  Authority is decided in one place, \<open>internal/authz\<close>, and every Decision is published for
  the audit worker, which keeps the register.

  \<^bold>\<open>The theories, and the code each models.\<close>
  \<^item> Foundations.  \<open>Prelude\<close>: Go strings, errors, lists.  \<open>Utf8\<close>: strings read as runes.  \<open>Regex\<close>: regular
    expressions, by derivatives.  \<open>Contracts\<close>: the locales several components are instances of.
  \<^item> Values.  \<open>Values\<close>: \<open>internal/values\<close>.  \<open>Tracking\<close> and \<open>TrackingWire\<close>: \<open>internal/tracking\<close> and
    \<open>internal/trackingpb\<close>.  \<open>Messages\<close>: \<open>internal/utils/message.go\<close> and \<open>obfuscate.go\<close>, the identifiers a
    message carries.  \<open>Stream\<close>: \<open>internal/utils/utils.go\<close> and \<open>stream.go\<close>.
  \<^item> Authority.  \<open>Resources\<close>, \<open>Roles\<close> and \<open>Authz\<close>: \<open>internal/authz\<close>.  \<open>AdminApi\<close>: \<open>internal/admintoken\<close>,
    \<open>internal/authzconnect\<close> and \<open>pkg/api/adminapi\<close>.  \<open>AuditRegister\<close>: \<open>internal/audit\<close>, \<open>pkg/audit\<close> and
    \<open>internal/db/audit_repo.go\<close>.
  \<^item> Tenants.  \<open>ApiKeys\<close>: \<open>internal/apikeys\<close> with both repositories.  \<open>Domains\<close>: \<open>internal/domains\<close>.
    \<open>TemplateStore\<close>: \<open>internal/templates\<close>.
  \<^item> Deliveries.  \<open>Batch\<close>: \<open>internal/batch\<close>.  \<open>Delivery\<close>: \<open>internal/delivery\<close>.  \<open>DeliveryStore\<close>:
    \<open>internal/db/delivery_repo.go\<close> over \<open>pool.sql\<close>.  \<open>Intake\<close>: \<open>pkg/api/mailapi\<close>.
  \<^item> Rendering.  \<open>Template\<close>: \<open>internal/utils/template.go\<close>.  \<open>Html\<close>: the HTML part of
    \<open>internal/envelope/message.go\<close>.  \<open>StatsSec\<close>: \<open>internal/statssec\<close>, tokens and signing keys.  \<open>Envelope\<close>: the
    Builder and its cache of shared tokens.
  \<^item> Workers.  \<open>Validator\<close>: \<open>pkg/validator\<close>.  \<open>Dispatcher\<close>: \<open>pkg/dispatcher\<close> with \<open>internal/publisher\<close> and
    \<open>internal/pool\<close>.  \<open>Smtp\<close>: \<open>internal/smtp\<close>.  \<open>Sender\<close>: \<open>pkg/smtpsender\<close>.  \<open>Bounce\<close>: \<open>pkg/smtp\<close>.
    \<open>Tracker\<close>: \<open>pkg/tracker\<close>.
  \<^item> Statistics.  \<open>Stats\<close>, \<open>StatsStore\<close>, \<open>StatsWorker\<close>, \<open>StatsApi\<close>: \<open>internal/stats\<close>, \<open>internal/statspb\<close>, the
    stats files of \<open>internal/db\<close>, \<open>pkg/stats\<close> and \<open>pkg/statsapi\<close>.
  \<^item> The process.  \<open>EnvRef\<close>: \<open>x/config/envref\<close>.  \<open>Lifecycle\<close>: \<open>internal/runner\<close>, \<open>x/container\<close> and the services
    of \<open>x/config\<close>.
  \<^item> Across components.  \<open>Pipeline\<close>: the sending workers as one step relation.  \<open>Journey\<close>: from a request to
    the rendered Envelope.

  \<^bold>\<open>How the code is represented.\<close>  A struct is a record, a tagged one a datatype, and definitions keep the
  names of the Go functions where HOL leaves them free.  A function that returns an error is a function into a
  sum, the error on the left.  A function that changes state returns the new state: a repository over SQL is
  the list of the table's rows, one over a Go map or slice is that map or slice, and a stream is the list of
  messages published on it.  Instants are integers of nanoseconds, cut to microseconds where a column holds
  them.  \<open>time.Duration\<close> is a 64-bit word where the code multiplies durations, and 32-bit counters of rows
  and pages wrap where the code converts them.  A nil pointer or an absent field is \<open>None\<close>.
  Concurrency is explicit: in \<open>Pipeline\<close> any worker may take the next step on any message its stream holds or
  has held, and each call inside a handler may succeed, fail, or take effect and report failure.

  \<^bold>\<open>Parameters.\<close>  What is not in the tree is an argument: the Unicode tables above ASCII (\<open>unicode\<close>), the rows
  a planner picks under \<open>LIMIT\<close> with \<open>SKIP LOCKED\<close> (restricted by \<open>planner_ok\<close>), the order of rows SQL
  leaves open, the protobuf encoding (\<open>codec\<close>), JSON text (\<open>json_lib\<close>), JWT and RSA (\<open>jwt_lib\<close>, with
  \<open>jwt_ok\<close> as its documented behaviour), the digests of keys and of the send guard, the MIME writer and DKIM
  signer (\<open>mail_lib\<close>), the regular expression engine on patterns built from field names (\<open>regexp_lib\<close>),
  \<open>url.Parse\<close>, \<open>mail.ReadMessage\<close>, the resolver and the relays, the environment, and the functions a runner is
  given.  Where a call may fail, how it turned out is an argument of the step.  A property that restricts a
  parameter has a witness with a concrete instance of it.

  \<^bold>\<open>Interfaces.\<close>  \<open>retry_store\<close>, \<open>claim_queue\<close>, \<open>page_worker\<close> and \<open>event_log\<close> (\<open>Contracts\<close>) state what a
  client may rely on of the Pool, of its two queues, of a worker that goes through a claimed page, and of an
  append-only log without duplicates; the Pool, both of its Prepare statements, the Dispatcher and the
  Validator, and both stats repositories are instances.  \<open>swept_log\<close> (\<open>AuditRegister\<close>) extends the log with
  deletion by age, and both audit repositories are instances.  \<open>key_repository\<close> (\<open>ApiKeys\<close>) is the contract of
  the SQL and of the in-memory repository of keys.  \<open>token_issuer\<close> (\<open>Envelope\<close>) is what the Builder relies
  on of the token service, and \<open>channel_claims\<close> (\<open>StatsSec\<close>) what opens and links have in common.

  \<^bold>\<open>What is shown.\<close>
  \<^item> Delivery.  Under every interleaving a queued Delivery stays in the Pool until an event that ends it has been
    published, but for a rejection the Validator could not report; claims are exclusive, so a Delivery is handed
    to one worker at a time; a stored Envelope is transmitted once while the guard remembers it; the attempts of
    a Delivery count the retries it was given; cycles account for every Delivery they claimed.
  \<^item> Authority.  Nothing is queued without a live key of the Domain it is queued for, nor under a sender's
    address on another Domain than that or a parent of it; the Admin API is closed without the operator's token
    and touches only the Domain named; narrowing never widens; each guarded call leaves one Decision, and the
    register keeps what was decided once each, for as long as its retention.
  \<^item> Privacy.  The policies of Domain, Batch and Recipient collapse to the most restrictive; a token names a
    person only where the Mode allows it, and neither the Builder nor the tracker reports more than the Mode.
  \<^item> Content.  What \<open>scheduleBatch\<close> stored is what the Builder reads back; the Envelope's addresses, links
    and opt-out are determined by it; identifiers round-trip; a bounce reaches the Delivery it answers.
  \<^item> Records.  The SQL and in-memory repositories agree; a stats event is stored once however often it is
    delivered; pages are cut from the newest-first order.
  \<^item> Process.  A runner that is given a number of runs ends after as many, or at the first error.

  Several results are about what the code does not do: a stranded Delivery may cycle forever, and an outcome
  whose publication fails is lost.  They are stated as the code has them.

  \<^bold>\<open>Termination.\<close>  Loops over text are total functions with a measure, so no property is conditional on
  their ending.  The one loop that may run forever, the runner's, is a partial function into an option; that
  it returns under a bound on its runs is a theorem.  No definition uses fuel.  Tables and streams are
  unbounded, except where a column's or counter's width matters.

  \<^bold>\<open>Not modelled.\<close>  Generation and use of RSA and DKIM keys, and the connection-level SMTP, HTTP, NATS and
  PostgreSQL code, which call libraries; the wiring of processes, flags and listeners; migrations, whose
  constraints appear as hypotheses of the statements or as arguments; code generated from protobuf and SQL,
  the statements themselves apart; and the repository's own tests, whose shared suites sample the contracts
  stated here as locales.
\<close>

end
